(* ===== verification/Strike_Prelude.thy ===== *)
theory Strike_Prelude
  imports Main "HOL-Library.Word"
begin

text \<open>
  The prelude of the development: the types every component shares (bytes, Go errors and
  panics, the results of fallible calls), the state-and-panic computations in which the
  code that panics and recovers is written, and the generic facts about lists and words
  that the component proofs use through the collections declared here.

  A Go byte is an \<open>8 word\<close>, a Go \<open>[]byte\<close> or \<open>string\<close> a list of bytes. Lengths and offsets
  of slices are \<open>nat\<close> (a slice never has more than \<open>2^63 - 1\<close> elements), and \<open>int\<close> where the
  source can compute a negative difference.
\<close>

section \<open>Shared types\<close>

type_synonym byte = "8 word"
type_synonym bytes = "byte list"

text \<open>
  Go errors. \<open>IoEOF\<close> is the value \<open>io.EOF\<close>, which code compares by identity; \<open>Timeout\<close> is a
  \<open>net.Error\<close> whose \<open>Timeout()\<close> is true; every other error is identified by its message.
\<close>

datatype go_error = IoEOF | Timeout | GoErr string

text \<open>
  A panic carries an error value (\<open>panic(err)\<close>), another value (\<open>panic("...")\<close>), or is one
  of the run-time errors of the language, which are \<open>error\<close> values too.
\<close>

datatype rt_error = SliceBounds | IndexRange | NilDereference | MakeSlice

datatype panic = PanicErr go_error | PanicValue string | PanicRuntime rt_error

type_synonym 'a go = "panic + 'a"

section \<open>Collections\<close>

named_theorems go_simps \<open>equations that run the state-and-panic computations\<close>
named_theorems len_simps \<open>facts about the lengths of slices\<close>

section \<open>Computations that change a state and may panic\<close>

text \<open>
  A method that mutates its receiver and may panic is a function from the state to a result
  and the state it leaves. A panic keeps the state reached so far: a deferred \<open>recover\<close> sees
  the mutations made before the panic.
\<close>

type_synonym ('s, 'a) gom = "'s \<Rightarrow> 'a go \<times> 's"

definition gret :: "'a \<Rightarrow> ('s, 'a) gom" where
  "gret x s = (Inr x, s)"

definition gpanic :: "panic \<Rightarrow> ('s, 'a) gom" where
  "gpanic e s = (Inl e, s)"

definition gbind :: "('s, 'a) gom \<Rightarrow> ('a \<Rightarrow> ('s, 'b) gom) \<Rightarrow> ('s, 'b) gom" where
  "gbind m f s = (case m s of (Inl e, s') \<Rightarrow> (Inl e, s') | (Inr x, s') \<Rightarrow> f x s')"

definition gget :: "('s \<Rightarrow> 'a) \<Rightarrow> ('s, 'a) gom" where
  "gget f s = (Inr (f s), s)"

definition gmod :: "('s \<Rightarrow> 's) \<Rightarrow> ('s, unit) gom" where
  "gmod f s = (Inr (), f s)"

text \<open>A computation on the second component of a pair (the buffer a method is handed).\<close>

definition gsnd :: "('b, 'a) gom \<Rightarrow> ('m \<times> 'b, 'a) gom" where
  "gsnd m s = (case m (snd s) of (r, b') \<Rightarrow> (r, (fst s, b')))"

text \<open>An update of the first component (the fields of the receiver).\<close>

definition gfst :: "('m \<Rightarrow> 'm) \<Rightarrow> ('m \<times> 'b, unit) gom" where
  "gfst f s = (Inr (), (f (fst s), snd s))"

lemma gret_run [go_simps]: "gret x s = (Inr x, s)"
  by (simp add: gret_def)

lemma gpanic_run [go_simps]: "gpanic e s = (Inl e, s)"
  by (simp add: gpanic_def)

lemma gget_run [go_simps]: "gget f s = (Inr (f s), s)"
  by (simp add: gget_def)

lemma gmod_run [go_simps]: "gmod f s = (Inr (), f s)"
  by (simp add: gmod_def)

lemma gfst_run [go_simps]: "gfst f (m, b) = (Inr (), (f m, b))"
  by (simp add: gfst_def)

lemma gbind_Inr [go_simps]: "m s = (Inr x, s') \<Longrightarrow> gbind m f s = f x s'"
  by (simp add: gbind_def)

lemma gbind_Inl [go_simps]: "m s = (Inl e, s') \<Longrightarrow> gbind m f s = (Inl e, s')"
  by (simp add: gbind_def)

lemma gsnd_run [go_simps]: "m b = (r, b') \<Longrightarrow> gsnd m (x, b) = (r, (x, b'))"
  by (simp add: gsnd_def)

lemma gbind_cases:
  assumes "gbind m f s = (r, t)"
  obtains e where "m s = (Inl e, t)" and "r = Inl e"
        | x s' where "m s = (Inr x, s')" and "f x s' = (r, t)"
  using assms by (auto simp: gbind_def split: prod.splits sum.splits)

text \<open>Statements in sequence, and a statement guarded by a field of the receiver.\<close>

primrec gseq :: "('s, unit) gom list \<Rightarrow> ('s, unit) gom" where
  "gseq [] = gret ()"
| "gseq (c # cs) = gbind c (\<lambda>_. gseq cs)"

definition gwhen :: "('m \<Rightarrow> bool) \<Rightarrow> ('m \<times> 'b, unit) gom \<Rightarrow> ('m \<times> 'b, unit) gom" where
  "gwhen c g s = (if c (fst s) then g s else gret () s)"

text \<open>\<open>this.F = g(buf)\<close>.\<close>

definition gassign :: "('b, 'a) gom \<Rightarrow> ('a \<Rightarrow> 'm \<Rightarrow> 'm) \<Rightarrow> ('m \<times> 'b, unit) gom" where
  "gassign g upd = gbind (gsnd g) (\<lambda>x. gfst (upd x))"

lemma gwhen_run [go_simps]: "gwhen c g (m, b) = (if c m then g (m, b) else (Inr (), (m, b)))"
  by (simp add: gwhen_def gret_def)

lemma gassign_Inr [go_simps]: "g b = (Inr x, b') \<Longrightarrow> gassign g upd (m, b) = (Inr (), (upd x m, b'))"
  by (simp add: gassign_def gbind_def gsnd_def gfst_def)

lemma gassign_Inl [go_simps]: "g b = (Inl e, b') \<Longrightarrow> gassign g upd (m, b) = (Inl e, (m, b'))"
  by (simp add: gassign_def gbind_def gsnd_def)

text \<open>Steps that may panic, run in order on a value; a panic stops the run.\<close>

primrec seq_go :: "('w \<Rightarrow> 'w go) list \<Rightarrow> 'w \<Rightarrow> 'w go" where
  "seq_go [] w = Inr w"
| "seq_go (f # fs) w = (case f w of Inl e \<Rightarrow> Inl e | Inr w' \<Rightarrow> seq_go fs w')"

section \<open>Slices\<close>

text \<open>
  Go's \<open>copy(dst[:n], src)\<close> where \<open>dst\<close> starts at the beginning of the array \<open>a\<close>: at most
  \<open>n\<close> elements are written, the rest of the array keeps its old contents.
\<close>

definition go_copy :: "nat \<Rightarrow> 'a list \<Rightarrow> 'a list \<Rightarrow> 'a list" where
  "go_copy n a src = take n src @ drop (min n (length src)) a"

text \<open>Writing \<open>src\<close> at index \<open>i\<close> of an array that is long enough.\<close>

definition write_at :: "'a list \<Rightarrow> nat \<Rightarrow> 'a list \<Rightarrow> 'a list" where
  "write_at a i src = take i a @ src @ drop (i + length src) a"

lemma length_go_copy [simp, len_simps]:
  "n \<le> length a \<Longrightarrow> length (go_copy n a src) = length a"
  by (simp add: go_copy_def)

lemma take_go_copy [simp]:
  "length src \<le> n \<Longrightarrow> n \<le> length a \<Longrightarrow> take (length src) (go_copy n a src) = src"
  by (simp add: go_copy_def)

lemma length_write_at [simp, len_simps]:
  "i + length src \<le> length a \<Longrightarrow> length (write_at a i src) = length a"
  by (simp add: write_at_def)

lemma take_write_at [simp]:
  "i + length src \<le> length a \<Longrightarrow> take (i + length src) (write_at a i src) = take i a @ src"
  by (simp add: write_at_def)

lemma take_drop_append_write:
  "off \<le> i \<Longrightarrow> i + length src \<le> length a \<Longrightarrow>
   drop off (take (i + length src) (write_at a i src)) = drop off (take i a) @ src"
  by simp

section \<open>Words\<close>

lemma unat_byte_less: "unat (x :: byte) < 256"
  using unsigned_less [of x] by simp

end
