(* ===== verification/Byte_Pool.thy ===== *)
theory Byte_Pool
  imports Strike_Prelude
begin

text \<open>
  The pool of byte arrays of \<open>pkg/buffer/bytebufferpool.go\<close>: ten slabs of arrays whose sizes
  are powers of two, from which \<open>GetBytes\<close> takes an array for a requested size and to which
  \<open>PutBytes\<close> gives it back.

  An array is the list of its bytes, so its length is the capacity of the slices that view
  it from index 0. A slab's \<open>sync.Pool\<close> is the list of the arrays it holds. \<open>sync.Pool\<close> may
  forget arrays at any time; the theorems quantify over all pool contents, so they cover a
  pool that has lost some. The contents of a recycled array are whatever its last user left.
\<close>

section \<open>State\<close>

record bufferSlot =
  defaultSize :: nat
  slotPool :: "bytes list"

record byteBufferPool =
  minShift :: nat
  minSize :: nat
  maxSize :: nat
  slots :: "bufferSlot list"

definition pkg_minShift :: nat where "pkg_minShift = 6"
definition pkg_maxShift :: nat where "pkg_maxShift = 15"

definition newByteBufferPool :: byteBufferPool where
  "newByteBufferPool =
     \<lparr> minShift = pkg_minShift,
       minSize = 2 ^ pkg_minShift,
       maxSize = 2 ^ pkg_maxShift,
       slots = map (\<lambda>i. \<lparr> defaultSize = 2 ^ (i + pkg_minShift), slotPool = [] \<rparr>)
                   [0 ..< Suc (pkg_maxShift - pkg_minShift)] \<rparr>"

section \<open>Operations\<close>

text \<open>The loop of \<open>slot\<close>: halve the size and count until it is zero.\<close>

fun slot_loop :: "nat \<Rightarrow> nat \<Rightarrow> nat" where
  "slot_loop sz shift = (if sz > 0 then slot_loop (sz div 2) (Suc shift) else shift)"

declare slot_loop.simps [simp del]

text \<open>\<open>None\<close> is \<open>errSlot\<close>.\<close>

definition slot :: "byteBufferPool \<Rightarrow> nat \<Rightarrow> nat option" where
  "slot p sz =
     (if sz > maxSize p \<or> sz \<le> minSize p then None
      else Some (if sz > minSize p then slot_loop (sz - 1) 0 - minShift p else 0))"

definition newBytes :: "nat \<Rightarrow> bytes" where
  "newBytes sz = replicate sz 0"

text \<open>
  \<open>pool_take\<close> is the method \<open>take\<close>: the pool afterwards and the array behind the slice it returns,
  whose length is \<open>sz\<close>.
\<close>

definition pool_take :: "byteBufferPool \<Rightarrow> nat \<Rightarrow> byteBufferPool \<times> bytes" where
  "pool_take p sz =
     (case slot p sz of
        None \<Rightarrow> (p, newBytes sz)
      | Some i \<Rightarrow>
          (case slotPool (slots p ! i) of
             [] \<Rightarrow> (p, newBytes (defaultSize (slots p ! i)))
           | v # vs \<Rightarrow> (p\<lparr>slots := (slots p)[i := (slots p ! i)\<lparr>slotPool := vs\<rparr>]\<rparr>, v)))"

text \<open>\<open>pool_give\<close> is the method \<open>give\<close>; a nil pointer is \<open>None\<close>.\<close>

definition pool_give :: "byteBufferPool \<Rightarrow> bytes option \<Rightarrow> byteBufferPool" where
  "pool_give p buf =
     (case buf of
        None \<Rightarrow> p
      | Some a \<Rightarrow>
          (case slot p (length a) of
             None \<Rightarrow> p
           | Some i \<Rightarrow>
               if length a \<noteq> defaultSize (slots p ! i) then p
               else p\<lparr>slots := (slots p)[i := (slots p ! i)\<lparr>slotPool := a # slotPool (slots p ! i)\<rparr>]\<rparr>))"

definition GetBytes :: "byteBufferPool \<Rightarrow> nat \<Rightarrow> byteBufferPool \<times> bytes" where
  "GetBytes p sz = pool_take p sz"

definition PutBytes :: "byteBufferPool \<Rightarrow> bytes option \<Rightarrow> byteBufferPool" where
  "PutBytes p buf = pool_give p buf"

section \<open>Invariant\<close>

text \<open>
  The shape the package's only constructor gives the pool, with every array in a slab of that
  slab's size.
\<close>

definition pool_inv :: "byteBufferPool \<Rightarrow> bool" where
  "pool_inv p \<longleftrightarrow>
     minShift p = 6 \<and> minSize p = 64 \<and> maxSize p = 32768 \<and> length (slots p) = 10 \<and>
     (\<forall>i < 10. defaultSize (slots p ! i) = 2 ^ (i + 6) \<and>
               (\<forall>a \<in> set (slotPool (slots p ! i)). length a = 2 ^ (i + 6)))"

lemma pool_inv_new: "pool_inv newByteBufferPool"
  by (simp add: pool_inv_def newByteBufferPool_def pkg_minShift_def pkg_maxShift_def del: upt_Suc)

text \<open>The loop of \<open>slot\<close> counts the binary digits of its argument.\<close>

lemma slot_loop_add: "slot_loop n (k + s) = slot_loop n s + k"
proof (induction n s rule: slot_loop.induct)
  case (1 n s)
  then show ?case
    by (cases "n > 0") (simp_all add: slot_loop.simps [of n] slot_loop.simps [of 0])
qed

lemma slot_loop_Suc: "slot_loop n (Suc 0) = Suc (slot_loop n 0)"
  using slot_loop_add [of n 1 0] by simp

lemma slot_loop_bounds: "0 < n \<Longrightarrow> 2 ^ (slot_loop n 0 - 1) \<le> n \<and> n < 2 ^ slot_loop n 0 \<and> 0 < slot_loop n 0"
proof (induction n rule: less_induct)
  case (less n)
  have eq: "slot_loop n 0 = Suc (slot_loop (n div 2) 0)"
    using less.prems by (simp add: slot_loop.simps [of n] slot_loop_Suc)
  show ?case
  proof (cases "n = 1")
    case True
    then show ?thesis by (simp add: slot_loop.simps)
  next
    case False
    with less.prems have "0 < n div 2" "n div 2 < n" by auto
    with less.IH have IH: "2 ^ (slot_loop (n div 2) 0 - 1) \<le> n div 2" "n div 2 < 2 ^ slot_loop (n div 2) 0"
      "0 < slot_loop (n div 2) 0" by auto
    then obtain k where k: "slot_loop (n div 2) 0 = Suc k" by (cases "slot_loop (n div 2) 0") auto
    with IH have "2 ^ k \<le> n div 2" "n div 2 < 2 * 2 ^ k" by auto
    then show ?thesis by (simp add: eq k) linarith
  qed
qed

lemma slot_Some:
  assumes inv: "pool_inv p" and s: "slot p sz = Some i"
  shows "1 \<le> i" and "i < 10" and "sz \<le> 2 ^ (i + 6)" and "2 ^ (i + 6) < 2 * sz" and "64 < sz"
proof -
  from inv s have sz: "64 < sz" "sz \<le> 32768" and i: "i = slot_loop (sz - 1) 0 - 6"
    by (auto simp: slot_def pool_inv_def split: if_splits)
  define k where "k = slot_loop (sz - 1) 0"
  from sz slot_loop_bounds [of "sz - 1"]
  have k: "2 ^ (k - 1) \<le> sz - 1" "sz - 1 < 2 ^ k" "0 < k" by (auto simp: k_def)
  have "7 \<le> k"
  proof (rule ccontr)
    assume "\<not> 7 \<le> k"
    then have "(2::nat) ^ k \<le> 2 ^ 6" by (intro power_increasing) auto
    with k sz show False by simp
  qed
  have "k - 1 < 15"
  proof (rule ccontr)
    assume "\<not> k - 1 < 15"
    then have "(2::nat) ^ 15 \<le> 2 ^ (k - 1)" by (intro power_increasing) auto
    with k sz show False by simp
  qed
  from \<open>7 \<le> k\<close> i have ik: "i + 6 = k" by (simp add: k_def)
  have two: "(2::nat) ^ k = 2 * 2 ^ (k - 1)" using \<open>0 < k\<close> by (cases k) auto
  show "1 \<le> i" "i < 10" using \<open>7 \<le> k\<close> \<open>k - 1 < 15\<close> ik by auto
  show "sz \<le> 2 ^ (i + 6)" using k sz ik by simp
  show "2 ^ (i + 6) < 2 * sz" unfolding ik two using k(1) sz by linarith
  show "64 < sz" by (fact sz(1))
qed

lemma pool_take_spec:
  assumes inv: "pool_inv p" and t: "pool_take p sz = (p', a)"
  shows "pool_inv p'" and "sz \<le> length a" and "length a \<le> 2 * sz"
proof -
  have "pool_inv p' \<and> sz \<le> length a \<and> length a \<le> 2 * sz"
  proof (cases "slot p sz")
    case None
    with t inv show ?thesis by (auto simp: pool_take_def newBytes_def)
  next
    case (Some i)
    note b = slot_Some [OF inv Some]
    show ?thesis
    proof (cases "slotPool (slots p ! i)")
      case Nil
      have "defaultSize (slots p ! i) = 2 ^ (i + 6)"
        using inv b(2) by (simp add: pool_inv_def)
      with Nil Some t b inv show ?thesis by (simp add: pool_take_def newBytes_def) auto
    next
      case (Cons v vs)
      with Some t have p': "p' = p\<lparr>slots := (slots p)[i := (slots p ! i)\<lparr>slotPool := vs\<rparr>]\<rparr>" and a: "a = v"
        by (auto simp: pool_take_def)
      from inv b(2) Cons have "length v = 2 ^ (i + 6)" by (simp add: pool_inv_def)
      moreover have "pool_inv p'"
        using inv b(2) Cons by (auto simp: p' pool_inv_def nth_list_update)
      ultimately show ?thesis using b a by simp
    qed
  qed
  then show "pool_inv p'" "sz \<le> length a" "length a \<le> 2 * sz" by auto
qed

lemma pool_give_inv:
  assumes inv: "pool_inv p"
  shows "pool_inv (pool_give p buf)"
proof (cases buf)
  case None
  with inv show ?thesis by (simp add: pool_give_def)
next
  case (Some a)
  show ?thesis
  proof (cases "slot p (length a)")
    case None
    with Some inv show ?thesis by (simp add: pool_give_def)
  next
    case (Some i)
    have "i < 10" using slot_Some [OF inv Some] by simp
    with inv Some \<open>buf = Some a\<close> show ?thesis
      by (auto simp: pool_give_def pool_inv_def nth_list_update)
  qed
qed

text \<open>The facts about the pool that its clients use.\<close>

lemma GetBytes_spec:
  assumes "pool_inv p" and "GetBytes p sz = (p', a)"
  shows "pool_inv p'" and "sz \<le> length a"
  using pool_take_spec [OF assms(1)] assms(2) by (auto simp: GetBytes_def)

lemma PutBytes_inv [simp]: "pool_inv p \<Longrightarrow> pool_inv (PutBytes p buf)"
  by (simp add: PutBytes_def pool_give_inv)

end
