(* ===== verification/Io_Buffer.thy ===== *)
theory Io_Buffer
  imports Byte_Pool
begin

text \<open>
  The byte buffer of \<open>pkg/buffer/iobuffer.go\<close> and its pool, \<open>pkg/buffer/iobufferpool.go\<close>.

  A buffer is a slice \<open>buf\<close> over a backing array, a read offset \<open>off\<close>, a mark \<open>offMark\<close> to which
  \<open>Restore\<close> goes back, a reference count and an end-of-file flag. The model keeps the backing
  array (\<open>arr\<close>, its length is the capacity), the length \<open>blen\<close> of the slice, whether the slice is
  nil, and whether the array came from the byte pool (the field \<open>b\<close> of the source, which is
  either nil or points to the slice over the same array). Operations that allocate thread the
  byte pool. A slice expression with its bounds out of order is a panic. Lengths and capacities are natural numbers: they count
  bytes in memory, so the sums the code forms of them stay far below the range of \<open>int\<close>. The panic \<open>ErrTooLarge\<close> that the
  comments of the interface announce is declared in the source but raised nowhere.

  The abstraction is \<open>unread\<close>, the bytes between \<open>off\<close> and the length. The section on the
  abstract queue states what the operations do to it and the locale \<open>byte_sink\<close> the contract the
  encoders rely on.
\<close>

section \<open>State\<close>

record ioBuffer =
  arr :: bytes
  blen :: nat
  isnil :: bool
  off :: nat
  offMark :: int
  refs :: "32 word"
  eof :: bool
  pooled :: bool

definition MinRead :: nat where "MinRead = 2 ^ 9"
definition MaxRead :: nat where "MaxRead = 2 ^ 17"
definition ResetOffMark :: int where "ResetOffMark = - 1"
definition DefaultSize :: nat where "DefaultSize = 2 ^ 4"

abbreviation bcap :: "ioBuffer \<Rightarrow> nat" where
  "bcap b \<equiv> length (arr b)"

text \<open>The slice \<open>b.buf[b.off:]\<close>.\<close>

definition unread :: "ioBuffer \<Rightarrow> bytes" where
  "unread b = drop (off b) (take (blen b) (arr b))"

section \<open>Operations without allocation\<close>

definition Len :: "ioBuffer \<Rightarrow> int" where
  "Len b = int (blen b) - int (off b)"

definition Cap :: "ioBuffer \<Rightarrow> nat" where
  "Cap b = bcap b"

definition Reset :: "ioBuffer \<Rightarrow> ioBuffer" where
  "Reset b = b\<lparr>blen := 0, off := 0, offMark := ResetOffMark, eof := False\<rparr>"

text \<open>
  \<open>Read(p)\<close> with \<open>n = len(p)\<close>: the bytes copied into \<open>p\<close> (their number is the result \<open>n\<close>) and the
  error, and the buffer afterwards.
\<close>

definition Read :: "nat \<Rightarrow> ioBuffer \<Rightarrow> (bytes \<times> go_error option) \<times> ioBuffer" where
  "Read n b =
     (if off b \<ge> blen b then
        (if n = 0 then (([], None), Reset b) else (([], Some IoEOF), Reset b))
      else
        (let d = take n (unread b) in ((d, None), b\<lparr>off := off b + length d\<rparr>)))"

definition ReadByte :: "ioBuffer \<Rightarrow> (go_error + byte) \<times> ioBuffer" where
  "ReadByte b =
     (if off b \<ge> blen b then (Inl IoEOF, Reset b)
      else (Inr (arr b ! off b), b\<lparr>off := off b + 1\<rparr>))"

definition Peek :: "nat \<Rightarrow> ioBuffer \<Rightarrow> bytes option" where
  "Peek n b = (if Len b < int n then None else Some (take n (unread b)))"

definition Mark :: "ioBuffer \<Rightarrow> ioBuffer" where
  "Mark b = b\<lparr>offMark := int (off b)\<rparr>"

definition Restore :: "ioBuffer \<Rightarrow> ioBuffer" where
  "Restore b =
     (if offMark b \<noteq> ResetOffMark then b\<lparr>off := nat (offMark b), offMark := ResetOffMark\<rparr> else b)"

definition Bytes :: "ioBuffer \<Rightarrow> bytes go" where
  "Bytes b = (if off b > blen b then Inl (PanicRuntime SliceBounds) else Inr (unread b))"

text \<open>
  The buffer \<open>Cut\<close> returns is built by a composite literal that sets \<open>buf\<close> and \<open>off\<close> only: its mark and
  its reference count are zero.
\<close>

definition Cut :: "nat \<Rightarrow> ioBuffer \<Rightarrow> ioBuffer option \<times> ioBuffer" where
  "Cut n b =
     (if off b + n > blen b then (None, b)
      else (Some \<lparr>arr = take n (unread b), blen = n, isnil = False, off = 0, offMark = 0,
                  refs = 0, eof = False, pooled = False\<rparr>,
            b\<lparr>off := off b + n, offMark := ResetOffMark\<rparr>))"

definition Drain :: "nat \<Rightarrow> ioBuffer \<Rightarrow> ioBuffer" where
  "Drain n b =
     (if off b + n > blen b then b else b\<lparr>off := off b + n, offMark := ResetOffMark\<rparr>)"

definition Count :: "32 word \<Rightarrow> ioBuffer \<Rightarrow> 32 word \<times> ioBuffer" where
  "Count c b = (refs b + c, b\<lparr>refs := refs b + c\<rparr>)"

definition EOF :: "ioBuffer \<Rightarrow> bool" where
  "EOF b = eof b"

definition SetEOF :: "bool \<Rightarrow> ioBuffer \<Rightarrow> ioBuffer" where
  "SetEOF e b = b\<lparr>eof := e\<rparr>"

section \<open>Growing and writing\<close>

text \<open>A buffer together with the byte pool.\<close>

type_synonym wbuf = "byteBufferPool \<times> ioBuffer"

text \<open>The array the field \<open>b\<close> points to.\<close>

definition slice_ptr :: "ioBuffer \<Rightarrow> bytes option" where
  "slice_ptr b = (if pooled b then Some (arr b) else None)"

text \<open>
  The method \<open>copy\<close>: move the unread bytes to the front, of a new and larger array when
  \<open>expand > 0\<close>, of \<open>2*cap(b.buf) + expand\<close> bytes.
\<close>

definition ib_copy :: "nat \<Rightarrow> wbuf \<Rightarrow> wbuf go" where
  "ib_copy expand w = (case w of (p, b) \<Rightarrow>
     if off b > blen b then Inl (PanicRuntime SliceBounds)
     else if expand > 0 then
       (let n = 2 * bcap b + expand;
            (p1, newBuf) = GetBytes p n;
            p2 = PutBytes p1 (slice_ptr b)
        in Inr (p2, b\<lparr>arr := go_copy n newBuf (unread b), blen := blen b - off b, isnil := False,
                      off := 0, pooled := True\<rparr>))
     else
       Inr (p, b\<lparr>arr := go_copy (blen b) (arr b) (unread b), blen := blen b - off b, off := 0\<rparr>))"

definition tryGrowByReslice :: "nat \<Rightarrow> ioBuffer \<Rightarrow> (nat \<times> ioBuffer) option" where
  "tryGrowByReslice n b =
     (if blen b + n \<le> bcap b then Some (blen b, b\<lparr>blen := blen b + n\<rparr>) else None)"

text \<open>The end of \<open>grow\<close>: \<open>b.off = 0\<close> and \<open>b.buf = b.buf[:m+n]\<close>.\<close>

definition grow_reslice :: "int \<Rightarrow> nat \<Rightarrow> wbuf \<Rightarrow> (nat \<times> wbuf) go" where
  "grow_reslice m n w = (case w of (p, b) \<Rightarrow>
     if 0 \<le> m + int n \<and> m + int n \<le> int (bcap b) then
       Inr (nat m, (p, b\<lparr>off := 0, blen := nat (m + int n)\<rparr>))
     else Inl (PanicRuntime SliceBounds))"

definition grow :: "nat \<Rightarrow> wbuf \<Rightarrow> (nat \<times> wbuf) go" where
  "grow n w = (case w of (p, b0) \<Rightarrow>
     let m = Len b0;
         b = (if m = 0 \<and> off b0 \<noteq> 0 then Reset b0 else b0)
     in case tryGrowByReslice n b of
          Some (i, b') \<Rightarrow> Inr (i, (p, b'))
        | None \<Rightarrow>
            (case ib_copy (if m + int n \<le> int (bcap b div 2) then 0 else n) (p, b) of
               Inl e \<Rightarrow> Inl e
             | Inr w' \<Rightarrow> grow_reslice m n w'))"

definition reserve :: "nat \<Rightarrow> wbuf \<Rightarrow> (nat \<times> wbuf) go" where
  "reserve n w = (case w of (p, b) \<Rightarrow>
     case tryGrowByReslice n b of
       Some (m, b') \<Rightarrow> Inr (m, (p, b'))
     | None \<Rightarrow> grow n (p, b))"

text \<open>
  \<open>Write\<close> returns \<open>copy(b.buf[m:], p)\<close>, the number of bytes copied: at most the room between \<open>m\<close>
  and the length.
\<close>

definition Write :: "bytes \<Rightarrow> wbuf \<Rightarrow> (nat \<times> wbuf) go" where
  "Write d w =
     (case reserve (length d) w of
        Inl e \<Rightarrow> Inl e
      | Inr (m, (p, b)) \<Rightarrow>
          if m > blen b then Inl (PanicRuntime SliceBounds)
          else let k = min (blen b - m) (length d)
               in Inr (k, (p, b\<lparr>arr := write_at (arr b) m (take k d)\<rparr>)))"

definition WriteByte :: "byte \<Rightarrow> wbuf \<Rightarrow> wbuf go" where
  "WriteByte x w =
     (case reserve 1 w of
        Inl e \<Rightarrow> Inl e
      | Inr (m, (p, b)) \<Rightarrow>
          if m \<ge> blen b then Inl (PanicRuntime SliceBounds)
          else Inr (p, b\<lparr>arr := (arr b)[m := x]\<rparr>))"

text \<open>The part of \<open>Append\<close>, \<open>ReadFrom\<close> and \<open>ReadOnce\<close> that makes room for \<open>n\<close> bytes at the end.\<close>

definition makeRoom :: "nat \<Rightarrow> wbuf \<Rightarrow> wbuf go" where
  "makeRoom n w = (case w of (p, b) \<Rightarrow>
     if bcap b - blen b < n then
       (if off b + (bcap b - blen b) < n then ib_copy n (p, b) else ib_copy 0 (p, b))
     else Inr (p, b))"

definition Append :: "bytes \<Rightarrow> wbuf \<Rightarrow> wbuf go" where
  "Append d w = (case w of (p, b0) \<Rightarrow>
     let b = (if off b0 \<ge> blen b0 then Reset b0 else b0)
     in case makeRoom (length d) (p, b) of
          Inl e \<Rightarrow> Inl e
        | Inr (p', b') \<Rightarrow>
            if blen b' + length d > bcap b' then Inl (PanicRuntime SliceBounds)
            else Inr (p', b'\<lparr>arr := write_at (arr b') (blen b') d, blen := blen b' + length d\<rparr>))"

definition AppendByte :: "byte \<Rightarrow> wbuf \<Rightarrow> wbuf go" where
  "AppendByte x w = Append [x] w"

section \<open>Allocation and pooling\<close>

text \<open>\<open>nullByte\<close> is the nil slice.\<close>

definition giveSlice :: "wbuf \<Rightarrow> wbuf" where
  "giveSlice w = (case w of (p, b) \<Rightarrow>
     if pooled b then
       (PutBytes p (slice_ptr b), b\<lparr>pooled := False, arr := [], blen := 0, isnil := True\<rparr>)
     else (p, b))"

definition Free :: "wbuf \<Rightarrow> wbuf" where
  "Free w = (case w of (p, b) \<Rightarrow> giveSlice (p, Reset b))"

definition Alloc :: "nat \<Rightarrow> wbuf \<Rightarrow> wbuf" where
  "Alloc n w =
     (let (p, b) = (if isnil (snd w) then w else Free w);
          n' = (if n = 0 then DefaultSize else n);
          (p', a) = GetBytes p n'
      in (p', b\<lparr>pooled := True, arr := a, blen := 0, isnil := False\<rparr>))"

definition NewIoBuffer :: "nat \<Rightarrow> byteBufferPool \<Rightarrow> wbuf" where
  "NewIoBuffer n p =
     (let (p', a) = GetBytes p (if n = 0 then DefaultSize else n)
      in (p', \<lparr>arr = a, blen = 0, isnil = False, off = 0, offMark = ResetOffMark, refs = 1,
               eof = False, pooled = True\<rparr>))"

text \<open>
  The conversion \<open>[]byte(s)\<close> may round the capacity up; \<open>extra\<close> is the number of zero bytes the
  run-time system adds behind the string.
\<close>

definition NewIoBufferString :: "nat \<Rightarrow> bytes \<Rightarrow> byteBufferPool \<Rightarrow> wbuf" where
  "NewIoBufferString extra s p =
     (if s = [] then NewIoBuffer 0 p
      else (p, \<lparr>arr = s @ replicate extra 0, blen = length s, isnil = False, off = 0, offMark = ResetOffMark,
                refs = 1, eof = False, pooled = False\<rparr>))"

text \<open>
  \<open>NewIoBufferBytes\<close> views the caller's slice; \<open>None\<close> is a nil slice, and \<open>spare\<close> is what the caller's
  array holds beyond the length of the slice.
\<close>

definition NewIoBufferBytes :: "(bytes \<times> bytes) option \<Rightarrow> byteBufferPool \<Rightarrow> wbuf" where
  "NewIoBufferBytes bs p =
     (case bs of
        None \<Rightarrow> NewIoBuffer 0 p
      | Some (s, spare) \<Rightarrow>
          (p, \<lparr>arr = s @ spare, blen = length s, isnil = False, off = 0, offMark = ResetOffMark,
               refs = 1, eof = False, pooled = False\<rparr>))"

definition NewIoBufferEOF :: "byteBufferPool \<Rightarrow> wbuf" where
  "NewIoBufferEOF p = (case NewIoBuffer 0 p of (p', b) \<Rightarrow> (p', SetEOF True b))"

text \<open>
  The pool of buffers holds pointers: a buffer that was given back and the pointers its former owners still have are the
  same object. So the buffers are in a store, by address, and the pool is a list of addresses. \<open>next_addr\<close> is the first
  address that no buffer has. \<open>sync.Pool\<close> promises only that \<open>Get\<close> returns nil or takes an object that was put: \<open>pick\<close> is its
  choice, nil for \<open>None\<close>.
\<close>

record pools =
  bbPool :: byteBufferPool
  ibPool :: "nat list"
  store :: "nat \<Rightarrow> ioBuffer"
  next_addr :: nat

definition pool_get :: "nat option \<Rightarrow> 'a list \<Rightarrow> ('a \<times> 'a list) option" where
  "pool_get pick xs =
     (case pick of
        None \<Rightarrow> None
      | Some i \<Rightarrow> if i < length xs then Some (xs ! i, take i xs @ drop (Suc i) xs) else None)"

definition GetIoBuffer :: "nat option \<Rightarrow> nat \<Rightarrow> pools \<Rightarrow> nat \<times> pools" where
  "GetIoBuffer pick n ps =
     (case pool_get pick (ibPool ps) of
        None \<Rightarrow>
          (case NewIoBuffer n (bbPool ps) of
             (p, b) \<Rightarrow> (next_addr ps, ps\<lparr>bbPool := p, store := (store ps)(next_addr ps := b), next_addr := Suc (next_addr ps)\<rparr>))
      | Some (v, vs) \<Rightarrow>
          (case Alloc n (bbPool ps, store ps v) of
             (p, b) \<Rightarrow> (v, ps\<lparr>bbPool := p, ibPool := vs, store := (store ps)(v := snd (Count 1 b))\<rparr>)))"

definition ibPool_give :: "nat \<Rightarrow> pools \<Rightarrow> pools" where
  "ibPool_give a ps =
     (case Free (bbPool ps, store ps a) of
        (p, b) \<Rightarrow> ps\<lparr>bbPool := p, ibPool := a # ibPool ps, store := (store ps)(a := b)\<rparr>)"

definition PutIoBuffer :: "nat \<Rightarrow> pools \<Rightarrow> go_error option \<times> pools" where
  "PutIoBuffer a ps =
     (let (c, b) = Count (- 1) (store ps a);
          ps' = ps\<lparr>store := (store ps)(a := b)\<rparr>
      in if sint c > 0 then (None, ps')
         else if sint c < 0 then (Some (GoErr ''PutIoBuffer duplicate''), ps')
         else (None, ibPool_give a ps'))"

definition Clone :: "nat option \<Rightarrow> nat \<Rightarrow> pools \<Rightarrow> (nat \<times> pools) go" where
  "Clone pick a ps =
     (case GetIoBuffer pick (nat (Len (store ps a))) ps of (c, ps1) \<Rightarrow>
        case Bytes (store ps1 a) of
          Inl e \<Rightarrow> Inl e
        | Inr d \<Rightarrow>
            (case Write d (bbPool ps1, store ps1 c) of
               Inl e \<Rightarrow> Inl e
             | Inr (_, (p, b)) \<Rightarrow>
                 let ps2 = ps1\<lparr>bbPool := p, store := (store ps1)(c := b)\<rparr>
                 in Inr (c, ps2\<lparr>store := (store ps2)(c := SetEOF (EOF (store ps2 a)) (store ps2 c))\<rparr>)))"

section \<open>Reading from and writing to connections\<close>

text \<open>
  An \<open>io.Reader\<close> is the list of the answers it will give: some bytes and an error. A read into less
  room than an answer has takes what fits and leaves the rest for the next read. After the last
  answer a reader is at end of file.
\<close>

type_synonym reader = "(bytes \<times> go_error option) list"

fun reader_read :: "nat \<Rightarrow> reader \<Rightarrow> bytes \<times> go_error option \<times> reader" where
  "reader_read n [] = ([], Some IoEOF, [])"
| "reader_read n ((d, e) # rs) =
     (if length d \<le> n then (d, e, rs) else (take n d, None, (drop n d, e) # rs))"

definition reader_size :: "reader \<Rightarrow> nat" where
  "reader_size r = sum_list (map (\<lambda>x. Suc (length (fst x))) r)"

text \<open>\<open>r.Read(b.buf[len(b.buf):cap(b.buf)])\<close> followed by \<open>b.buf = b.buf[0:len(b.buf)+m]\<close>.\<close>

definition fill :: "bytes \<Rightarrow> ioBuffer \<Rightarrow> ioBuffer" where
  "fill d b = b\<lparr>arr := write_at (arr b) (blen b) d, blen := blen b + length d\<rparr>"

text \<open>
  The loop of \<open>ReadFrom\<close>: \<open>n\<close> counts the bytes read. It runs as long as the reader returns bytes.
\<close>

lemma reader_read_decreases:
  "reader_read l r = (d, e, r') \<Longrightarrow> d \<noteq> [] \<Longrightarrow> reader_size r' < reader_size r"
  by (cases "(l, r)" rule: reader_read.cases) (auto simp: reader_size_def split: if_splits)

function readFrom_loop :: "wbuf \<Rightarrow> reader \<Rightarrow> nat \<Rightarrow> (nat \<times> go_error option \<times> reader \<times> wbuf) go" where
  "readFrom_loop w r n =
     (case makeRoom MinRead w of
        Inl e \<Rightarrow> Inl e
      | Inr (p, b) \<Rightarrow>
          (case reader_read (bcap b - blen b) r of (d, e, r') \<Rightarrow>
             let w' = (p, fill d b) in
             if e = Some IoEOF then Inr (n + length d, None, r', w')
             else if d = [] then Inr (n + length d, None, r', w')
             else if e \<noteq> None then Inr (n + length d, e, r', w')
             else readFrom_loop w' r' (n + length d)))"
  by pat_completeness auto
termination
  by (relation "measure (\<lambda>(w, r, n). reader_size r)") (auto intro: reader_read_decreases [OF sym])

declare readFrom_loop.simps [simp del]

definition ReadFrom :: "wbuf \<Rightarrow> reader \<Rightarrow> (nat \<times> go_error option \<times> reader \<times> wbuf) go" where
  "ReadFrom w r = (case w of (p, b) \<Rightarrow>
     readFrom_loop (p, if off b \<ge> blen b then Reset b else b) r 0)"

text \<open>
  The loop of \<open>ReadOnce\<close>. Here the reader is any \<open>io.Reader\<close>, also one that never ends: \<open>rd n r\<close> is what its \<open>Read\<close> returns for
  a slice of \<open>n\<close> bytes in its state \<open>r\<close>, the bytes, the error and the next state. \<open>conn\<close> says whether the reader is a
  connection (only then the loop may run again); \<open>first\<close> and \<open>n\<close> are the source's variables. On an error the source tests the
  type of \<open>err\<close>, the named result, which is nil there, and not of \<open>e\<close>: the branch that returns \<open>n, nil\<close> on a time-out is
  never taken. Deadlines do not change the buffer.
\<close>

partial_function (option) readOnce_loop ::
  "(nat \<Rightarrow> 'r \<Rightarrow> bytes \<times> go_error option \<times> 'r) \<Rightarrow> bool \<Rightarrow> bool \<Rightarrow> wbuf \<Rightarrow> 'r \<Rightarrow> nat \<Rightarrow>
     (nat \<times> go_error option \<times> 'r \<times> wbuf) go option" where
  "readOnce_loop rd conn first w r n =
     (case (if first then Inr w else makeRoom MinRead w) of
        Inl e \<Rightarrow> Some (Inl e)
      | Inr (p, b) \<Rightarrow>
          (case rd (bcap b - blen b) r of (d, e, r') \<Rightarrow>
             let w' = (p, fill d b); n' = n + length d in
             if e \<noteq> None then Some (Inr (n', e, r', w'))
             else if \<not> conn \<or> bcap b - blen b \<noteq> length d \<or> n' > MaxRead
             then Some (Inr (n', None, r', w'))
             else readOnce_loop rd conn False w' r' n'))"

definition ReadOnce ::
  "(nat \<Rightarrow> 'r \<Rightarrow> bytes \<times> go_error option \<times> 'r) \<Rightarrow> bool \<Rightarrow> wbuf \<Rightarrow> 'r \<Rightarrow> (nat \<times> go_error option \<times> 'r \<times> wbuf) go option" where
  "ReadOnce rd conn w r = (case w of (p, b0) \<Rightarrow>
     let b = (if off b0 \<ge> blen b0 then Reset b0 else b0) in
     case (if off b > 0 \<and> Len b < 4 * int MinRead then ib_copy 0 (p, b) else Inr (p, b)) of
       Inl e \<Rightarrow> Some (Inl e)
     | Inr w' \<Rightarrow> readOnce_loop rd conn True w' r 0)"

text \<open>
  An \<open>io.Writer\<close> is the list of its answers: how many bytes it accepts and an error. A writer with
  no answer left accepts everything. The result is the bytes written, the error and the buffer;
  a writer that claims more bytes than it was handed is the panic \<open>ErrInvalidWriteCount\<close>.
\<close>

type_synonym writer = "(nat \<times> go_error option) list"

fun writer_next :: "nat \<Rightarrow> writer \<Rightarrow> (nat \<times> go_error option) \<times> writer" where
  "writer_next n [] = ((n, None), [])"
| "writer_next n (a # ws) = (a, ws)"

function writeTo_loop :: "ioBuffer \<Rightarrow> writer \<Rightarrow> bytes \<Rightarrow> (bytes \<times> go_error option \<times> writer \<times> ioBuffer) go" where
  "writeTo_loop b ws sent =
     (if off b < blen b then
        (case writer_next (blen b - off b) ws of ((m, e), ws') \<Rightarrow>
           if m > blen b - off b then Inl (PanicErr (GoErr ''io buffer: invalid write count''))
           else let b' = b\<lparr>off := off b + m\<rparr>; sent' = sent @ take m (unread b) in
                if e \<noteq> None then Inr (sent', e, ws', b')
                else if m = 0 \<or> m = blen b - off b then Inr (sent', None, ws', b')
                else writeTo_loop b' ws' sent')
      else Inr (sent, None, ws, b))"
  by pat_completeness auto
termination
  by (relation "measure (\<lambda>(b, ws, sent). blen b - off b)") auto

declare writeTo_loop.simps [simp del]

definition WriteTo :: "ioBuffer \<Rightarrow> writer \<Rightarrow> (bytes \<times> go_error option \<times> writer \<times> ioBuffer) go" where
  "WriteTo b ws = writeTo_loop b ws []"

section \<open>Invariant\<close>

text \<open>
  A buffer is well formed when \<open>off \<le> len(buf) \<le> cap(buf)\<close> and a nil slice has no array. \<open>marked\<close> says
  that a restore would go back to a place inside the unread region's past: the mark, if set, is not
  beyond the read offset.
\<close>

definition io_inv :: "ioBuffer \<Rightarrow> bool" where
  "io_inv b \<longleftrightarrow> off b \<le> blen b \<and> blen b \<le> bcap b \<and> (isnil b \<longrightarrow> arr b = [] \<and> \<not> pooled b)"

definition marked :: "ioBuffer \<Rightarrow> bool" where
  "marked b \<longleftrightarrow> offMark b = ResetOffMark \<or> (0 \<le> offMark b \<and> offMark b \<le> int (off b))"

definition wb_inv :: "wbuf \<Rightarrow> bool" where
  "wb_inv w \<longleftrightarrow> pool_inv (fst w) \<and> io_inv (snd w)"

abbreviation content :: "wbuf \<Rightarrow> bytes" where
  "content w \<equiv> unread (snd w)"

lemma wb_invI [intro]: "pool_inv p \<Longrightarrow> io_inv b \<Longrightarrow> wb_inv (p, b)"
  by (simp add: wb_inv_def)

lemma wb_invD: "wb_inv (p, b) \<Longrightarrow> pool_inv p \<and> io_inv b"
  by (simp add: wb_inv_def)

lemma length_unread [simp, len_simps]: "io_inv b \<Longrightarrow> length (unread b) = blen b - off b"
  by (auto simp: unread_def io_inv_def)

lemma Len_unread: "io_inv b \<Longrightarrow> Len b = int (length (unread b))"
  by (auto simp: Len_def io_inv_def unread_def)

lemma io_inv_Reset [simp]: "io_inv b \<Longrightarrow> io_inv (Reset b)"
  by (simp add: io_inv_def Reset_def)

lemma unread_Reset [simp]: "unread (Reset b) = []"
  by (simp add: unread_def Reset_def)

lemma unread_empty_iff: "io_inv b \<Longrightarrow> unread b = [] \<longleftrightarrow> off b \<ge> blen b"
  by (auto simp: unread_def io_inv_def)

lemma io_inv_advance: "io_inv b \<Longrightarrow> n \<le> length (unread b) \<Longrightarrow> io_inv (b\<lparr>off := off b + n\<rparr>)"
  by (auto simp: io_inv_def unread_def)

lemma unread_advance [simp]: "unread (b\<lparr>off := off b + n\<rparr>) = drop n (unread b)"
  by (simp add: unread_def add.commute)

lemma unread_Suc [simp]: "unread (b\<lparr>off := Suc (off b)\<rparr>) = tl (unread b)"
  using unread_advance [of b 1] by (simp add: drop_Suc)

lemma unread_mark [simp]: "unread (b\<lparr>offMark := m\<rparr>) = unread b"
  by (simp add: unread_def)

section \<open>Reading\<close>

lemma ReadByte_Cons:
  assumes "io_inv b" and u: "unread b = x # xs"
  shows "ReadByte b = (Inr x, b\<lparr>off := off b + 1\<rparr>)"
proof -
  have lt: "off b < blen b" using assms by (metis list.distinct(1) not_le unread_empty_iff)
  have "take (blen b) (arr b) ! off b = x"
    using u by (auto simp: unread_def intro: nth_via_drop)
  with lt show ?thesis by (simp add: ReadByte_def)
qed

lemma ReadByte_Nil: "io_inv b \<Longrightarrow> unread b = [] \<Longrightarrow> ReadByte b = (Inl IoEOF, Reset b)"
  by (simp add: ReadByte_def unread_empty_iff)

lemma Read_nonempty:
  "io_inv b \<Longrightarrow> unread b \<noteq> [] \<Longrightarrow>
   Read n b = ((take n (unread b), None), b\<lparr>off := off b + min (length (unread b)) n\<rparr>)"
  by (simp add: Read_def unread_empty_iff Let_def)

lemma Read_inv: "io_inv b \<Longrightarrow> io_inv (snd (Read n b))"
  by (auto simp: Read_def Let_def intro: io_inv_advance)

lemma ReadByte_inv: "io_inv b \<Longrightarrow> io_inv (snd (ReadByte b))"
  by (auto simp: ReadByte_def) (auto simp: io_inv_def)

lemma Drain_unread: "io_inv b \<Longrightarrow> n \<le> length (unread b) \<Longrightarrow> unread (Drain n b) = drop n (unread b)"
  by (auto simp: Drain_def io_inv_def unread_def drop_drop add.commute)

lemma Cut_Some:
  assumes "io_inv b" and "n \<le> length (unread b)"
  obtains c where "fst (Cut n b) = Some c" and "io_inv c" and "unread c = take n (unread b)"
    and "unread (snd (Cut n b)) = drop n (unread b)" and "io_inv (snd (Cut n b))"
proof
  from assms have le: "\<not> off b + n > blen b" by (auto simp: io_inv_def unread_def)
  let ?c = "\<lparr>arr = take n (unread b), blen = n, isnil = False, off = 0, offMark = 0,
                  refs = 0, eof = False, pooled = False\<rparr>"
  show "fst (Cut n b) = Some ?c" using le by (simp add: Cut_def)
  show "io_inv ?c" "unread ?c = take n (unread b)"
    using assms by (simp_all add: io_inv_def unread_def)
  show "unread (snd (Cut n b)) = drop n (unread b)" "io_inv (snd (Cut n b))"
    using le assms by (auto simp: Cut_def unread_def io_inv_def add.commute)
qed

section \<open>Writing\<close>

text \<open>Moving the unread bytes to the front changes neither them nor anything but the layout.\<close>

lemma ib_copy_spec:
  assumes inv: "wb_inv (p, b)"
  obtains p' b' where "ib_copy n (p, b) = Inr (p', b')" and "wb_inv (p', b')"
    and "unread b' = unread b" and "off b' = 0" and "blen b' = blen b - off b"
    and "bcap b' \<ge> (if n = 0 then bcap b else 2 * bcap b + n)"
    and "offMark b' = offMark b" and "refs b' = refs b" and "eof b' = eof b"
proof (cases "n = 0")
  case True
  let ?b = "b\<lparr>arr := go_copy (blen b) (arr b) (unread b), blen := blen b - off b, off := 0\<rparr>"
  from inv have io: "io_inv b" and po: "pool_inv p" by (auto dest: wb_invD)
  have "length (unread b) \<le> blen b" using io by simp
  then have "unread ?b = unread b"
    unfolding unread_def [of ?b] using io by (simp add: go_copy_def)
  moreover have "io_inv ?b" using io by (auto simp: io_inv_def go_copy_def unread_def)
  ultimately show ?thesis
    by (intro that [of p ?b]) (use io po True in \<open>auto simp: ib_copy_def io_inv_def wb_inv_def\<close>)
next
  case False
  let ?n = "2 * bcap b + n"
  obtain p1 a where g: "GetBytes p ?n = (p1, a)" by fastforce
  let ?b = "b\<lparr>arr := go_copy ?n a (unread b), blen := blen b - off b, isnil := False, off := 0, pooled := True\<rparr>"
  from inv have io: "io_inv b" and po: "pool_inv p" by (auto dest: wb_invD)
  from GetBytes_spec [OF po g] have p1: "pool_inv p1" and a: "?n \<le> length a" by auto
  have le: "length (unread b) \<le> ?n" using io length_unread [OF io] by (auto simp: io_inv_def)
  have "unread ?b = unread b"
    unfolding unread_def [of ?b] using io le by (simp add: go_copy_def)
  moreover have "io_inv ?b" using io a by (auto simp: io_inv_def)
  ultimately show ?thesis
    by (intro that [of "PutBytes p1 (slice_ptr b)" ?b])
      (use io p1 False g a in \<open>auto simp: ib_copy_def io_inv_def wb_inv_def Let_def\<close>)
qed

lemma tryGrow_Some:
  assumes "io_inv b" and "tryGrowByReslice n b = Some (m, b')"
  shows "m = blen b" and "b' = b\<lparr>blen := blen b + n\<rparr>" and "io_inv b'" and "m + n \<le> bcap b"
  using assms by (auto simp: tryGrowByReslice_def io_inv_def split: if_splits)

text \<open>
  Every path of \<open>reserve\<close> ends with room for \<open>n\<close> bytes behind the old unread bytes, which stay where
  the offset points.
\<close>

lemma reserve_spec:
  assumes inv: "wb_inv (p, b)"
  obtains m p' b' where "reserve n (p, b) = Inr (m, (p', b'))" and "wb_inv (p', b')"
    and "off b' \<le> m" and "blen b' = m + n" and "drop (off b') (take m (arr b')) = unread b"
    and "refs b' = refs b" and "unread b \<noteq> [] \<longrightarrow> eof b' = eof b"
proof (cases "tryGrowByReslice n b")
  case (Some x)
  obtain m b' where x: "x = (m, b')" by (cases x)
  from inv have io: "io_inv b" and po: "pool_inv p" by (auto dest: wb_invD)
  note t = tryGrow_Some [OF io Some [unfolded x]]
  show ?thesis
    by (rule that [of m p b']) (use t io po Some x in \<open>auto simp: reserve_def unread_def io_inv_def wb_inv_def\<close>)
next
  case None
  from inv have io: "io_inv b" and po: "pool_inv p" by (auto dest: wb_invD)
  define b1 where "b1 = (if Len b = 0 \<and> off b \<noteq> 0 then Reset b else b)"
  have io1: "io_inv b1" and ur1: "unread b1 = unread b" and cap1: "bcap b1 = bcap b"
    and refs1: "refs b1 = refs b" and eof1: "unread b \<noteq> [] \<longrightarrow> eof b1 = eof b"
    and len1: "Len b1 = Len b"
    using io by (auto simp: b1_def Len_unread) (auto simp: Reset_def unread_def Len_unread)
  have res: "reserve n (p, b) = grow n (p, b)" using None by (simp add: reserve_def)
  have Lb: "Len b = int (length (unread b))" using io by (rule Len_unread)
  show ?thesis
  proof (cases "tryGrowByReslice n b1")
    case (Some x)
    obtain m b' where x: "x = (m, b')" by (cases x)
    note t = tryGrow_Some [OF io1 Some [unfolded x]]
    have "grow n (p, b) = Inr (m, (p, b'))"
      using Some x by (simp add: grow_def Let_def b1_def)
    then have "reserve n (p, b) = Inr (m, (p, b'))" by (simp only: res)
    moreover have "drop (off b') (take m (arr b')) = unread b1" using t by (simp add: unread_def)
    moreover have "off b1 \<le> blen b1" using io1 by (simp add: io_inv_def)
    ultimately show ?thesis
      by (intro that [of m p b']) (use t po ur1 refs1 eof1 in \<open>simp_all add: wb_inv_def\<close>)
  next
    case None
    let ?k = "if Len b + int n \<le> int (bcap b1 div 2) then 0 else n"
    obtain p2 b2 where c: "ib_copy ?k (p, b1) = Inr (p2, b2)" and w2: "wb_inv (p2, b2)"
      and ur2: "unread b2 = unread b1" and off2: "off b2 = 0" and bl2: "blen b2 = blen b1 - off b1"
      and cap2: "bcap b2 \<ge> (if ?k = 0 then bcap b1 else 2 * bcap b1 + ?k)"
      and "offMark b2 = offMark b1" and m2: "refs b2 = refs b1" "eof b2 = eof b1"
      by (rule ib_copy_spec [OF wb_invI [OF po io1], of ?k])
    have bl: "blen b2 = length (unread b)" using bl2 io1 ur1 by (metis length_unread)
    have "blen b1 + n > bcap b1" using None by (auto simp: tryGrowByReslice_def split: if_splits)
    then have "n \<noteq> 0" using io1 by (auto simp: io_inv_def)
    have lu: "length (unread b) \<le> bcap b1"
      using io1 ur1 by (metis diff_le_self io_inv_def le_trans length_unread)
    have fits: "length (unread b) + n \<le> bcap b2"
      using cap2 lu \<open>n \<noteq> 0\<close> unfolding Lb by (auto split: if_splits)
    let ?b' = "b2\<lparr>off := 0, blen := length (unread b) + n\<rparr>"
    have "grow_reslice (Len b) n (p2, b2) = Inr (length (unread b), (p2, ?b'))"
      using fits by (simp add: grow_reslice_def Lb nat_add_distrib flip: of_nat_add)
    with c None have g: "grow n (p, b) = Inr (length (unread b), (p2, ?b'))"
      by (simp add: grow_def Let_def b1_def)
    have tk: "take (length (unread b)) (arr b2) = unread b"
      using ur2 ur1 off2 bl by (simp add: unread_def [of b2])
    have "io_inv ?b'" using w2 fits by (auto simp: wb_inv_def io_inv_def)
    with w2 have "wb_inv (p2, ?b')" by (simp add: wb_inv_def)
    moreover have "reserve n (p, b) = Inr (length (unread b), (p2, ?b'))"
      unfolding res by (fact g)
    moreover have "drop (off ?b') (take (length (unread b)) (arr ?b')) = unread b"
      using tk by simp
    moreover have "refs ?b' = refs b" "unread b \<noteq> [] \<longrightarrow> eof ?b' = eof b"
      using m2 refs1 eof1 by simp_all
    ultimately show ?thesis by (intro that [of "length (unread b)" p2 ?b']) simp_all
  qed
qed

lemma Write_spec:
  assumes inv: "wb_inv w"
  obtains w' where "Write d w = Inr (length d, w')" and "wb_inv w'" and "content w' = content w @ d"
    and "refs (snd w') = refs (snd w)"
proof -
  obtain p b where w: "w = (p, b)" by (cases w)
  obtain m p' b' where r: "reserve (length d) (p, b) = Inr (m, (p', b'))" and w': "wb_inv (p', b')"
    and m: "off b' \<le> m" "blen b' = m + length d" and u: "drop (off b') (take m (arr b')) = unread b"
    and "refs b' = refs b" and "unread b \<noteq> [] \<longrightarrow> eof b' = eof b"
    by (rule reserve_spec [OF inv [unfolded w], of "length d"])
  let ?b = "b'\<lparr>arr := write_at (arr b') m d\<rparr>"
  from w' m have cap: "m + length d \<le> bcap b'" by (auto simp: wb_inv_def io_inv_def)
  have "Write d w = Inr (length d, (p', ?b))"
    using r m by (simp add: Write_def w)
  moreover have "wb_inv (p', ?b)"
    using w' cap m by (auto simp: wb_inv_def io_inv_def write_at_def)
  moreover have "unread ?b = unread b @ d"
    unfolding unread_def [of ?b] using take_drop_append_write [OF m(1) cap] m u by simp
  ultimately show ?thesis using that [of "(p', ?b)"] \<open>refs b' = refs b\<close> w by simp
qed

lemma WriteByte_spec:
  assumes inv: "wb_inv w"
  obtains w' where "WriteByte x w = Inr w'" and "wb_inv w'" and "content w' = content w @ [x]"
    and "refs (snd w') = refs (snd w)"
proof -
  obtain p b where w: "w = (p, b)" by (cases w)
  obtain m p' b' where r: "reserve 1 (p, b) = Inr (m, (p', b'))" and w': "wb_inv (p', b')"
    and m: "off b' \<le> m" "blen b' = m + 1" and u: "drop (off b') (take m (arr b')) = unread b"
    and "refs b' = refs b" and "unread b \<noteq> [] \<longrightarrow> eof b' = eof b"
    by (rule reserve_spec [OF inv [unfolded w], of 1])
  let ?b = "b'\<lparr>arr := (arr b')[m := x]\<rparr>"
  from w' m have cap: "m < bcap b'" by (auto simp: wb_inv_def io_inv_def)
  have "WriteByte x w = Inr (p', ?b)"
    using r m by (simp add: WriteByte_def w)
  moreover have "wb_inv (p', ?b)"
    using w' m by (auto simp: wb_inv_def io_inv_def)
  moreover have "take (Suc m) ((arr b')[m := x]) = take m (arr b') @ [x]"
    using cap by (simp add: take_Suc_conv_app_nth)
  then have "unread ?b = unread b @ [x]"
    unfolding unread_def [of ?b] using m u cap by simp
  ultimately show ?thesis using that [of "(p', ?b)"] \<open>refs b' = refs b\<close> w by simp
qed

lemma makeRoom_spec:
  assumes inv: "wb_inv (p, b)"
  obtains p' b' where "makeRoom n (p, b) = Inr (p', b')" and "wb_inv (p', b')"
    and "unread b' = unread b" and "n \<le> bcap b' - blen b'" and "refs b' = refs b"
proof (cases "bcap b - blen b < n")
  case True
  let ?k = "if off b + (bcap b - blen b) < n then n else 0"
  obtain p' b' where c: "ib_copy ?k (p, b) = Inr (p', b')" "wb_inv (p', b')"
    "unread b' = unread b" "off b' = 0" "blen b' = blen b - off b"
    "bcap b' \<ge> (if ?k = 0 then bcap b else 2 * bcap b + ?k)"
    "offMark b' = offMark b" "refs b' = refs b" "eof b' = eof b"
    by (rule ib_copy_spec [OF inv, of ?k])
  have "makeRoom n (p, b) = Inr (p', b')"
    using True c(1) by (simp add: makeRoom_def split: if_splits)
  moreover have "n \<le> bcap b' - blen b'"
    using c True inv by (auto simp: wb_inv_def io_inv_def split: if_splits)
  ultimately show ?thesis using that c by blast
next
  case False
  then have "makeRoom n (p, b) = Inr (p, b)" by (simp add: makeRoom_def)
  then show ?thesis using that [of p b] inv False by simp
qed

lemma fill_spec:
  assumes "io_inv b" and "length d \<le> bcap b - blen b"
  shows "io_inv (fill d b)" and "unread (fill d b) = unread b @ d" and "refs (fill d b) = refs b"
proof -
  from assms have le: "blen b + length d \<le> bcap b" "off b \<le> blen b" by (auto simp: io_inv_def)
  with assms show "io_inv (fill d b)" by (auto simp: io_inv_def fill_def write_at_def)
  show "unread (fill d b) = unread b @ d"
    using take_drop_append_write [OF le(2,1)] by (simp add: unread_def fill_def)
  show "refs (fill d b) = refs b" by (simp add: fill_def)
qed

lemma Append_spec:
  assumes inv: "wb_inv w"
  obtains w' where "Append d w = Inr w'" and "wb_inv w'" and "content w' = content w @ d"
proof -
  obtain p b0 where w: "w = (p, b0)" by (cases w)
  define b where "b = (if off b0 \<ge> blen b0 then Reset b0 else b0)"
  from inv w have inv': "wb_inv (p, b)" and u: "unread b = unread b0"
    using unread_empty_iff [of b0] by (auto simp: wb_inv_def b_def)
  obtain p' b' where m: "makeRoom (length d) (p, b) = Inr (p', b')" "wb_inv (p', b')"
    "unread b' = unread b" "length d \<le> bcap b' - blen b'" "refs b' = refs b"
    by (rule makeRoom_spec [OF inv', of "length d"])
  then have io: "io_inv b'" by (simp add: wb_inv_def)
  note f = fill_spec [OF io m(4)]
  have "Append d w = Inr (p', fill d b')"
    using m io by (auto simp: Append_def w b_def fill_def io_inv_def)
  then show ?thesis using that [of "(p', fill d b')"] f m u w by (simp add: wb_inv_def)
qed

section \<open>The sink the encoders write to\<close>

text \<open>
  What an encoder relies on: writing never fails on a well-formed sink, keeps it well formed and
  appends. The lemmas lift this to sequences of writes.
\<close>

locale byte_sink =
  fixes put :: "bytes \<Rightarrow> 'w \<Rightarrow> 'w go"
    and putb :: "byte \<Rightarrow> 'w \<Rightarrow> 'w go"
    and inv :: "'w \<Rightarrow> bool"
    and out :: "'w \<Rightarrow> bytes"
  assumes put: "inv w \<Longrightarrow> \<exists>w'. put d w = Inr w' \<and> inv w' \<and> out w' = out w @ d"
    and putb: "inv w \<Longrightarrow> \<exists>w'. putb x w = Inr w' \<and> inv w' \<and> out w' = out w @ [x]"
begin

text \<open>A step that never fails and appends \<open>d\<close>.\<close>

definition emits :: "('w \<Rightarrow> 'w go) \<Rightarrow> bytes \<Rightarrow> bool" where
  "emits f d \<longleftrightarrow> (\<forall>w. inv w \<longrightarrow> (\<exists>w'. f w = Inr w' \<and> inv w' \<and> out w' = out w @ d))"

lemma emits_put: "emits (put d) d"
  by (simp add: emits_def put)

lemma emits_putb: "emits (putb x) [x]"
  by (simp add: emits_def putb)

lemma emits_Nil: "emits Inr []"
  by (simp add: emits_def)

text \<open>A run of steps appends what the steps append, in order.\<close>

lemma emits_seq: "list_all2 emits fs ds \<Longrightarrow> emits (seq_go fs) (concat ds)"
proof (induction rule: list_all2_induct)
  case Nil
  then show ?case by (simp add: emits_def)
next
  case (Cons f fs d ds)
  show ?case unfolding emits_def
  proof (intro allI impI)
    fix w assume "inv w"
    with Cons.hyps(1) obtain w1 where w1: "f w = Inr w1" "inv w1" "out w1 = out w @ d"
      unfolding emits_def by blast
    with Cons.IH show "\<exists>w'. seq_go (f # fs) w = Inr w' \<and> inv w' \<and> out w' = out w @ concat (d # ds)"
      unfolding emits_def by fastforce
  qed
qed

lemma emits_run:
  assumes "emits f d" and "inv w"
  obtains w' where "f w = Inr w'" and "inv w'" and "out w' = out w @ d"
  using assms unfolding emits_def by blast

text \<open>Two bytes written one after the other, as \<open>putUint16\<close> does.\<close>

lemma putb_putb:
  assumes "inv w"
  shows "\<exists>w1 w'. putb x w = Inr w1 \<and> putb y w1 = Inr w' \<and> inv w' \<and> out w' = out w @ [x, y]"
proof -
  from putb [OF assms] obtain w1 where w1: "putb x w = Inr w1" "inv w1" "out w1 = out w @ [x]" by blast
  from putb [OF w1(2)] obtain w2 where "putb y w1 = Inr w2" "inv w2" "out w2 = out w1 @ [y]" by blast
  with w1 show ?thesis by auto
qed

end

text \<open>\<open>Write\<close> with its count dropped, as the encoders use it.\<close>

definition sink_write :: "bytes \<Rightarrow> wbuf \<Rightarrow> wbuf go" where
  "sink_write d w = (case Write d w of Inl e \<Rightarrow> Inl e | Inr (_, w') \<Rightarrow> Inr w')"

interpretation sink: byte_sink sink_write WriteByte wb_inv content
proof
  fix w d assume "wb_inv w"
  then obtain w' where "Write d w = Inr (length d, w')" "wb_inv w'" "content w' = content w @ d"
    "refs (snd w') = refs (snd w)" by (rule Write_spec)
  then show "\<exists>w'. sink_write d w = Inr w' \<and> wb_inv w' \<and> content w' = content w @ d"
    by (auto simp: sink_write_def)
next
  fix w x assume "wb_inv w"
  then obtain w' where "WriteByte x w = Inr w'" "wb_inv w'" "content w' = content w @ [x]"
    "refs (snd w') = refs (snd w)" by (rule WriteByte_spec)
  then show "\<exists>w'. WriteByte x w = Inr w' \<and> wb_inv w' \<and> content w' = content w @ [x]" by blast
qed

section \<open>Connections\<close>

text \<open>What a reader delivers until its first end: the reference for \<open>ReadFrom\<close>.\<close>

fun reader_drain :: "reader \<Rightarrow> bytes \<times> go_error option" where
  "reader_drain [] = ([], None)"
| "reader_drain ((d, e) # rs) =
     (if e = Some IoEOF \<or> d = [] then (d, None)
      else if e \<noteq> None then (d, e)
      else (case reader_drain rs of (ds, e') \<Rightarrow> (d @ ds, e')))"

lemma reader_read_drain:
  assumes "reader_read l r = (d, e, r')" and "0 < l"
  shows "reader_drain r =
     (if e = Some IoEOF \<or> d = [] then (d, None) else if e \<noteq> None then (d, e)
      else (case reader_drain r' of (ds, e') \<Rightarrow> (d @ ds, e')))"
  using assms by (cases "(l, r)" rule: reader_read.cases) (auto split: if_splits prod.splits)

lemma reader_read_length: "reader_read l r = (d, e, r') \<Longrightarrow> length d \<le> l"
  by (cases "(l, r)" rule: reader_read.cases) (auto split: if_splits)

lemma readFrom_loop_spec:
  assumes "wb_inv w"
  shows "\<exists>r' w'. readFrom_loop w r n =
           Inr (n + length (fst (reader_drain r)), snd (reader_drain r), r', w') \<and>
           wb_inv w' \<and> content w' = content w @ fst (reader_drain r)"
  using assms
proof (induction w r n rule: readFrom_loop.induct)
  case (1 w r n)
  obtain p0 b0 where w: "w = (p0, b0)" by (cases w)
  obtain p b where m: "makeRoom MinRead (p0, b0) = Inr (p, b)" "wb_inv (p, b)"
    "unread b = unread b0" "MinRead \<le> bcap b - blen b" "refs b = refs b0"
    by (rule makeRoom_spec [OF "1.prems" [unfolded w], of MinRead])
  obtain d e r1 where rd: "reader_read (bcap b - blen b) r = (d, e, r1)" by (metis prod_cases3)
  have pos: "0 < bcap b - blen b" using m(4) by (simp add: MinRead_def)
  have io: "io_inv b" using m(2) by (simp add: wb_inv_def)
  note f = fill_spec [OF io reader_read_length [OF rd]]
  note dr = reader_read_drain [OF rd pos]
  have inv': "wb_inv (p, fill d b)" using m(2) f by (simp add: wb_inv_def)
  have unf: "readFrom_loop w r n =
    (if e = Some IoEOF \<or> d = [] then Inr (n + length d, None, r1, (p, fill d b))
     else if e \<noteq> None then Inr (n + length d, e, r1, (p, fill d b))
     else readFrom_loop (p, fill d b) r1 (n + length d))"
    using m(1) rd by (subst readFrom_loop.simps) (auto simp: w Let_def)
  show ?case
  proof (cases "e = Some IoEOF \<or> d = [] \<or> e \<noteq> None")
    case True
    then show ?thesis
      using m(3) f dr inv' w unf by (cases "e = Some IoEOF \<or> d = []") auto
  next
    case False
    then have "\<exists>r' w'. readFrom_loop (p, fill d b) r1 (n + length d) =
           Inr (n + length d + length (fst (reader_drain r1)), snd (reader_drain r1), r', w') \<and>
           wb_inv w' \<and> content w' = unread (fill d b) @ fst (reader_drain r1)"
      using "1.IH" [OF m(1) [folded w] refl rd [symmetric]] inv' by auto
    with False m(3) f dr w unf show ?thesis by (auto split: prod.splits)
  qed
qed





lemma writeTo_loop_spec:
  assumes "io_inv b" and "writeTo_loop b ws sent = Inr (s, e, ws', b')"
  shows "io_inv b' \<and> (\<exists>d. s = sent @ d \<and> unread b = d @ unread b')"
  using assms
proof (induction b ws sent rule: writeTo_loop.induct)
  case (1 b ws sent)
  show ?case
  proof (cases "off b < blen b")
    case True
    obtain m e1 ws1 where wn: "writer_next (blen b - off b) ws = ((m, e1), ws1)" by (metis prod.exhaust)
    let ?b = "b\<lparr>off := off b + m\<rparr>"
    from "1.prems"(2) True wn have le: "m \<le> blen b - off b"
      by (simp add: writeTo_loop.simps [of b] Let_def split: if_splits)
    have io: "io_inv ?b" using "1.prems"(1) le by (intro io_inv_advance) simp_all
    show ?thesis
    proof (cases "e1 \<noteq> None \<or> m = 0 \<or> m = blen b - off b")
      case True
      with "1.prems"(2) \<open>off b < blen b\<close> wn le have "s = sent @ take m (unread b)" "b' = ?b"
        by (auto simp: writeTo_loop.simps [of b] Let_def split: if_splits)
      with io show ?thesis by simp
    next
      case False
      with "1.prems"(2) \<open>off b < blen b\<close> wn le
      have "writeTo_loop ?b ws1 (sent @ take m (unread b)) = Inr (s, e, ws', b')"
        by (simp add: writeTo_loop.simps [of b] Let_def)
      with "1.IH" [OF True wn [symmetric] refl _ refl refl] False le io
      have "io_inv b' \<and> (\<exists>d. s = (sent @ take m (unread b)) @ d \<and> unread ?b = d @ unread b')"
        by auto
      then obtain d where "io_inv b'" "s = sent @ take m (unread b) @ d"
        "drop m (unread b) = d @ unread b'" by auto
      moreover from this(3) have "unread b = (take m (unread b) @ d) @ unread b'"
        by (metis append_assoc append_take_drop_id)
      ultimately show ?thesis by blast
    qed
  next
    case False
    with "1.prems" show ?thesis by (simp add: writeTo_loop.simps [of b])
  qed
qed

section \<open>Allocation and reference counts\<close>

lemma NewIoBuffer_spec:
  assumes "pool_inv p"
  shows "wb_inv (NewIoBuffer n p)" and "content (NewIoBuffer n p) = []"
    and "refs (snd (NewIoBuffer n p)) = 1" and "n \<le> bcap (snd (NewIoBuffer n p))"
    and "eof (snd (NewIoBuffer n p)) = False"
proof -
  obtain p' a where g: "GetBytes p (if n = 0 then DefaultSize else n) = (p', a)" by fastforce
  note s = GetBytes_spec [OF assms g]
  show "wb_inv (NewIoBuffer n p)" "content (NewIoBuffer n p) = []"
    "refs (snd (NewIoBuffer n p)) = 1" "eof (snd (NewIoBuffer n p)) = False"
    "n \<le> bcap (snd (NewIoBuffer n p))"
    using g s by (auto simp: NewIoBuffer_def wb_inv_def io_inv_def unread_def split: if_splits)
qed

lemma NewIoBufferBytes_spec:
  assumes "pool_inv p"
  shows "wb_inv (NewIoBufferBytes (Some (s, spare)) p)"
    and "content (NewIoBufferBytes (Some (s, spare)) p) = s"
  using assms by (auto simp: NewIoBufferBytes_def wb_inv_def io_inv_def unread_def)

text \<open>What the buffer pool holds: buffers that \<open>Free\<close> has reset, with no references.\<close>

definition free_buffer :: "ioBuffer \<Rightarrow> bool" where
  "free_buffer b \<longleftrightarrow> io_inv b \<and> refs b = 0 \<and> blen b = 0 \<and> off b = 0 \<and>
     offMark b = ResetOffMark \<and> \<not> eof b"

definition pools_inv :: "pools \<Rightarrow> bool" where
  "pools_inv ps \<longleftrightarrow> pool_inv (bbPool ps) \<and> distinct (ibPool ps) \<and>
     (\<forall>a \<in> set (ibPool ps). a < next_addr ps \<and> free_buffer (store ps a))"

lemma Free_spec:
  assumes "pool_inv p" and "io_inv b" and "Free (p, b) = (p', b')"
  shows "pool_inv p'" and "io_inv b'" and "refs b' = refs b" and "blen b' = 0" and "off b' = 0"
    and "offMark b' = ResetOffMark" and "\<not> eof b'"
  using assms by (auto simp: Free_def giveSlice_def Reset_def io_inv_def split: if_splits)

lemma Alloc_spec:
  assumes "pool_inv p" and "free_buffer b" and "Alloc n (p, b) = (p', b')"
  shows "pool_inv p'" and "io_inv b'" and "refs b' = refs b" and "unread b' = []" and "n \<le> bcap b'"
    and "\<not> eof b'" and "offMark b' = ResetOffMark"
proof -
  obtain p1 b1 where f: "(if isnil b then (p, b) else Free (p, b)) = (p1, b1)" by fastforce
  have b1: "pool_inv p1" "refs b1 = refs b" "blen b1 = 0" "off b1 = 0" "offMark b1 = ResetOffMark" "\<not> eof b1"
    using f assms Free_spec [of p b p1 b1] by (auto simp: free_buffer_def split: if_splits)
  obtain p2 a where g: "GetBytes p1 (if n = 0 then DefaultSize else n) = (p2, a)" by fastforce
  note s = GetBytes_spec [OF b1(1) g]
  have eq: "p' = p2" "b' = b1\<lparr>pooled := True, arr := a, blen := 0, isnil := False\<rparr>"
    using assms(3) f g by (auto simp: Alloc_def Let_def split: if_splits)
  show "pool_inv p'" "io_inv b'" "refs b' = refs b" "unread b' = []" "n \<le> bcap b'" "\<not> eof b'"
    "offMark b' = ResetOffMark"
    using s b1 by (auto simp: eq io_inv_def unread_def split: if_splits)
qed

lemma Alloc_refs: "Alloc n (p, b) = (p', b') \<Longrightarrow> refs b' = refs b"
  by (auto simp: Alloc_def Free_def giveSlice_def Reset_def Let_def split: if_splits prod.splits)

lemma pool_get_Some:
  assumes "pool_get pick xs = Some (v, vs)"
  shows "v \<in> set xs" and "set vs \<subseteq> set xs" and "distinct xs \<Longrightarrow> distinct vs \<and> v \<notin> set vs"
proof -
  obtain i where i: "i < length xs" "v = xs ! i" "vs = take i xs @ drop (Suc i) xs"
    using assms by (auto simp: pool_get_def split: option.splits if_splits)
  then have xs: "xs = take i xs @ v # drop (Suc i) xs" by (simp add: id_take_nth_drop)
  show "v \<in> set xs" "set vs \<subseteq> set xs" using i by (auto dest: in_set_takeD in_set_dropD)
  assume "distinct xs"
  then have "distinct (take i xs @ v # drop (Suc i) xs)" using xs by simp
  then show "distinct vs \<and> v \<notin> set vs" using i(3) by auto
qed

lemma GetIoBuffer_inv:
  assumes inv: "pools_inv ps" and g: "GetIoBuffer pick n ps = (a, ps')"
  shows "pools_inv ps' \<and> io_inv (store ps' a) \<and> unread (store ps' a) = [] \<and> refs (store ps' a) = 1 \<and> \<not> eof (store ps' a) \<and>
    n \<le> bcap (store ps' a) \<and> a \<notin> set (ibPool ps') \<and> a < next_addr ps' \<and> (a \<in> set (ibPool ps) \<or> a = next_addr ps) \<and>
    (\<forall>c. c \<noteq> a \<longrightarrow> store ps' c = store ps c)"
proof (cases "pool_get pick (ibPool ps)")
  case None
  obtain p b where b: "NewIoBuffer n (bbPool ps) = (p, b)" by fastforce
  have "a = next_addr ps" "ps' = ps\<lparr>bbPool := p, store := (store ps)(next_addr ps := b), next_addr := Suc (next_addr ps)\<rparr>"
    using g None b by (auto simp: GetIoBuffer_def)
  then show ?thesis
    using inv NewIoBuffer_spec [of "bbPool ps" n] b by (auto simp: pools_inv_def wb_inv_def less_Suc_eq)
next
  case (Some x)
  then obtain v vs where x: "pool_get pick (ibPool ps) = Some (v, vs)" by (cases x) auto
  obtain p c where al: "Alloc n (bbPool ps, store ps v) = (p, c)" by fastforce
  note l = pool_get_Some [OF x]
  have fb: "free_buffer (store ps v)" and po: "pool_inv (bbPool ps)" using inv l(1) by (auto simp: pools_inv_def)
  note s = Alloc_spec [OF po fb al]
  have eq: "a = v" "ps' = ps\<lparr>bbPool := p, ibPool := vs, store := (store ps)(v := c\<lparr>refs := refs c + 1\<rparr>)\<rparr>"
    using g x al by (auto simp: GetIoBuffer_def Count_def)
  have "pools_inv ps'" using s(1) l inv by (auto simp: eq pools_inv_def)
  then show ?thesis
    using s fb l inv by (auto simp: eq pools_inv_def free_buffer_def io_inv_def unread_def)
qed

lemma ibPool_give_spec:
  assumes "pools_inv ps" and "io_inv (store ps a)" and "refs (store ps a) = 0" and "a < next_addr ps" and "a \<notin> set (ibPool ps)"
  shows "pools_inv (ibPool_give a ps)" and "ibPool (ibPool_give a ps) = a # ibPool ps"
    and "free_buffer (store (ibPool_give a ps) a)" and "c \<noteq> a \<Longrightarrow> store (ibPool_give a ps) c = store ps c"
proof -
  obtain p b where f: "Free (bbPool ps, store ps a) = (p, b)" by fastforce
  have po: "pool_inv (bbPool ps)" using assms by (simp add: pools_inv_def)
  note s = Free_spec [OF po assms(2) f]
  show "pools_inv (ibPool_give a ps)" "ibPool (ibPool_give a ps) = a # ibPool ps" "free_buffer (store (ibPool_give a ps) a)"
    "c \<noteq> a \<Longrightarrow> store (ibPool_give a ps) c = store ps c"
    using f s assms by (auto simp: ibPool_give_def pools_inv_def free_buffer_def)
qed

lemma Clone_inv:
  assumes inv: "pools_inv ps" and io: "io_inv (store ps a)" and a: "a < next_addr ps" "a \<notin> set (ibPool ps)"
  shows "\<exists>c ps'. Clone pick a ps = Inr (c, ps') \<and> c \<noteq> a \<and> pools_inv ps' \<and> store ps' a = store ps a \<and> io_inv (store ps' c) \<and>
           unread (store ps' c) = unread (store ps a) \<and> eof (store ps' c) = eof (store ps a) \<and> refs (store ps' c) = 1"
proof -
  let ?u = "unread (store ps a)"
  obtain c ps1 where g: "GetIoBuffer pick (nat (Len (store ps a))) ps = (c, ps1)" by fastforce
  note s = GetIoBuffer_inv [OF inv g]
  then have ca: "c \<noteq> a" and sa: "store ps1 a = store ps a" using a by auto
  from s have w: "wb_inv (bbPool ps1, store ps1 c)" by (simp add: wb_inv_def pools_inv_def)
  obtain w' where wr: "Write ?u (bbPool ps1, store ps1 c) = Inr (length ?u, w')" "wb_inv w'"
    "content w' = content (bbPool ps1, store ps1 c) @ ?u" "refs (snd w') = refs (snd (bbPool ps1, store ps1 c))"
    by (rule Write_spec [OF w])
  obtain p b where w': "w' = (p, b)" by (cases w')
  have "Bytes (store ps a) = Inr ?u" using io by (auto simp: Bytes_def io_inv_def)
  with g wr(1) sa ca have cl: "Clone pick a ps =
      Inr (c, ps1\<lparr>bbPool := p, store := (store ps1)(c := SetEOF (eof (store ps a)) b)\<rparr>)"
    by (simp add: Clone_def w' EOF_def Let_def)
  show ?thesis unfolding cl using s wr ca sa
    by (auto simp: w' SetEOF_def pools_inv_def wb_inv_def io_inv_def unread_def)
qed

lemma sint_dec: "0 \<le> sint (w :: 32 word) \<Longrightarrow> sint (w - 1) = sint w - 1"
  using sint_lt [of w] by (simp add: sint_word_ariths signed_take_bit_int_eq_self)

lemma put_poisons:
  assumes r: "refs (store ps a) = - 1" and i: "i < length (ibPool ps)" "ibPool ps ! i = a"
    and g: "GetIoBuffer (Some i) n ps = (a', ps')"
  shows "\<not> pools_inv ps \<and> a' = a \<and> refs (store ps' a) = 0 \<and> fst (PutIoBuffer a ps') = Some (GoErr ''PutIoBuffer duplicate'')"
proof -
  have "a \<in> set (ibPool ps)" using i nth_mem by blast
  moreover have "\<not> free_buffer (store ps a)" using r by (simp add: free_buffer_def)
  ultimately have "\<not> pools_inv ps" unfolding pools_inv_def by blast
  moreover obtain p b where al: "Alloc n (bbPool ps, store ps a) = (p, b)" by fastforce
  have "a' = a" "store ps' a = b\<lparr>refs := refs b + 1\<rparr>"
    using g i al by (auto simp: GetIoBuffer_def pool_get_def Count_def)
  moreover from this have "refs (store ps' a) = 0" using Alloc_refs [OF al] r by simp
  ultimately show ?thesis by (simp add: PutIoBuffer_def Count_def)
qed

section \<open>Marks\<close>

text \<open>A run of \<open>Read\<close> calls with the given lengths.\<close>

definition reads :: "nat list \<Rightarrow> ioBuffer \<Rightarrow> ioBuffer" where
  "reads ns b = fold (\<lambda>n b. snd (Read n b)) ns b"

lemma reads_advance:
  assumes "io_inv b" and "\<forall>n \<in> set ns. 0 < n" and "sum_list ns \<le> length (unread b)"
  shows "reads ns b = b\<lparr>off := off b + sum_list ns\<rparr>"
  using assms
proof (induction ns arbitrary: b)
  case Nil
  then show ?case by (simp add: reads_def)
next
  case (Cons n ns)
  let ?b = "b\<lparr>off := off b + n\<rparr>"
  have n: "0 < n" "n \<le> length (unread b)" using Cons.prems by auto
  then have ne: "unread b \<noteq> []" by (metis leD list.size(3))
  have r: "snd (Read n b) = ?b"
    using Read_nonempty [OF Cons.prems(1) ne, of n] n by (simp only: snd_conv min_absorb2)
  have "reads ns ?b = ?b\<lparr>off := off ?b + sum_list ns\<rparr>"
    by (rule Cons.IH) (use Cons.prems n io_inv_advance in \<open>auto simp: unread_advance\<close>)
  with r show ?case by (simp add: reads_def add.assoc)
qed

section \<open>Properties\<close>

text \<open>C2. Writing to a well-formed buffer never panics, whichever of its paths (reslice, reset,
  slide, reallocate from the pool) it takes and whatever the recycled array held: it reports every byte
  written, keeps buffer and pool well formed, and appends exactly the bytes to the unread ones.\<close>

theorem write_appends:
  assumes "wb_inv w"
  shows "\<exists>w'. Write d w = Inr (length d, w') \<and> wb_inv w' \<and> content w' = content w @ d"
  using Write_spec [OF assms, of d] by blast

theorem write_appends_witness:
  "\<exists>w'. Write [7, 8, 9] (NewIoBuffer 0 newByteBufferPool) = Inr (3, w') \<and> wb_inv w' \<and> content w' = [7, 8, 9]"
  using write_appends [OF NewIoBuffer_spec(1) [OF pool_inv_new], of "[7, 8, 9]" 0]
  by (simp add: NewIoBuffer_spec(2) [OF pool_inv_new] eval_nat_numeral)

text \<open>C14. \<open>Mark\<close>, any run of non-empty reads of bytes that are there, and \<open>Restore\<close> give the unread
  bytes back: reads between a mark and a restore are a transaction that can be undone.\<close>

theorem restore_after_reads:
  assumes "io_inv b" and "\<forall>n \<in> set ns. 0 < n" and "sum_list ns \<le> length (unread b)"
  shows "unread (Restore (reads ns (Mark b))) = unread b"
proof -
  have "io_inv (Mark b)" "unread (Mark b) = unread b"
    using assms(1) by (simp_all add: Mark_def io_inv_def)
  with reads_advance [of "Mark b" ns] assms
  have "reads ns (Mark b) = (Mark b)\<lparr>off := off b + sum_list ns\<rparr>" by (simp add: Mark_def)
  then show ?thesis by (simp add: Restore_def Mark_def ResetOffMark_def unread_def)
qed

theorem restore_after_reads_witness:
  "unread (Restore (reads [1, 2] (Mark (snd (NewIoBufferBytes (Some ([1, 2, 3, 4], [])) newByteBufferPool))))) =
   [1, 2, 3, 4]"
proof -
  let ?w = "NewIoBufferBytes (Some ([1, 2, 3, 4], [])) newByteBufferPool"
  note s = NewIoBufferBytes_spec [OF pool_inv_new, of "[1, 2, 3, 4]" "[]"]
  have "io_inv (snd ?w)" using s(1) by (simp add: wb_inv_def)
  with restore_after_reads [of "snd ?w" "[1, 2]"] s(2) show ?thesis by simp
qed

text \<open>C15. A mark does not survive a write that slides the unread bytes to the front: \<open>copy\<close> moves them and sets
  the offset to zero but leaves \<open>offMark\<close>. On a full buffer whose unread bytes and new bytes fit in half of the
  capacity, \<open>Mark\<close>, \<open>Write\<close>, \<open>Restore\<close> leaves a buffer of negative length whose bytes cannot be read.\<close>

theorem stale_mark_after_slide:
  assumes inv: "wb_inv (p, b)" and full: "blen b = bcap b" and ne: "unread b \<noteq> []" and d: "d \<noteq> []"
    and half: "length (unread b) + length d \<le> bcap b div 2"
  shows "\<exists>w'. Write d (p, Mark b) = Inr (length d, w') \<and> Len (Restore (snd w')) < 0 \<and>
           Bytes (Restore (snd w')) = Inl (PanicRuntime SliceBounds)"
proof -
  from inv have io: "io_inv b" by (simp add: wb_inv_def)
  then have lu: "length (unread b) = blen b - off b" and le: "off b \<le> blen b" by (simp_all add: io_inv_def)
  have L: "Len (Mark b) = int (length (unread b))" using io by (simp add: Len_def Mark_def lu le)
  let ?u = "length (unread b)"
  let ?b2 = "(Mark b)\<lparr>arr := go_copy (blen b) (arr b) (unread b), blen := ?u, off := 0\<rparr>"
  have c: "ib_copy 0 (p, Mark b) = Inr (p, ?b2)"
    using le lu by (simp add: ib_copy_def Mark_def)
  have t: "tryGrowByReslice (length d) (Mark b) = None"
    using full d by (simp add: tryGrowByReslice_def Mark_def)
  have cap: "bcap ?b2 = bcap b" using full by (simp add: Mark_def)
  have half': "int ?u + int (length d) \<le> int (bcap b div 2)" using half by linarith
  have "grow (length d) (p, Mark b) = grow_reslice (int ?u) (length d) (p, ?b2)"
    unfolding grow_def Let_def prod.case L using c t ne half' by (simp add: Mark_def)
  also have "\<dots> = Inr (?u, (p, ?b2\<lparr>blen := ?u + length d\<rparr>))"
    using cap half by (auto simp: grow_reslice_def nat_add_distrib)
  finally have "reserve (length d) (p, Mark b) = Inr (?u, (p, ?b2\<lparr>blen := ?u + length d\<rparr>))"
    using t by (simp add: reserve_def)
  then have w: "Write d (p, Mark b) = Inr (length d,
      (p, ?b2\<lparr>blen := ?u + length d, arr := write_at (go_copy (blen b) (arr b) (unread b)) ?u d\<rparr>))"
    by (simp add: Write_def Let_def)
  have "0 < length d" using d by simp
  then have "?u + length d < off b" using half lu le full by linarith
  with w show ?thesis
    by (auto simp: Restore_def Mark_def ResetOffMark_def Len_def Bytes_def)
qed

theorem stale_mark_after_slide_witness:
  "\<exists>b. wb_inv (newByteBufferPool, b) \<and>
     (\<exists>w'. Write [5] (newByteBufferPool, Mark b) = Inr (1, w') \<and> Len (Restore (snd w')) < 0)"
proof -
  let ?b = "\<lparr>arr = [1, 2, 3, 4, 5, 6], blen = 6, isnil = False, off = 4, offMark = -1,
             refs = 1, eof = False, pooled = False\<rparr>"
  have "wb_inv (newByteBufferPool, ?b)" using pool_inv_new by (simp add: wb_inv_def io_inv_def)
  with stale_mark_after_slide [of newByteBufferPool ?b "[5]"] show ?thesis
    by (intro exI [of _ ?b]) (auto simp: unread_def)
qed

text \<open>C16. \<open>ReadFrom\<close> returns, never panics, and appends exactly what the reader delivers up to its first
  end (end of file, an empty answer, or an error), however the answers are cut by the room in the buffer;
  the count and the error it returns are those of that delivery.\<close>

theorem readFrom_complete:
  assumes "wb_inv w"
  shows "\<exists>r' w'. ReadFrom w r = Inr (length (fst (reader_drain r)), snd (reader_drain r), r', w') \<and>
           wb_inv w' \<and> content w' = content w @ fst (reader_drain r)"
proof -
  obtain p b where w: "w = (p, b)" by (cases w)
  let ?b = "if off b \<ge> blen b then Reset b else b"
  have "wb_inv (p, ?b)" "unread ?b = unread b"
    using assms unread_empty_iff [of b] by (auto simp: w wb_inv_def)
  with readFrom_loop_spec [of "(p, ?b)" r 0] show ?thesis by (simp add: ReadFrom_def w)
qed

theorem readFrom_complete_witness:
  "\<exists>r' w'. ReadFrom (NewIoBuffer 0 newByteBufferPool) [([1, 2], None), ([3], Some IoEOF)] = Inr (3, None, r', w') \<and>
           content w' = [1, 2, 3]"
  using readFrom_complete [OF NewIoBuffer_spec(1) [OF pool_inv_new], of 0 "[([1, 2], None), ([3], Some IoEOF)]"]
  by (auto simp: NewIoBuffer_spec(2) [OF pool_inv_new])



text \<open>C18. What \<open>WriteTo\<close> sends and what it leaves in the buffer are together the bytes that were unread:
  none is lost, none is sent twice, also when the writer stops short or fails.\<close>

theorem writeTo_conserves:
  assumes "io_inv b" and "WriteTo b ws = Inr (s, e, ws', b')"
  shows "io_inv b' \<and> s @ unread b' = unread b"
  using writeTo_loop_spec [OF assms(1) assms(2) [unfolded WriteTo_def]] by auto

theorem writeTo_conserves_witness:
  "\<exists>s e ws' b'. WriteTo (snd (NewIoBufferBytes (Some ([1, 2, 3], [])) newByteBufferPool)) [(1, None), (1, Some Timeout)] =
     Inr (s, e, ws', b') \<and> s @ unread b' = [1, 2, 3] \<and> s = [1, 2]"
proof -
  let ?b = "snd (NewIoBufferBytes (Some ([1, 2, 3], [])) newByteBufferPool)"
  note sp = NewIoBufferBytes_spec [OF pool_inv_new, of "[1, 2, 3]" "[]"]
  have io: "io_inv ?b" using sp(1) by (simp add: wb_inv_def)
  have r: "WriteTo ?b [(1, None), (1, Some Timeout)] = Inr ([1, 2], Some Timeout, [], ?b\<lparr>off := 2\<rparr>)"
    by (simp add: WriteTo_def writeTo_loop.simps NewIoBufferBytes_def unread_def)
  from writeTo_conserves [OF io r] r sp(2) show ?thesis by auto
qed

text \<open>A clone is a new object with the same unread bytes and end-of-file flag and one reference; the original is as it
  was, and the pools stay well formed.\<close>

theorem clone_copies:
  assumes "pools_inv ps" and "io_inv (store ps a)" and "a < next_addr ps" and "a \<notin> set (ibPool ps)"
  shows "\<exists>c ps'. Clone pick a ps = Inr (c, ps') \<and> c \<noteq> a \<and> pools_inv ps' \<and> store ps' a = store ps a \<and> io_inv (store ps' c) \<and>
           unread (store ps' c) = unread (store ps a) \<and> eof (store ps' c) = eof (store ps a) \<and> refs (store ps' c) = 1"
  by (rule Clone_inv [OF assms])

text \<open>C19. Reference counting on shared buffers: \<open>PutIoBuffer\<close> touches no other buffer. While there are other references it
  takes one off and leaves the pool alone; when the last one goes it resets the buffer and puts it into the pool; in both cases
  the pool keeps its invariant (its buffers are distinct, reset, and without references). A second release is reported as an
  error and leaves the pool's list alone, but the count of the buffer is -1 then: when the buffer is the one in the pool, the
  invariant is broken, and whoever takes it from the pool gets a buffer with no reference, whose release is reported as a
  duplicate in turn.\<close>

theorem put_io_buffer_counts:
  assumes "pools_inv ps" and "a < next_addr ps" and "io_inv (store ps a)" and "0 \<le> sint (refs (store ps a))"
    and "PutIoBuffer a ps = (e, ps')"
  shows "(\<forall>c. c \<noteq> a \<longrightarrow> store ps' c = store ps c) \<and>
     (sint (refs (store ps a)) > 1 \<longrightarrow> e = None \<and> pools_inv ps' \<and> ibPool ps' = ibPool ps \<and>
        store ps' a = (store ps a)\<lparr>refs := refs (store ps a) - 1\<rparr>) \<and>
     (refs (store ps a) = 1 \<longrightarrow> e = None \<and> pools_inv ps' \<and> ibPool ps' = a # ibPool ps \<and> free_buffer (store ps' a)) \<and>
     (refs (store ps a) = 0 \<longrightarrow> e = Some (GoErr ''PutIoBuffer duplicate'') \<and> ibPool ps' = ibPool ps \<and> refs (store ps' a) = - 1 \<and>
        (\<forall>i n a' ps''. i < length (ibPool ps) \<longrightarrow> ibPool ps ! i = a \<longrightarrow> GetIoBuffer (Some i) n ps' = (a', ps'') \<longrightarrow>
           \<not> pools_inv ps' \<and> a' = a \<and> refs (store ps'' a) = 0 \<and>
           fst (PutIoBuffer a ps'') = Some (GoErr ''PutIoBuffer duplicate'')))"
proof -
  let ?b = "store ps a"
  let ?ps = "ps\<lparr>store := (store ps)(a := ?b\<lparr>refs := refs ?b - 1\<rparr>)\<rparr>"
  have dec: "sint (refs ?b - 1) = sint (refs ?b) - 1" by (rule sint_dec [OF assms(4)])
  have z: "sint (refs ?b) = 1 \<longleftrightarrow> refs ?b = 1" "sint (refs ?b) = 0 \<longleftrightarrow> refs ?b = 0"
    using signed_word_eqI [of "refs ?b" 1] signed_word_eqI [of "refs ?b" 0] by auto
  have out: "a \<notin> set (ibPool ps)" if "refs ?b \<noteq> 0" using assms(1) that by (auto simp: pools_inv_def free_buffer_def)
  then have inv: "pools_inv ?ps" if "refs ?b \<noteq> 0" using assms(1) that by (auto simp: pools_inv_def)
  consider "sint (refs ?b) > 1" "refs ?b \<noteq> 0" "refs ?b \<noteq> 1" | "refs ?b = 1" | "refs ?b = 0" using assms(4) z by fastforce
  then show ?thesis
  proof cases
    case 1
    then have "e = None" "ps' = ?ps" using assms(5) dec by (auto simp: PutIoBuffer_def Count_def)
    with 1 inv show ?thesis by simp
  next
    case 2
    then have e: "e = None" "ps' = ibPool_give a ?ps" using assms(5) by (auto simp: PutIoBuffer_def Count_def)
    have "io_inv (store ?ps a)" "refs (store ?ps a) = 0" "a < next_addr ?ps" "a \<notin> set (ibPool ?ps)"
      using 2 assms(1-3) out by (auto simp: io_inv_def)
    from ibPool_give_spec [OF inv this] 2 show ?thesis by (simp add: e)
  next
    case 3
    then have e: "e = Some (GoErr ''PutIoBuffer duplicate'')" "ps' = ?ps" using assms(5) by (auto simp: PutIoBuffer_def Count_def)
    have r: "refs (store ps' a) = - 1" "ibPool ps' = ibPool ps" using 3 by (simp_all add: e)
    have "\<forall>i n a' ps''. i < length (ibPool ps) \<longrightarrow> ibPool ps ! i = a \<longrightarrow> GetIoBuffer (Some i) n ps' = (a', ps'') \<longrightarrow>
           \<not> pools_inv ps' \<and> a' = a \<and> refs (store ps'' a) = 0 \<and>
           fst (PutIoBuffer a ps'') = Some (GoErr ''PutIoBuffer duplicate'')"
      using put_poisons [OF r(1)] r(2) by metis
    moreover have "\<forall>c. c \<noteq> a \<longrightarrow> store ps' c = store ps c" by (simp add: e)
    ultimately show ?thesis using 3 r e(1) by simp
  qed
qed

theorem put_io_buffer_counts_witness:
  "\<exists>ps'. PutIoBuffer 0 \<lparr>bbPool = newByteBufferPool, ibPool = [], store = (\<lambda>_. snd (NewIoBuffer 0 newByteBufferPool)), next_addr = 1\<rparr> = (None, ps') \<and>
     ibPool ps' = [0] \<and> free_buffer (store ps' 0)"
proof -
  let ?b = "snd (NewIoBuffer 0 newByteBufferPool)"
  let ?ps = "\<lparr>bbPool = newByteBufferPool, ibPool = [], store = (\<lambda>_. ?b), next_addr = 1\<rparr>"
  note sp = NewIoBuffer_spec [OF pool_inv_new, of 0]
  obtain e ps' where p: "PutIoBuffer 0 ?ps = (e, ps')" by fastforce
  have "pools_inv ?ps" "0 < next_addr ?ps" "io_inv (store ?ps 0)" "0 \<le> sint (refs (store ?ps 0))"
    using sp pool_inv_new by (simp_all add: pools_inv_def wb_inv_def)
  from put_io_buffer_counts [OF this p] sp(3) p show ?thesis by simp
qed

text \<open>
  The time-out of a follow-up read is returned to the caller although bytes have been read: the test in the source
  looks at \<open>err\<close>, not at \<open>e\<close>.
\<close>

lemma readOnce_reports_timeout:
  assumes inv: "wb_inv (p, b)" and "off b = 0" and "blen b > 0"
    and d: "length d = bcap b - blen b" "0 < length d" "length d \<le> MaxRead"
  shows "\<exists>r' w'. ReadOnce reader_read True (p, b) [(d, None), ([], Some Timeout)] = Some (Inr (length d, Some Timeout, r', w'))"
proof -
  have io: "io_inv b" using inv by (simp add: wb_inv_def)
  note f = fill_spec [OF io, of d]
  have "wb_inv (p, fill d b)" using f d inv by (simp add: wb_inv_def)
  then obtain p' b' where m: "makeRoom MinRead (p, fill d b) = Inr (p', b')" "wb_inv (p', b')"
    "unread b' = unread (fill d b)" "MinRead \<le> bcap b' - blen b'" "refs b' = refs (fill d b)"
    by (rule makeRoom_spec)
  have "ReadOnce reader_read True (p, b) [(d, None), ([], Some Timeout)] =
        readOnce_loop reader_read True False (p, fill d b) [([], Some Timeout)] (length d)"
    using assms by (simp add: ReadOnce_def readOnce_loop.simps [of reader_read True True] Let_def)
  also have "\<dots> = Some (Inr (length d, Some Timeout, [], (p', fill [] b')))"
    using m by (simp add: readOnce_loop.simps [of reader_read True False] Let_def)
  finally show ?thesis by blast
qed

end
