(* ===== verification/Mqtt_Wire.thy ===== *)
theory Mqtt_Wire
  imports Io_Buffer
begin

text \<open>
  The wire primitives of \<open>pkg/protocol/mqtt/message/message.go\<close>: the variable-length "remaining length", 16-bit
  big-endian integers and length-prefixed strings, read from a buffer (with the panics of the source) and
  written to one.

  \<open>RemainingLength\<close> is an \<open>int32\<close>: a \<open>32 word\<close> read with \<open>sint\<close>.
\<close>

unbundle bit_operations_syntax

definition ErrorInvalidRemainingLength :: go_error where
  "ErrorInvalidRemainingLength = GoErr ''Invalid remaining length ''"

definition ErrorInvalidMessage :: go_error where
  "ErrorInvalidMessage = GoErr ''Invalid message ''"

section \<open>Reading\<close>

definition getUint8 :: "(ioBuffer, byte) gom" where
  "getUint8 b = (case ReadByte b of (Inl e, b') \<Rightarrow> (Inl (PanicErr e), b') | (Inr x, b') \<Rightarrow> (Inr x, b'))"

text \<open>\<open>binary.BigEndian.Uint16\<close>.\<close>

definition BigEndian_Uint16 :: "byte \<Rightarrow> byte \<Rightarrow> 16 word" where
  "BigEndian_Uint16 b0 b1 = ucast b1 OR push_bit 8 (ucast b0)"

text \<open>\<open>bytes := make([]byte, n)\<close>, \<open>buf.Read(bytes)\<close> and the two checks that follow it.\<close>

definition readExactly :: "nat \<Rightarrow> (ioBuffer, bytes) gom" where
  "readExactly n b =
     (case Read n b of
        ((d, None), b') \<Rightarrow>
           if length d \<noteq> n then (Inl (PanicErr ErrorInvalidRemainingLength), b') else (Inr d, b')
      | ((d, Some e), b') \<Rightarrow> (Inl (PanicErr e), b'))"

definition getUint16 :: "(ioBuffer, 16 word) gom" where
  "getUint16 b =
     (if Len b < 2 then (Inl (PanicErr ErrorInvalidRemainingLength), b)
      else gbind (readExactly 2) (\<lambda>d. gret (BigEndian_Uint16 (d ! 0) (d ! 1))) b)"

definition getString :: "(ioBuffer, bytes) gom" where
  "getString =
     gbind getUint16 (\<lambda>strLen b.
       if Len b < int (unat strLen) then (Inl (PanicErr ErrorInvalidRemainingLength), b)
       else readExactly (unat strLen) b)"

text \<open>
  The loop of \<open>decodeLength\<close>: \<open>k\<close> iterations are left. When they are used up the function ends in its last
  statement, the panic.
\<close>

primrec decodeLength_loop :: "nat \<Rightarrow> 32 word \<Rightarrow> nat \<Rightarrow> (ioBuffer, 32 word) gom" where
  "decodeLength_loop 0 v shift = gpanic (PanicErr ErrorInvalidRemainingLength)"
| "decodeLength_loop (Suc k) v shift =
     (\<lambda>b. case ReadByte b of
        (Inr x, b') \<Rightarrow>
          (let v' = v OR push_bit shift (ucast (x AND 0x7f)) in
           if x AND 0x80 = 0 then (Inr v', b') else decodeLength_loop k v' (shift + 7) b')
      | (Inl e, b') \<Rightarrow> (Inl (PanicErr e), b'))"

definition decodeLength :: "(ioBuffer, 32 word) gom" where
  "decodeLength b =
     (if Len b > 0 then decodeLength_loop 4 0 0 b
      else (Inl (PanicErr ErrorInvalidRemainingLength), b))"

definition RemainingLength_IsValid :: "32 word \<Rightarrow> bool" where
  "RemainingLength_IsValid n \<longleftrightarrow> 0 \<le> sint n \<and> sint n \<le> 268435455"

section \<open>Writing\<close>

text \<open>The digits the loop of \<open>encodeLength\<close> writes, one \<open>WriteByte\<close> each.\<close>

function encodeLength_loop :: "32 word \<Rightarrow> wbuf \<Rightarrow> wbuf go" where
  "encodeLength_loop n w =
     (if sint n > 0 then
        (let digit = n AND 0x7f;
             n' = signed_drop_bit 7 n;
             digit' = (if sint n' > 0 then digit OR 0x80 else digit)
         in case WriteByte (ucast digit') w of Inl e \<Rightarrow> Inl e | Inr w' \<Rightarrow> encodeLength_loop n' w')
      else Inr w)"
  by pat_completeness auto
termination
  by (relation "measure (\<lambda>(n, w). nat (sint n))") (auto simp: sint_signed_drop_bit_eq drop_bit_eq_div)

declare encodeLength_loop.simps [simp del]

definition encodeLength :: "32 word \<Rightarrow> wbuf \<Rightarrow> wbuf go" where
  "encodeLength n w = (if n = 0 then WriteByte 0 w else encodeLength_loop n w)"

definition putUint16 :: "16 word \<Rightarrow> wbuf \<Rightarrow> wbuf go" where
  "putUint16 i = seq_go [WriteByte (ucast (drop_bit 8 i)), WriteByte (ucast i)]"

definition putString :: "bytes \<Rightarrow> wbuf \<Rightarrow> wbuf go" where
  "putString s w =
     (case putUint16 (of_nat (length s)) w of
        Inl e \<Rightarrow> Inl e
      | Inr w' \<Rightarrow> if s = [] then Inl (PanicErr (GoErr ''Nil utf8 string '')) else sink_write s w')"

definition boolToByte :: "bool \<Rightarrow> byte" where
  "boolToByte v = (if v then 1 else 0)"

section \<open>What is on the wire\<close>

text \<open>
  The encodings that the MQTT format prescribes, as lists of bytes and by arithmetic: a 16-bit number with its high byte first, a
  string behind its length, and a length in digits of base 128, the lowest first, with 128 added to all but the last.
\<close>

definition wire16 :: "16 word \<Rightarrow> bytes" where
  "wire16 i = [of_nat (unat i div 256), of_nat (unat i mod 256)]"

definition wire_string :: "bytes \<Rightarrow> bytes" where
  "wire_string s = wire16 (of_nat (length s)) @ s"

function wire_length :: "nat \<Rightarrow> bytes" where
  "wire_length n = (if n < 128 then [of_nat n] else of_nat (n mod 128 + 128) # wire_length (n div 128))"
  by pat_completeness auto
termination
  by (relation "measure id") auto

declare wire_length.simps [simp del]

lemma wire16_bytes: "wire16 i = [ucast (drop_bit 8 i), ucast i]"
proof -
  have l: "unat i < 65536" using unsigned_less [of i, where ?'a = nat] by simp
  have "unat (of_nat (unat i div 256) :: byte) = unat (ucast (drop_bit 8 i) :: byte)"
    using l by (simp add: unsigned_of_nat unsigned_ucast_eq unsigned_drop_bit_eq take_bit_eq_mod drop_bit_eq_div [where ?'a = nat])
  moreover have "unat (of_nat (unat i mod 256) :: byte) = unat (ucast i :: byte)"
    by (simp add: unsigned_of_nat unsigned_ucast_eq take_bit_eq_mod)
  ultimately show ?thesis unfolding wire16_def by (simp only: unsigned_word_eqI list.inject)
qed

section \<open>Readers invert the wire\<close>

text \<open>\<open>g\<close> reads \<open>x\<close> from \<open>b\<close> without a panic and leaves \<open>rest\<close> unread.\<close>

definition yields :: "(ioBuffer, 'a) gom \<Rightarrow> ioBuffer \<Rightarrow> 'a \<Rightarrow> bytes \<Rightarrow> bool" where
  "yields g b x rest \<longleftrightarrow> (\<exists>b'. g b = (Inr x, b') \<and> io_inv b' \<and> unread b' = rest)"

lemma yieldsE:
  assumes "yields g b x rest"
  obtains b' where "g b = (Inr x, b')" and "io_inv b'" and "unread b' = rest"
  using assms unfolding yields_def by blast

lemma getUint8_yields: "io_inv b \<Longrightarrow> unread b = x # rest \<Longrightarrow> yields getUint8 b x rest"
  unfolding yields_def getUint8_def using ReadByte_Cons [of b x rest] io_inv_advance [of b 1] by simp

lemma readExactly_yields:
  assumes io: "io_inv b" and u: "unread b = d @ rest"
  shows "yields (readExactly (length d)) b d rest"
proof (cases "unread b = []")
  case True
  with u have "d = []" "rest = []" by auto
  with True io show ?thesis
    by (simp add: yields_def readExactly_def Read_def unread_empty_iff)
next
  case False
  then show ?thesis
    using Read_nonempty [OF io False, of "length d"] u io_inv_advance [OF io, of "length d"]
    by (simp add: yields_def readExactly_def)
qed

lemma BigEndian_wire16: "BigEndian_Uint16 (ucast (drop_bit 8 i)) (ucast i) = i"
  by (rule bit_word_eqI) (auto simp: BigEndian_Uint16_def bit_simps)

lemma getUint16_yields:
  assumes io: "io_inv b" and u: "unread b = wire16 i @ rest"
  shows "yields getUint16 b i rest"
proof -
  have "yields (readExactly (length (wire16 i))) b (wire16 i) rest"
    by (rule readExactly_yields [OF io u])
  then have r: "yields (readExactly 2) b (wire16 i) rest"
    by (simp add: wire16_bytes eval_nat_numeral)
  have "\<not> Len b < 2" using Len_unread [OF io] u by (simp add: wire16_bytes)
  with r show ?thesis
    by (auto simp: yields_def getUint16_def gbind_def gret_def wire16_bytes BigEndian_wire16)
qed

lemma getString_yields:
  assumes io: "io_inv b" and u: "unread b = wire_string s @ rest" and s: "length s < 65536"
  shows "yields getString b s rest"
proof -
  from u have "unread b = wire16 (of_nat (length s)) @ s @ rest" by (simp add: wire_string_def)
  from getUint16_yields [OF io this] obtain b1
    where b1: "getUint16 b = (Inr (of_nat (length s)), b1)" "io_inv b1" "unread b1 = s @ rest"
    by (rule yieldsE)
  have n: "unat (of_nat (length s) :: 16 word) = length s" "uint (of_nat (length s) :: 16 word) = int (length s)"
    using s by (simp_all add: unat_of_nat uint_nat)
  have "\<not> Len b1 < int (length s)" using Len_unread [OF b1(2)] b1(3) by simp
  then show ?thesis
    using readExactly_yields [OF b1(2,3)] b1(1) n
    by (simp add: yields_def getString_def gbind_def)
qed

section \<open>The remaining length\<close>

lemma nat_split7: "(take_bit 7 n :: nat) OR push_bit 7 (drop_bit 7 n) = n"
proof (rule bit_eqI)
  fix i
  show "bit (take_bit 7 n OR push_bit 7 (drop_bit 7 n)) i = bit n i"
    by (cases "i < 7") (simp_all add: bit_simps)
qed

lemma word_split7: "(of_nat (n mod 128) :: 32 word) OR push_bit 7 (of_nat (n div 128)) = of_nat n"
  using arg_cong [OF nat_split7 [of n], of "of_nat :: nat \<Rightarrow> 32 word"]
  by (simp add: of_nat_or_eq push_bit_of_nat take_bit_eq_mod drop_bit_eq_div)

text \<open>The 128 digits, evaluated.\<close>

lemma low7_all:
  "list_all (\<lambda>k. (of_nat (k + 128) :: byte) AND 0x7f = of_nat k \<and> (of_nat (k + 128) :: byte) AND 0x80 = 0x80 \<and>
     (of_nat k :: byte) AND 0x7f = of_nat k \<and> (of_nat k :: byte) AND 0x80 = 0) [0 ..< 128]"
  by code_simp

lemma low7:
  assumes "k < 128"
  shows "(of_nat (k + 128) :: byte) AND 0x7f = of_nat k" and "(of_nat (k + 128) :: byte) AND 0x80 = 0x80"
    and "(of_nat k :: byte) AND 0x7f = of_nat k" and "(of_nat k :: byte) AND 0x80 = 0"
  using low7_all assms by (simp_all add: list_all_iff)

lemma ucast_low7: "k < 128 \<Longrightarrow> (ucast (of_nat k :: byte) :: 32 word) = of_nat k"
  by (simp add: unsigned_of_nat take_bit_nat_eq_self)

text \<open>
  Reading back a length: from \<open>v\<close> collected so far, the loop adds the bits of \<open>n\<close> at position \<open>shift\<close>, provided
  the iterations left are enough for its digits.
\<close>

lemma decodeLength_loop_wire:
  assumes "io_inv b" and "unread b = wire_length n @ rest" and "n < 128 ^ Suc k"
  shows "yields (decodeLength_loop (Suc k) v shift) b (v OR push_bit shift (of_nat n)) rest"
  using assms
proof (induction k arbitrary: b n v shift)
  case 0
  then have u: "unread b = of_nat n # rest" and n: "n < 128" by (simp_all add: wire_length.simps [of n])
  from ReadByte_Cons [OF 0(1) u] io_inv_advance [OF 0(1), of 1] u
  show ?case by (simp add: yields_def low7 [OF n] ucast_low7 [OF n])
next
  case (Suc k)
  show ?case
  proof (cases "n < 128")
    case True
    then have u: "unread b = of_nat n # rest" using Suc.prems(2) by (simp add: wire_length.simps [of n])
    from ReadByte_Cons [OF Suc.prems(1) u] io_inv_advance [OF Suc.prems(1), of 1] u
    show ?thesis by (simp add: yields_def low7 [OF True] ucast_low7 [OF True])
  next
    case False
    let ?k = "n mod 128"
    have k: "?k < 128" by simp
    have u: "unread b = of_nat (?k + 128) # wire_length (n div 128) @ rest"
      using Suc.prems(2) False by (simp add: wire_length.simps [of n])
    let ?b = "b\<lparr>off := off b + 1\<rparr>"
    have b1: "io_inv ?b" "unread ?b = wire_length (n div 128) @ rest"
      using io_inv_advance [OF Suc.prems(1), of 1] u by simp_all
    have "n div 128 < 128 ^ Suc k" using Suc.prems(3) by (simp add: div_less_iff_less_mult mult.commute)
    from Suc.IH [OF b1 this, of "v OR push_bit shift (of_nat ?k)" "shift + 7"]
    have IH: "yields (decodeLength_loop (Suc k) (v OR push_bit shift (of_nat ?k)) (shift + 7)) ?b
            (v OR push_bit shift (of_nat ?k OR push_bit 7 (of_nat (n div 128)))) rest"
      by (simp only: push_bit_or or.assoc push_bit_push_bit add.commute)
    have "decodeLength_loop (Suc (Suc k)) v shift b = decodeLength_loop (Suc k) (v OR push_bit shift (of_nat ?k)) (shift + 7) ?b"
      by (subst decodeLength_loop.simps(2))
        (simp only: ReadByte_Cons [OF Suc.prems(1) u] low7 [OF k] ucast_low7 [OF k] prod.case sum.case Let_def, simp)
    with IH show ?thesis by (simp only: yields_def word_split7)
  qed
qed

lemma wire_length_not_Nil [simp]: "wire_length n \<noteq> []"
  by (simp add: wire_length.simps [of n])

lemma decodeLength_yields:
  assumes io: "io_inv b" and u: "unread b = wire_length n @ rest" and n: "n < 268435456"
  shows "yields decodeLength b (of_nat n) rest"
proof -
  have "0 < length (unread b)" by (simp add: u)
  then have "0 < Len b" unfolding Len_unread [OF io] by linarith
  moreover have "n < 128 ^ Suc 3" using n by simp
  from decodeLength_loop_wire [OF io u this, of 0 0]
  have "yields (decodeLength_loop 4 0 0) b (of_nat n) rest" by (simp add: numeral_eq_Suc)
  ultimately show ?thesis by (simp add: yields_def decodeLength_def)
qed

text \<open>A positive \<open>int32\<close> as a natural number.\<close>

lemma sint_of_nat32: "m < 2147483648 \<Longrightarrow> sint (of_nat m :: 32 word) = int m"
  by (simp add: signed_of_nat signed_take_bit_int_eq_self)

lemma shift7_of_nat:
  assumes "m < 2147483648"
  shows "signed_drop_bit 7 (of_nat m :: 32 word) = of_nat (m div 128)"
proof (rule signed_word_eqI)
  have "sint (signed_drop_bit 7 (of_nat m :: 32 word)) = int (m div 128)"
    using assms by (simp add: sint_signed_drop_bit_eq sint_of_nat32 drop_bit_eq_div zdiv_int)
  also have "\<dots> = sint (of_nat (m div 128) :: 32 word)"
    using assms by (subst sint_of_nat32) auto
  finally show "sint (signed_drop_bit 7 (of_nat m :: 32 word)) = sint (of_nat (m div 128) :: 32 word)" .
qed

lemma digit_of_nat:
  "(of_nat m :: 32 word) AND 0x7f = of_nat (m mod 128)"
  "(ucast ((of_nat m :: 32 word) AND 0x7f) :: byte) = of_nat (m mod 128)"
  "(ucast ((of_nat m :: 32 word) AND 0x7f OR 0x80) :: byte) = of_nat (m mod 128 + 128)"
proof -
  have "(of_nat m :: 32 word) AND mask 7 = of_nat (m mod 128)"
    by (simp only: take_bit_eq_mask [symmetric] take_bit_of_nat) (simp add: take_bit_eq_mod)
  then show d: "(of_nat m :: 32 word) AND 0x7f = of_nat (m mod 128)" by (simp add: mask_eq_exp_minus_1)
  have lt: "m mod 128 < 128" by simp
  show "(ucast ((of_nat m :: 32 word) AND 0x7f) :: byte) = of_nat (m mod 128)"
    unfolding d by (simp add: unsigned_of_nat take_bit_nat_eq_self)
  have "list_all (\<lambda>k. (ucast ((of_nat k :: 32 word) OR 0x80) :: byte) = of_nat (k + 128)) [0 ..< 128]"
    by code_simp
  with lt show "(ucast ((of_nat m :: 32 word) AND 0x7f OR 0x80) :: byte) = of_nat (m mod 128 + 128)"
    unfolding d by (simp add: list_all_iff)
qed

lemma encodeLength_loop_emits:
  "0 < m \<Longrightarrow> m < 2147483648 \<Longrightarrow> sink.emits (encodeLength_loop (of_nat m)) (wire_length m)"
proof (induction m rule: less_induct)
  case (less m)
  have s: "0 < sint (of_nat m :: 32 word)" using less.prems by (simp add: sint_of_nat32)
  show ?case
  proof (cases "m < 128")
    case True
    then have "wire_length m = [of_nat m]" by (simp add: wire_length.simps [of m])
    moreover have "encodeLength_loop (of_nat m) w = (case WriteByte (of_nat m) w of Inl e \<Rightarrow> Inl e | Inr w' \<Rightarrow> Inr w')" for w
      using True s less.prems digit_of_nat(2) [of m]
      by (subst encodeLength_loop.simps)
        (simp add: shift7_of_nat encodeLength_loop.simps [of 0] Let_def split: sum.splits)
    moreover have "(case r of Inl e \<Rightarrow> Inl e | Inr w' \<Rightarrow> Inr w') = r" for r :: "wbuf go" by (cases r) auto
    ultimately show ?thesis using sink.emits_putb [of "of_nat m"] by (simp add: sink.emits_def)
  next
    case False
    then have "0 < m div 128" "m div 128 < m" "m div 128 < 2147483648" using less.prems by auto
    with less.IH have IH: "sink.emits (encodeLength_loop (of_nat (m div 128))) (wire_length (m div 128))" by blast
    have s': "0 < sint (of_nat (m div 128) :: 32 word)"
      using \<open>0 < m div 128\<close> \<open>m div 128 < 2147483648\<close> by (subst sint_of_nat32) auto
    have wl: "wire_length m = of_nat (m mod 128 + 128) # wire_length (m div 128)"
      using False by (simp add: wire_length.simps [of m])
    have eq: "encodeLength_loop (of_nat m) w =
        seq_go [WriteByte (of_nat (m mod 128 + 128)), encodeLength_loop (of_nat (m div 128))] w" for w
      using s s' less.prems(2)
      by (subst encodeLength_loop.simps) (simp only: shift7_of_nat if_True Let_def digit_of_nat(3) seq_go.simps
          split: sum.splits, simp)
    have "sink.emits (seq_go [WriteByte (of_nat (m mod 128 + 128)), encodeLength_loop (of_nat (m div 128))])
            (concat [[of_nat (m mod 128 + 128)], wire_length (m div 128)])"
      by (rule sink.emits_seq) (simp add: sink.emits_putb IH)
    then show ?thesis by (simp add: wl eq sink.emits_def)
  qed
qed

lemma encodeLength_emits: "m < 2147483648 \<Longrightarrow> sink.emits (encodeLength (of_nat m)) (wire_length m)"
proof (cases "m = 0")
  case True
  then show ?thesis
    using sink.emits_putb [of 0] by (simp add: sink.emits_def encodeLength_def wire_length.simps)
next
  case False
  assume m: "m < 2147483648"
  with False have "(of_nat m :: 32 word) \<noteq> 0" using sint_of_nat32 [OF m] by auto
  then show ?thesis using encodeLength_loop_emits [of m] False m by (simp add: sink.emits_def encodeLength_def)
qed

section \<open>Writers produce the wire\<close>

lemma putUint16_emits: "sink.emits (putUint16 i) (wire16 i)"
proof -
  have "sink.emits (putUint16 i) (concat [[ucast (drop_bit 8 i)], [ucast i]])"
    unfolding putUint16_def by (rule sink.emits_seq) (simp add: sink.emits_putb)
  then show ?thesis by (simp add: wire16_bytes)
qed

lemma putString_emits: "s \<noteq> [] \<Longrightarrow> sink.emits (putString s) (wire_string s)"
proof -
  assume s: "s \<noteq> []"
  have "sink.emits (seq_go [putUint16 (of_nat (length s)), sink_write s])
          (concat [wire16 (of_nat (length s)), s])"
    by (rule sink.emits_seq) (simp add: putUint16_emits sink.emits_put)
  moreover have "putString s w = seq_go [putUint16 (of_nat (length s)), sink_write s] w" for w
    using s by (simp add: putString_def split: sum.splits)
  ultimately show ?thesis by (simp add: wire_string_def sink.emits_def)
qed

lemma putString_empty:
  assumes "wb_inv w"
  shows "putString [] w = Inl (PanicErr (GoErr ''Nil utf8 string ''))"
proof -
  obtain w' where "putUint16 0 w = Inr w'"
    using putUint16_emits [of 0] assms by (rule sink.emits_run)
  then show ?thesis by (simp add: putString_def)
qed

end
