(* ===== verification/Mqtt_Message.thy ===== *)
theory Mqtt_Message
  imports Mqtt_Wire
begin

text \<open>
  The fourteen message types of \<open>pkg/protocol/mqtt/message\<close>: the fixed header, and for every type its fields, the
  three decoding methods (\<open>DecodeFixedHeader\<close>, \<open>DecodeVariableHeader\<close>, \<open>DecodePayload\<close>) and \<open>Encode\<close>.

  A Go struct that embeds \<open>Header\<close> is a record that extends the record \<open>Header\<close>, so the promoted fields keep
  their names. A decoding method runs on the message and the buffer; a panic leaves the fields assigned so far.
  An encoder returns the buffer it built (or an error), the message with the header fields it has set, and the byte
  pool it allocated from. Since \<open>Write\<close> and \<open>WriteByte\<close> of the buffer never return an error, the branches of the
  source that test for one are not taken.
\<close>

unbundle bit_operations_syntax

section \<open>Types\<close>

record Header =
  msgType :: byte
  msgFlag :: byte
  remainingLength :: "32 word"

definition Type_IsValid :: "byte \<Rightarrow> bool" where
  "Type_IsValid mt \<longleftrightarrow> 1 \<le> mt \<and> mt < 15"

definition Qos_IsValid :: "byte \<Rightarrow> bool" where
  "Qos_IsValid q \<longleftrightarrow> q < 3"

definition Qos_HasId :: "byte \<Rightarrow> bool" where
  "Qos_HasId q \<longleftrightarrow> q = 1 \<or> q = 2"

definition ReturnCode_IsValid :: "byte \<Rightarrow> bool" where
  "ReturnCode_IsValid rc \<longleftrightarrow> 0 \<le> rc \<and> rc < 6"

record Connect = Header +
  ProtocolName :: bytes
  ProtocolLevel :: byte
  UserNameFlag :: bool
  passwordFlag :: bool
  WillRetain :: bool
  WillQos :: byte
  WillFlag :: bool
  CleanSession :: bool
  KeepAlive :: "16 word"
  ClientId :: bytes
  WillTopic :: bytes
  WillMessage :: bytes
  Username :: bytes
  Password :: bytes

record ConnAck = Header +
  SessionPresentFlag :: bool
  ReturnCode :: byte

text \<open>
  \<open>PubAck\<close>, \<open>PubRec\<close>, \<open>PubRel\<close>, \<open>PubComp\<close> and \<open>UnsubAck\<close> have the same fields; the messages with a packet
  identifier and more extend them.
\<close>

record PacketId = Header +
  PacketIdentifier :: "16 word"

record Publish = PacketId +
  Dup :: bool
  Qos :: byte
  Retain :: bool
  TopicName :: bytes
  Payload :: bytes

record Subscribe = PacketId +
  TopicFilters :: "(bytes \<times> byte) list"

record SubAck = PacketId +
  acks :: "byte list"

record Unsubscribe = PacketId +
  TopicNames :: "bytes list"

datatype Message =
    MConnect Connect | MConnAck ConnAck | MPublish Publish
  | MPubAck PacketId | MPubRec PacketId | MPubRel PacketId | MPubComp PacketId
  | MSubscribe Subscribe | MSubAck SubAck | MUnsubscribe Unsubscribe | MUnsubAck PacketId
  | MPingReq Header | MPingResp Header | MDisconnect Header

section \<open>The fixed header\<close>

definition Header_decode :: "(Header \<times> ioBuffer, unit) gom" where
  "Header_decode =
     gbind (gsnd getUint8) (\<lambda>byte1.
     gbind (gfst (\<lambda>h. h\<lparr>msgType := drop_bit 4 (byte1 AND 0xf0)\<rparr>)) (\<lambda>_.
     gbind (gget (\<lambda>s. msgType (fst s))) (\<lambda>t.
       if \<not> Type_IsValid t then gpanic (PanicErr (GoErr ''Invalid message type ''))
       else gbind (gfst (\<lambda>h. h\<lparr>msgFlag := byte1 AND 0x0f\<rparr>)) (\<lambda>_.
              gassign decodeLength (\<lambda>n h. h\<lparr>remainingLength := n\<rparr>)))))"

definition Header_encode :: "'a Header_scheme \<Rightarrow> byteBufferPool \<Rightarrow> wbuf go" where
  "Header_encode h p =
     seq_go [WriteByte (push_bit 4 (msgType h) OR msgFlag h), encodeLength (remainingLength h)] (NewIoBuffer 0 p)"

definition NewMessage :: "Header \<Rightarrow> Message option" where
  "NewMessage h =
     (let conn = \<lparr>msgType = msgType h, msgFlag = msgFlag h, remainingLength = remainingLength h,
                  ProtocolName = [], ProtocolLevel = 0, UserNameFlag = False, passwordFlag = False,
                  WillRetain = False, WillQos = 0, WillFlag = False, CleanSession = False, KeepAlive = 0,
                  ClientId = [], WillTopic = [], WillMessage = [], Username = [], Password = []\<rparr>;
          pid = \<lparr>msgType = msgType h, msgFlag = msgFlag h, remainingLength = remainingLength h, PacketIdentifier = 0\<rparr>
      in if msgType h = 1 then Some (MConnect conn)
         else if msgType h = 2 then
           Some (MConnAck \<lparr>msgType = msgType h, msgFlag = msgFlag h, remainingLength = remainingLength h,
                           SessionPresentFlag = False, ReturnCode = 0\<rparr>)
         else if msgType h = 3 then
           Some (MPublish (PacketId.extend pid \<lparr>Dup = False, Qos = 0, Retain = False, TopicName = [], Payload = []\<rparr>))
         else if msgType h = 4 then Some (MPubAck pid)
         else if msgType h = 5 then Some (MPubRec pid)
         else if msgType h = 6 then Some (MPubRel pid)
         else if msgType h = 7 then Some (MPubComp pid)
         else if msgType h = 8 then Some (MSubscribe (PacketId.extend pid \<lparr>TopicFilters = []\<rparr>))
         else if msgType h = 9 then Some (MSubAck (PacketId.extend pid \<lparr>acks = []\<rparr>))
         else if msgType h = 10 then Some (MUnsubscribe (PacketId.extend pid \<lparr>TopicNames = []\<rparr>))
         else if msgType h = 11 then Some (MUnsubAck pid)
         else if msgType h = 12 then Some (MPingReq h)
         else if msgType h = 13 then Some (MPingResp h)
         else if msgType h = 14 then Some (MDisconnect h)
         else None)"

section \<open>Decoding\<close>

text \<open>
  \<open>before := buf.Len()\<close>, the reads \<open>g\<close>, \<open>after := buf.Len()\<close> and
  \<open>this.remainingLength -= RemainingLength(before - after)\<close>.
\<close>

definition metered :: "('a Header_scheme \<times> ioBuffer, unit) gom \<Rightarrow> ('a Header_scheme \<times> ioBuffer, unit) gom" where
  "metered g =
     gbind (gsnd (gget Len)) (\<lambda>lenBefore.
     gbind g (\<lambda>_.
     gbind (gsnd (gget Len)) (\<lambda>after.
       gfst (\<lambda>m. m\<lparr>remainingLength := remainingLength m - word_of_int (lenBefore - after)\<rparr>))))"

text \<open>The body the variable headers with a packet identifier share.\<close>

definition decodePacketId :: "('a PacketId_scheme \<times> ioBuffer, unit) gom" where
  "decodePacketId = metered (gassign getUint16 (\<lambda>i m. m\<lparr>PacketIdentifier := i\<rparr>))"

text \<open>\<open>if this.remainingLength == 0 { return true }; return false\<close>.\<close>

definition nothingLeft :: "('a Header_scheme \<times> ioBuffer, bool) gom" where
  "nothingLeft = gget (\<lambda>s. remainingLength (fst s) = 0)"

text \<open>\<open>if int(this.remainingLength) > buf.Len() { return false }\<close>, then the rest of the method.\<close>

definition unlessShort :: "('a Header_scheme \<times> ioBuffer, bool) gom \<Rightarrow> ('a Header_scheme \<times> ioBuffer, bool) gom" where
  "unlessShort g s = (if sint (remainingLength (fst s)) > Len (snd s) then gret False s else g s)"

subsection \<open>CONNECT and CONNACK\<close>

definition setConnectFlags :: "byte \<Rightarrow> Connect \<Rightarrow> Connect" where
  "setConnectFlags flags m = m\<lparr>
     UserNameFlag := flags AND 0x80 > 0,
     passwordFlag := flags AND 0x40 > 0,
     WillRetain := flags AND 0x20 > 0,
     WillQos := drop_bit 3 (flags AND 0x18),
     WillFlag := flags AND 0x04 > 0,
     CleanSession := flags AND 0x02 > 0\<rparr>"

definition Connect_DecodeFixedHeader :: "(Connect \<times> ioBuffer, bool) gom" where
  "Connect_DecodeFixedHeader = gret False"

definition Connect_DecodeVariableHeader :: "(Connect \<times> ioBuffer, bool) gom" where
  "Connect_DecodeVariableHeader =
     gbind (metered (gseq
       [gassign getString (\<lambda>s m. m\<lparr>ProtocolName := s\<rparr>),
        gassign getUint8 (\<lambda>x m. m\<lparr>ProtocolLevel := x\<rparr>),
        gassign getUint8 setConnectFlags,
        gassign getUint16 (\<lambda>k m. m\<lparr>KeepAlive := k\<rparr>)])) (\<lambda>_. gret False)"

definition Connect_DecodePayload :: "(Connect \<times> ioBuffer, bool) gom" where
  "Connect_DecodePayload =
     unlessShort (
       gbind (metered (gseq
         [gassign getString (\<lambda>s m. m\<lparr>ClientId := s\<rparr>),
          gwhen WillFlag (gseq
            [gassign getString (\<lambda>s m. m\<lparr>WillTopic := s\<rparr>),
             gassign getString (\<lambda>s m. m\<lparr>WillMessage := s\<rparr>)]),
          gwhen UserNameFlag (gassign getString (\<lambda>s m. m\<lparr>Username := s\<rparr>)),
          gwhen passwordFlag (gassign getString (\<lambda>s m. m\<lparr>Password := s\<rparr>))])) (\<lambda>_. gret True))"

definition ConnAck_DecodeFixedHeader :: "(ConnAck \<times> ioBuffer, bool) gom" where
  "ConnAck_DecodeFixedHeader = gret False"

definition ConnAck_DecodeVariableHeader :: "(ConnAck \<times> ioBuffer, bool) gom" where
  "ConnAck_DecodeVariableHeader =
     gbind (metered (gseq
       [gassign getUint8 (\<lambda>b1 m. m\<lparr>SessionPresentFlag := b1 AND 0x01 > 0\<rparr>),
        gassign getUint8 (\<lambda>rc m. m\<lparr>ReturnCode := rc\<rparr>),
        gwhen (\<lambda>m. \<not> ReturnCode_IsValid (ReturnCode m)) (gpanic (PanicErr ErrorInvalidMessage))])) (\<lambda>_. gret True)"

text \<open>The payload methods that are \<open>panic("implement me")\<close>.\<close>

definition implementMe :: "('s, bool) gom" where
  "implementMe = gpanic (PanicValue ''implement me'')"

definition ConnAck_DecodePayload :: "(ConnAck \<times> ioBuffer, bool) gom" where
  "ConnAck_DecodePayload = implementMe"

subsection \<open>PUBLISH and its acknowledgements\<close>

definition Publish_DecodeFixedHeader :: "(Publish \<times> ioBuffer, bool) gom" where
  "Publish_DecodeFixedHeader =
     gbind (gfst (\<lambda>m. m\<lparr>Dup := msgFlag m AND 0x08 > 0, Qos := drop_bit 1 (msgFlag m AND 0x06),
                        Retain := msgFlag m AND 0x01 > 0\<rparr>)) (\<lambda>_. gret False)"

definition Publish_DecodeVariableHeader :: "(Publish \<times> ioBuffer, bool) gom" where
  "Publish_DecodeVariableHeader =
     gbind (metered (gseq
       [gassign getString (\<lambda>s m. m\<lparr>TopicName := s\<rparr>),
        gwhen (\<lambda>m. Qos_HasId (Qos m)) (gassign getUint16 (\<lambda>i m. m\<lparr>PacketIdentifier := i\<rparr>))])) (\<lambda>_. nothingLeft)"

text \<open>
  \<open>make([]byte, n)\<close> panics for a negative \<open>n\<close>; the result of \<open>buf.Read\<close> is not looked at, and what it does not fill
  stays zero.
\<close>

definition readPayload :: "32 word \<Rightarrow> (ioBuffer, bytes) gom" where
  "readPayload n b =
     (if sint n < 0 then (Inl (PanicRuntime MakeSlice), b)
      else case Read (nat (sint n)) b of
             ((d, _), b') \<Rightarrow> (Inr (d @ replicate (nat (sint n) - length d) 0), b'))"

definition Publish_DecodePayload :: "(Publish \<times> ioBuffer, bool) gom" where
  "Publish_DecodePayload =
     unlessShort (\<lambda>s.
       gbind (metered (gassign (readPayload (remainingLength (fst s))) (\<lambda>d m. m\<lparr>Payload := d\<rparr>))) (\<lambda>_. gret True) s)"

definition PubAck_DecodeFixedHeader :: "(PacketId \<times> ioBuffer, bool) gom" where
  "PubAck_DecodeFixedHeader = gret False"
definition PubAck_DecodeVariableHeader :: "(PacketId \<times> ioBuffer, bool) gom" where
  "PubAck_DecodeVariableHeader = gbind decodePacketId (\<lambda>_. gret True)"
definition PubAck_DecodePayload :: "(PacketId \<times> ioBuffer, bool) gom" where
  "PubAck_DecodePayload = implementMe"

definition PubRec_DecodeFixedHeader :: "(PacketId \<times> ioBuffer, bool) gom" where
  "PubRec_DecodeFixedHeader = gret False"
definition PubRec_DecodeVariableHeader :: "(PacketId \<times> ioBuffer, bool) gom" where
  "PubRec_DecodeVariableHeader = gbind decodePacketId (\<lambda>_. gret True)"
definition PubRec_DecodePayload :: "(PacketId \<times> ioBuffer, bool) gom" where
  "PubRec_DecodePayload = implementMe"

definition PubRel_DecodeFixedHeader :: "(PacketId \<times> ioBuffer, bool) gom" where
  "PubRel_DecodeFixedHeader = gret False"
definition PubRel_DecodeVariableHeader :: "(PacketId \<times> ioBuffer, bool) gom" where
  "PubRel_DecodeVariableHeader = gbind decodePacketId (\<lambda>_. gret True)"
definition PubRel_DecodePayload :: "(PacketId \<times> ioBuffer, bool) gom" where
  "PubRel_DecodePayload = implementMe"

definition PubComp_DecodeFixedHeader :: "(PacketId \<times> ioBuffer, bool) gom" where
  "PubComp_DecodeFixedHeader = gret False"
definition PubComp_DecodeVariableHeader :: "(PacketId \<times> ioBuffer, bool) gom" where
  "PubComp_DecodeVariableHeader = gbind decodePacketId (\<lambda>_. gret True)"
definition PubComp_DecodePayload :: "(PacketId \<times> ioBuffer, bool) gom" where
  "PubComp_DecodePayload = implementMe"

definition UnsubAck_DecodeFixedHeader :: "(PacketId \<times> ioBuffer, bool) gom" where
  "UnsubAck_DecodeFixedHeader = gret False"
definition UnsubAck_DecodeVariableHeader :: "(PacketId \<times> ioBuffer, bool) gom" where
  "UnsubAck_DecodeVariableHeader = gbind decodePacketId (\<lambda>_. gret True)"
definition UnsubAck_DecodePayload :: "(PacketId \<times> ioBuffer, bool) gom" where
  "UnsubAck_DecodePayload = implementMe"

subsection \<open>SUBSCRIBE, SUBACK, UNSUBSCRIBE\<close>

text \<open>
  The payload methods read one element when there are bytes left, not one after the other until there are
  none.
\<close>

definition Subscribe_DecodeFixedHeader :: "(Subscribe \<times> ioBuffer, bool) gom" where
  "Subscribe_DecodeFixedHeader = gret False"

definition Subscribe_DecodeVariableHeader :: "(Subscribe \<times> ioBuffer, bool) gom" where
  "Subscribe_DecodeVariableHeader = gbind decodePacketId (\<lambda>_. nothingLeft)"

definition getTopicFilter :: "(ioBuffer, bytes \<times> byte) gom" where
  "getTopicFilter = gbind getString (\<lambda>s. gbind getUint8 (\<lambda>q. gret (s, q)))"

definition Subscribe_DecodePayload :: "(Subscribe \<times> ioBuffer, bool) gom" where
  "Subscribe_DecodePayload =
     unlessShort (\<lambda>s.
       gbind (if sint (remainingLength (fst s)) > 0
              then gassign getTopicFilter (\<lambda>f m. m\<lparr>TopicFilters := [f]\<rparr>)
              else gfst (\<lambda>m. m\<lparr>TopicFilters := []\<rparr>)) (\<lambda>_. gret True) s)"

definition SubAck_DecodeFixedHeader :: "(SubAck \<times> ioBuffer, bool) gom" where
  "SubAck_DecodeFixedHeader = gret False"

definition SubAck_DecodeVariableHeader :: "(SubAck \<times> ioBuffer, bool) gom" where
  "SubAck_DecodeVariableHeader = gbind decodePacketId (\<lambda>_. nothingLeft)"

definition SubAck_DecodePayload :: "(SubAck \<times> ioBuffer, bool) gom" where
  "SubAck_DecodePayload =
     unlessShort (\<lambda>s.
       gbind (if sint (remainingLength (fst s)) > 0
              then gassign getUint8 (\<lambda>a m. m\<lparr>acks := [a]\<rparr>)
              else gfst (\<lambda>m. m\<lparr>acks := []\<rparr>)) (\<lambda>_. gret True) s)"

definition Unsubscribe_DecodeFixedHeader :: "(Unsubscribe \<times> ioBuffer, bool) gom" where
  "Unsubscribe_DecodeFixedHeader = gret False"

definition Unsubscribe_DecodeVariableHeader :: "(Unsubscribe \<times> ioBuffer, bool) gom" where
  "Unsubscribe_DecodeVariableHeader = gbind decodePacketId (\<lambda>_. nothingLeft)"

definition Unsubscribe_DecodePayload :: "(Unsubscribe \<times> ioBuffer, bool) gom" where
  "Unsubscribe_DecodePayload =
     unlessShort (\<lambda>s.
       gbind (if sint (remainingLength (fst s)) > 0
              then gassign getString (\<lambda>t m. m\<lparr>TopicNames := [t]\<rparr>)
              else gfst (\<lambda>m. m\<lparr>TopicNames := []\<rparr>)) (\<lambda>_. gret True) s)"

subsection \<open>Messages without a body\<close>

definition PingReq_DecodeFixedHeader :: "(Header \<times> ioBuffer, bool) gom" where
  "PingReq_DecodeFixedHeader = gret True"
definition PingReq_DecodeVariableHeader :: "(Header \<times> ioBuffer, bool) gom" where
  "PingReq_DecodeVariableHeader = implementMe"
definition PingReq_DecodePayload :: "(Header \<times> ioBuffer, bool) gom" where
  "PingReq_DecodePayload = implementMe"

definition PingResp_DecodeFixedHeader :: "(Header \<times> ioBuffer, bool) gom" where
  "PingResp_DecodeFixedHeader = gret True"
definition PingResp_DecodeVariableHeader :: "(Header \<times> ioBuffer, bool) gom" where
  "PingResp_DecodeVariableHeader = implementMe"
definition PingResp_DecodePayload :: "(Header \<times> ioBuffer, bool) gom" where
  "PingResp_DecodePayload = implementMe"

definition Disconnect_DecodeFixedHeader :: "(Header \<times> ioBuffer, bool) gom" where
  "Disconnect_DecodeFixedHeader = gret True"
definition Disconnect_DecodeVariableHeader :: "(Header \<times> ioBuffer, bool) gom" where
  "Disconnect_DecodeVariableHeader = implementMe"
definition Disconnect_DecodePayload :: "(Header \<times> ioBuffer, bool) gom" where
  "Disconnect_DecodePayload = implementMe"

subsection \<open>The interface \<open>Message\<close>\<close>

text \<open>A method of one type, run on a message that holds it.\<close>

definition on_msg :: "('m \<Rightarrow> Message) \<Rightarrow> ('m \<times> ioBuffer, bool) gom \<Rightarrow> 'm \<Rightarrow> ioBuffer \<Rightarrow> bool go \<times> (Message \<times> ioBuffer)" where
  "on_msg C f m b = (case f (m, b) of (r, (m', b')) \<Rightarrow> (r, (C m', b')))"

fun DecodeFixedHeader :: "(Message \<times> ioBuffer, bool) gom" where
  "DecodeFixedHeader (MConnect m, b) = on_msg MConnect Connect_DecodeFixedHeader m b"
| "DecodeFixedHeader (MConnAck m, b) = on_msg MConnAck ConnAck_DecodeFixedHeader m b"
| "DecodeFixedHeader (MPublish m, b) = on_msg MPublish Publish_DecodeFixedHeader m b"
| "DecodeFixedHeader (MPubAck m, b) = on_msg MPubAck PubAck_DecodeFixedHeader m b"
| "DecodeFixedHeader (MPubRec m, b) = on_msg MPubRec PubRec_DecodeFixedHeader m b"
| "DecodeFixedHeader (MPubRel m, b) = on_msg MPubRel PubRel_DecodeFixedHeader m b"
| "DecodeFixedHeader (MPubComp m, b) = on_msg MPubComp PubComp_DecodeFixedHeader m b"
| "DecodeFixedHeader (MSubscribe m, b) = on_msg MSubscribe Subscribe_DecodeFixedHeader m b"
| "DecodeFixedHeader (MSubAck m, b) = on_msg MSubAck SubAck_DecodeFixedHeader m b"
| "DecodeFixedHeader (MUnsubscribe m, b) = on_msg MUnsubscribe Unsubscribe_DecodeFixedHeader m b"
| "DecodeFixedHeader (MUnsubAck m, b) = on_msg MUnsubAck UnsubAck_DecodeFixedHeader m b"
| "DecodeFixedHeader (MPingReq m, b) = on_msg MPingReq PingReq_DecodeFixedHeader m b"
| "DecodeFixedHeader (MPingResp m, b) = on_msg MPingResp PingResp_DecodeFixedHeader m b"
| "DecodeFixedHeader (MDisconnect m, b) = on_msg MDisconnect Disconnect_DecodeFixedHeader m b"

fun DecodeVariableHeader :: "(Message \<times> ioBuffer, bool) gom" where
  "DecodeVariableHeader (MConnect m, b) = on_msg MConnect Connect_DecodeVariableHeader m b"
| "DecodeVariableHeader (MConnAck m, b) = on_msg MConnAck ConnAck_DecodeVariableHeader m b"
| "DecodeVariableHeader (MPublish m, b) = on_msg MPublish Publish_DecodeVariableHeader m b"
| "DecodeVariableHeader (MPubAck m, b) = on_msg MPubAck PubAck_DecodeVariableHeader m b"
| "DecodeVariableHeader (MPubRec m, b) = on_msg MPubRec PubRec_DecodeVariableHeader m b"
| "DecodeVariableHeader (MPubRel m, b) = on_msg MPubRel PubRel_DecodeVariableHeader m b"
| "DecodeVariableHeader (MPubComp m, b) = on_msg MPubComp PubComp_DecodeVariableHeader m b"
| "DecodeVariableHeader (MSubscribe m, b) = on_msg MSubscribe Subscribe_DecodeVariableHeader m b"
| "DecodeVariableHeader (MSubAck m, b) = on_msg MSubAck SubAck_DecodeVariableHeader m b"
| "DecodeVariableHeader (MUnsubscribe m, b) = on_msg MUnsubscribe Unsubscribe_DecodeVariableHeader m b"
| "DecodeVariableHeader (MUnsubAck m, b) = on_msg MUnsubAck UnsubAck_DecodeVariableHeader m b"
| "DecodeVariableHeader (MPingReq m, b) = on_msg MPingReq PingReq_DecodeVariableHeader m b"
| "DecodeVariableHeader (MPingResp m, b) = on_msg MPingResp PingResp_DecodeVariableHeader m b"
| "DecodeVariableHeader (MDisconnect m, b) = on_msg MDisconnect Disconnect_DecodeVariableHeader m b"

fun DecodePayload :: "(Message \<times> ioBuffer, bool) gom" where
  "DecodePayload (MConnect m, b) = on_msg MConnect Connect_DecodePayload m b"
| "DecodePayload (MConnAck m, b) = on_msg MConnAck ConnAck_DecodePayload m b"
| "DecodePayload (MPublish m, b) = on_msg MPublish Publish_DecodePayload m b"
| "DecodePayload (MPubAck m, b) = on_msg MPubAck PubAck_DecodePayload m b"
| "DecodePayload (MPubRec m, b) = on_msg MPubRec PubRec_DecodePayload m b"
| "DecodePayload (MPubRel m, b) = on_msg MPubRel PubRel_DecodePayload m b"
| "DecodePayload (MPubComp m, b) = on_msg MPubComp PubComp_DecodePayload m b"
| "DecodePayload (MSubscribe m, b) = on_msg MSubscribe Subscribe_DecodePayload m b"
| "DecodePayload (MSubAck m, b) = on_msg MSubAck SubAck_DecodePayload m b"
| "DecodePayload (MUnsubscribe m, b) = on_msg MUnsubscribe Unsubscribe_DecodePayload m b"
| "DecodePayload (MUnsubAck m, b) = on_msg MUnsubAck UnsubAck_DecodePayload m b"
| "DecodePayload (MPingReq m, b) = on_msg MPingReq PingReq_DecodePayload m b"
| "DecodePayload (MPingResp m, b) = on_msg MPingResp PingResp_DecodePayload m b"
| "DecodePayload (MDisconnect m, b) = on_msg MDisconnect Disconnect_DecodePayload m b"

section \<open>Encoding\<close>

text \<open>
  \<open>bufAll := this.Header.encode()\<close> and \<open>bufAll.Write(buf.Bytes())\<close>.
\<close>

definition frame :: "'a Header_scheme \<Rightarrow> wbuf \<Rightarrow> wbuf go" where
  "frame h w =
     (case Header_encode h (fst w) of
        Inl e \<Rightarrow> Inl e
      | Inr all \<Rightarrow> (case Bytes (snd w) of Inl e \<Rightarrow> Inl e | Inr d \<Rightarrow> sink_write d all))"

text \<open>
  The end of an encoder, once the body is in \<open>buf\<close>: the remaining length is set, checked by the encoders that do so
  (\<open>check\<close>), and the frame is built.
\<close>

definition finish :: "bool \<Rightarrow> 'a Header_scheme \<Rightarrow> wbuf go \<Rightarrow> ((go_error + wbuf) \<times> 'a Header_scheme) go" where
  "finish check m body =
     (case body of
        Inl e \<Rightarrow> Inl e
      | Inr w \<Rightarrow>
          (let m' = m\<lparr>remainingLength := word_of_int (Len (snd w))\<rparr> in
           if check \<and> \<not> RemainingLength_IsValid (remainingLength m') then Inr (Inl ErrorInvalidMessage, m')
           else (case frame m' w of Inl e \<Rightarrow> Inl e | Inr all \<Rightarrow> Inr (Inr all, m'))))"

text \<open>A write under an \<open>if\<close>.\<close>

definition write_if :: "bool \<Rightarrow> (wbuf \<Rightarrow> wbuf go) \<Rightarrow> wbuf \<Rightarrow> wbuf go" where
  "write_if c f = (if c then f else Inr)"

definition connectFlags :: "Connect \<Rightarrow> byte" where
  "connectFlags m =
     push_bit 7 (boolToByte (UserNameFlag m)) OR push_bit 6 (boolToByte (passwordFlag m)) OR
     push_bit 5 (boolToByte (WillRetain m)) OR push_bit 3 (WillQos m) OR
     push_bit 2 (boolToByte (WillFlag m)) OR push_bit 1 (boolToByte (CleanSession m))"

definition Connect_Encode :: "Connect \<Rightarrow> byteBufferPool \<Rightarrow> ((go_error + wbuf) \<times> Connect) go" where
  "Connect_Encode m p =
     (if \<not> Qos_IsValid (WillQos m) then Inr (Inl ErrorInvalidMessage, m)
      else finish True m (seq_go
        [putString (ProtocolName m),
         WriteByte (ProtocolLevel m),
         WriteByte (connectFlags m),
         putUint16 (KeepAlive m),
         putString (ClientId m),
         write_if (WillFlag m) (seq_go [putString (WillTopic m), putString (WillMessage m)]),
         write_if (UserNameFlag m) (putString (Username m)),
         write_if (passwordFlag m) (putString (Password m))] (NewIoBuffer 0 p)))"

definition ConnAck_Encode :: "ConnAck \<Rightarrow> byteBufferPool \<Rightarrow> ((go_error + wbuf) \<times> ConnAck) go" where
  "ConnAck_Encode m p =
     finish True m (seq_go [WriteByte (boolToByte (SessionPresentFlag m)), WriteByte (ReturnCode m)] (NewIoBuffer 0 p))"

text \<open>
  A nil payload and an empty one are both the empty list: \<open>Write\<close> of no bytes leaves the content unchanged. The
  flags are set after the body has been written, which does not read them.
\<close>

definition publishFlags :: "Publish \<Rightarrow> byte" where
  "publishFlags m = push_bit 3 (boolToByte (Dup m)) OR push_bit 1 (Qos m) OR boolToByte (Retain m)"

definition Publish_Encode :: "Publish \<Rightarrow> byteBufferPool \<Rightarrow> ((go_error + wbuf) \<times> Publish) go" where
  "Publish_Encode m p =
     finish False (m\<lparr>msgFlag := publishFlags m\<rparr>) (seq_go
       [putString (TopicName m),
        write_if (Qos_HasId (Qos m)) (putUint16 (PacketIdentifier m)),
        write_if (Payload m \<noteq> []) (sink_write (Payload m))] (NewIoBuffer 0 p))"

definition encodePacketId :: "'a PacketId_scheme \<Rightarrow> byteBufferPool \<Rightarrow> ((go_error + wbuf) \<times> 'a PacketId_scheme) go" where
  "encodePacketId m p = finish False m (putUint16 (PacketIdentifier m) (NewIoBuffer 0 p))"

definition PubAck_Encode :: "PacketId \<Rightarrow> byteBufferPool \<Rightarrow> ((go_error + wbuf) \<times> PacketId) go" where
  "PubAck_Encode = encodePacketId"
definition PubRec_Encode :: "PacketId \<Rightarrow> byteBufferPool \<Rightarrow> ((go_error + wbuf) \<times> PacketId) go" where
  "PubRec_Encode = encodePacketId"
definition PubRel_Encode :: "PacketId \<Rightarrow> byteBufferPool \<Rightarrow> ((go_error + wbuf) \<times> PacketId) go" where
  "PubRel_Encode = encodePacketId"
definition PubComp_Encode :: "PacketId \<Rightarrow> byteBufferPool \<Rightarrow> ((go_error + wbuf) \<times> PacketId) go" where
  "PubComp_Encode = encodePacketId"
definition UnsubAck_Encode :: "PacketId \<Rightarrow> byteBufferPool \<Rightarrow> ((go_error + wbuf) \<times> PacketId) go" where
  "UnsubAck_Encode = encodePacketId"

definition Subscribe_Encode :: "Subscribe \<Rightarrow> byteBufferPool \<Rightarrow> ((go_error + wbuf) \<times> Subscribe) go" where
  "Subscribe_Encode m p =
     finish False m (seq_go
       [putUint16 (PacketIdentifier m),
        seq_go (map (\<lambda>(t, q). seq_go [putString t, WriteByte q]) (TopicFilters m))] (NewIoBuffer 0 p))"

definition SubAck_Encode :: "SubAck \<Rightarrow> byteBufferPool \<Rightarrow> ((go_error + wbuf) \<times> SubAck) go" where
  "SubAck_Encode m p =
     finish False m (seq_go [putUint16 (PacketIdentifier m), seq_go (map WriteByte (acks m))] (NewIoBuffer 0 p))"

text \<open>The topic names are not written.\<close>

definition Unsubscribe_Encode :: "Unsubscribe \<Rightarrow> byteBufferPool \<Rightarrow> ((go_error + wbuf) \<times> Unsubscribe) go" where
  "Unsubscribe_Encode = encodePacketId"

definition PingReq_Encode :: "Header \<Rightarrow> byteBufferPool \<Rightarrow> ((go_error + wbuf) \<times> Header) go" where
  "PingReq_Encode m p = (case Header_encode m p of Inl e \<Rightarrow> Inl e | Inr w \<Rightarrow> Inr (Inr w, m))"
definition PingResp_Encode :: "Header \<Rightarrow> byteBufferPool \<Rightarrow> ((go_error + wbuf) \<times> Header) go" where
  "PingResp_Encode m p = (case Header_encode m p of Inl e \<Rightarrow> Inl e | Inr w \<Rightarrow> Inr (Inr w, m))"
definition Disconnect_Encode :: "Header \<Rightarrow> byteBufferPool \<Rightarrow> ((go_error + wbuf) \<times> Header) go" where
  "Disconnect_Encode m p = (case Header_encode m p of Inl e \<Rightarrow> Inl e | Inr w \<Rightarrow> Inr (Inr w, m))"

definition as_msg :: "('m \<Rightarrow> Message) \<Rightarrow> ((go_error + wbuf) \<times> 'm) go \<Rightarrow> ((go_error + wbuf) \<times> Message) go" where
  "as_msg C r = (case r of Inl e \<Rightarrow> Inl e | Inr (x, m) \<Rightarrow> Inr (x, C m))"

fun Encode :: "Message \<Rightarrow> byteBufferPool \<Rightarrow> ((go_error + wbuf) \<times> Message) go" where
  "Encode (MConnect m) p = as_msg MConnect (Connect_Encode m p)"
| "Encode (MConnAck m) p = as_msg MConnAck (ConnAck_Encode m p)"
| "Encode (MPublish m) p = as_msg MPublish (Publish_Encode m p)"
| "Encode (MPubAck m) p = as_msg MPubAck (PubAck_Encode m p)"
| "Encode (MPubRec m) p = as_msg MPubRec (PubRec_Encode m p)"
| "Encode (MPubRel m) p = as_msg MPubRel (PubRel_Encode m p)"
| "Encode (MPubComp m) p = as_msg MPubComp (PubComp_Encode m p)"
| "Encode (MSubscribe m) p = as_msg MSubscribe (Subscribe_Encode m p)"
| "Encode (MSubAck m) p = as_msg MSubAck (SubAck_Encode m p)"
| "Encode (MUnsubscribe m) p = as_msg MUnsubscribe (Unsubscribe_Encode m p)"
| "Encode (MUnsubAck m) p = as_msg MUnsubAck (UnsubAck_Encode m p)"
| "Encode (MPingReq m) p = as_msg MPingReq (PingReq_Encode m p)"
| "Encode (MPingResp m) p = as_msg MPingResp (PingResp_Encode m p)"
| "Encode (MDisconnect m) p = as_msg MDisconnect (Disconnect_Encode m p)"

section \<open>The wire format\<close>

text \<open>
  The MQTT format of each type of message, as a list of bytes, written from the format and not from the encoder: the number of
  the type, the flags as sums of powers of two, the body, and the frame around it. A PUBLISH has its flags in the fixed header; for
  the other types the four bits are those of the message's header, whose value MQTT prescribes and the code leaves to whoever
  builds the message.
\<close>

fun msg_header :: "Message \<Rightarrow> Header" where
  "msg_header (MConnect m) = Header.truncate m"
| "msg_header (MConnAck m) = Header.truncate m"
| "msg_header (MPublish m) = Header.truncate m"
| "msg_header (MPubAck m) = Header.truncate m"
| "msg_header (MPubRec m) = Header.truncate m"
| "msg_header (MPubRel m) = Header.truncate m"
| "msg_header (MPubComp m) = Header.truncate m"
| "msg_header (MSubscribe m) = Header.truncate m"
| "msg_header (MSubAck m) = Header.truncate m"
| "msg_header (MUnsubscribe m) = Header.truncate m"
| "msg_header (MUnsubAck m) = Header.truncate m"
| "msg_header (MPingReq m) = m"
| "msg_header (MPingResp m) = m"
| "msg_header (MDisconnect m) = m"

fun type_tag :: "Message \<Rightarrow> byte" where
  "type_tag (MConnect m) = 1"
| "type_tag (MConnAck m) = 2"
| "type_tag (MPublish m) = 3"
| "type_tag (MPubAck m) = 4"
| "type_tag (MPubRec m) = 5"
| "type_tag (MPubRel m) = 6"
| "type_tag (MPubComp m) = 7"
| "type_tag (MSubscribe m) = 8"
| "type_tag (MSubAck m) = 9"
| "type_tag (MUnsubscribe m) = 10"
| "type_tag (MUnsubAck m) = 11"
| "type_tag (MPingReq m) = 12"
| "type_tag (MPingResp m) = 13"
| "type_tag (MDisconnect m) = 14"

definition connect_byte :: "Connect \<Rightarrow> byte" where
  "connect_byte m = 128 * of_bool (UserNameFlag m) + 64 * of_bool (passwordFlag m) + 32 * of_bool (WillRetain m) +
     8 * WillQos m + 4 * of_bool (WillFlag m) + 2 * of_bool (CleanSession m)"

definition publish_nibble :: "Publish \<Rightarrow> byte" where
  "publish_nibble m = 8 * of_bool (Dup m) + 2 * Qos m + of_bool (Retain m)"

definition connect_var :: "Connect \<Rightarrow> bytes" where
  "connect_var m = wire_string (ProtocolName m) @ [ProtocolLevel m, connect_byte m] @ wire16 (KeepAlive m)"

definition connect_payload :: "Connect \<Rightarrow> bytes" where
  "connect_payload m = wire_string (ClientId m) @
     (if WillFlag m then wire_string (WillTopic m) @ wire_string (WillMessage m) else []) @
     (if UserNameFlag m then wire_string (Username m) else []) @
     (if passwordFlag m then wire_string (Password m) else [])"

definition publish_var :: "Publish \<Rightarrow> bytes" where
  "publish_var m = wire_string (TopicName m) @ (if Qos m \<noteq> 0 then wire16 (PacketIdentifier m) else [])"

definition wire_filter :: "bytes \<times> byte \<Rightarrow> bytes" where
  "wire_filter f = wire_string (fst f) @ [snd f]"

fun wire_body :: "Message \<Rightarrow> bytes" where
  "wire_body (MConnect m) = connect_var m @ connect_payload m"
| "wire_body (MConnAck m) = [of_bool (SessionPresentFlag m), ReturnCode m]"
| "wire_body (MPublish m) = publish_var m @ Payload m"
| "wire_body (MPubAck m) = wire16 (PacketIdentifier m)"
| "wire_body (MPubRec m) = wire16 (PacketIdentifier m)"
| "wire_body (MPubRel m) = wire16 (PacketIdentifier m)"
| "wire_body (MPubComp m) = wire16 (PacketIdentifier m)"
| "wire_body (MSubscribe m) = wire16 (PacketIdentifier m) @ concat (map wire_filter (TopicFilters m))"
| "wire_body (MSubAck m) = wire16 (PacketIdentifier m) @ acks m"
| "wire_body (MUnsubscribe m) = wire16 (PacketIdentifier m) @ concat (map wire_string (TopicNames m))"
| "wire_body (MUnsubAck m) = wire16 (PacketIdentifier m)"
| "wire_body (MPingReq m) = []"
| "wire_body (MPingResp m) = []"
| "wire_body (MDisconnect m) = []"

fun wire_flag :: "Message \<Rightarrow> byte" where
  "wire_flag (MPublish m) = publish_nibble m"
| "wire_flag m = msgFlag (msg_header m)"

definition wire :: "Message \<Rightarrow> bytes" where
  "wire m = (16 * type_tag m + wire_flag m) # wire_length (length (wire_body m)) @ wire_body m"

text \<open>
  The messages the encoder accepts as they are meant to be sent: strings are not empty and fit their 16-bit
  length, the quality of service is valid, and the body has a remaining length of at most four digits.
\<close>

definition ok_string :: "bytes \<Rightarrow> bool" where
  "ok_string s \<longleftrightarrow> s \<noteq> [] \<and> length s < 65536"

fun ok_fields :: "Message \<Rightarrow> bool" where
  "ok_fields (MConnect m) \<longleftrightarrow>
     Qos_IsValid (WillQos m) \<and> ok_string (ProtocolName m) \<and> ok_string (ClientId m) \<and>
     (WillFlag m \<longrightarrow> ok_string (WillTopic m) \<and> ok_string (WillMessage m)) \<and>
     (UserNameFlag m \<longrightarrow> ok_string (Username m)) \<and> (passwordFlag m \<longrightarrow> ok_string (Password m))"
| "ok_fields (MConnAck m) \<longleftrightarrow> ReturnCode_IsValid (ReturnCode m)"
| "ok_fields (MPublish m) \<longleftrightarrow> Qos_IsValid (Qos m) \<and> ok_string (TopicName m)"
| "ok_fields (MSubscribe m) \<longleftrightarrow> list_all (\<lambda>f. ok_string (fst f)) (TopicFilters m)"
| "ok_fields (MUnsubscribe m) \<longleftrightarrow> list_all ok_string (TopicNames m)"
| "ok_fields (MPingReq m) \<longleftrightarrow> remainingLength m = 0"
| "ok_fields (MPingResp m) \<longleftrightarrow> remainingLength m = 0"
| "ok_fields (MDisconnect m) \<longleftrightarrow> remainingLength m = 0"
| "ok_fields _ \<longleftrightarrow> True"

definition ok_msg :: "Message \<Rightarrow> bool" where
  "ok_msg m \<longleftrightarrow> ok_fields m \<and> length (wire_body m) < 268435456"

text \<open>The header carries the number of its type and a flag of four bits, as \<open>New...\<close> builds it.\<close>

definition ok_header :: "Message \<Rightarrow> bool" where
  "ok_header m \<longleftrightarrow> msgType (msg_header m) = type_tag m \<and> msgFlag (msg_header m) < 16"

text \<open>No topic names in an UNSUBSCRIBE: the encoder writes none.\<close>

fun no_topics :: "Message \<Rightarrow> bool" where
  "no_topics (MUnsubscribe m) \<longleftrightarrow> TopicNames m = []"
| "no_topics m \<longleftrightarrow> True"

section \<open>Flags\<close>

text \<open>The bytes with flags, evaluated on every combination.\<close>

lemma qos_values:
  assumes "Qos_IsValid q"
  shows "q \<in> {0, 1, 2}"
proof -
  have "list_all (\<lambda>k. (of_nat k :: byte) \<in> {0, 1, 2}) [0 ..< 3]" by code_simp
  moreover have "unat q \<in> set [0 ..< 3]"
    using assms by (simp only: Qos_IsValid_def set_upt atLeastLessThan_iff word_less_nat_alt) simp
  ultimately have "(of_nat (unat q) :: byte) \<in> {0, 1, 2}" unfolding list_all_iff by (rule bspec)
  then show ?thesis by simp
qed

lemma connect_flag_bits:
  "\<forall>u p r w c. \<forall>q\<in>{0, 1, 2 :: byte}.
     let f = 128 * of_bool u + 64 * of_bool p + 32 * of_bool r + 8 * q + 4 * of_bool w + 2 * of_bool c
     in f = push_bit 7 (boolToByte u) OR push_bit 6 (boolToByte p) OR push_bit 5 (boolToByte r) OR push_bit 3 q OR
             push_bit 2 (boolToByte w) OR push_bit 1 (boolToByte c) \<and>
        (f AND 0x80 > 0) = u \<and> (f AND 0x40 > 0) = p \<and> (f AND 0x20 > 0) = r \<and> drop_bit 3 (f AND 0x18) = q \<and>
        (f AND 0x04 > 0) = w \<and> (f AND 0x02 > 0) = c"
  by code_simp

lemma publish_flag_bits:
  "\<forall>d r. \<forall>q\<in>{0, 1, 2 :: byte}.
     let f = 8 * of_bool d + 2 * q + of_bool r
     in f = push_bit 3 (boolToByte d) OR push_bit 1 q OR boolToByte r \<and>
        (f AND 0x08 > 0) = d \<and> drop_bit 1 (f AND 0x06) = q \<and> (f AND 0x01 > 0) = r \<and> f < 16"
  by code_simp

lemma connect_flags_back:
  assumes "Qos_IsValid (WillQos x)"
  shows "setConnectFlags (connect_byte x) m = m\<lparr>UserNameFlag := UserNameFlag x, passwordFlag := passwordFlag x,
     WillRetain := WillRetain x, WillQos := WillQos x, WillFlag := WillFlag x, CleanSession := CleanSession x\<rparr>"
    and "connectFlags x = connect_byte x"
  using connect_flag_bits [rule_format, OF qos_values [OF assms], of "UserNameFlag x" "passwordFlag x" "WillRetain x"
      "WillFlag x" "CleanSession x"]
  unfolding setConnectFlags_def connectFlags_def connect_byte_def Let_def by (elim conjE, simp only:)+

lemma publish_flags_back:
  assumes "Qos_IsValid (Qos x)"
  shows "(publish_nibble x AND 0x08 > 0) = Dup x" and "drop_bit 1 (publish_nibble x AND 0x06) = Qos x"
    and "(publish_nibble x AND 0x01 > 0) = Retain x" and "publish_nibble x < 16" and "publishFlags x = publish_nibble x"
  using publish_flag_bits [rule_format, OF qos_values [OF assms], of "Dup x" "Retain x"]
  unfolding publishFlags_def publish_nibble_def Let_def by (elim conjE, simp only:)+

lemma HasId_valid: "Qos_IsValid q \<Longrightarrow> Qos_HasId q \<longleftrightarrow> q \<noteq> 0"
  using qos_values [of q] by (auto simp: Qos_HasId_def)

lemma nibbles_all:
  "list_all (\<lambda>t. list_all (\<lambda>f. push_bit 4 (of_nat t) OR of_nat f = (16 * of_nat t + of_nat f :: byte) \<and>
     drop_bit 4 ((16 * of_nat t + of_nat f) AND 0xf0) = (of_nat t :: byte) \<and>
     (16 * of_nat t + of_nat f) AND 0x0f = (of_nat f :: byte)) [0 ..< 16]) [0 ..< 16]"
  by code_simp

lemma nibbles:
  assumes "(t :: byte) < 16" and "(f :: byte) < 16"
  shows "push_bit 4 t OR f = 16 * t + f" and "drop_bit 4 ((16 * t + f) AND 0xf0) = t" and "(16 * t + f) AND 0x0f = f"
proof -
  have in16: "unat x \<in> set [0 ..< 16]" if "(x :: byte) < 16" for x
    using that by (simp only: set_upt atLeastLessThan_iff word_less_nat_alt) simp
  from nibbles_all [unfolded list_all_iff, THEN bspec, OF in16 [OF assms(1)], THEN bspec, OF in16 [OF assms(2)]]
  show "push_bit 4 t OR f = 16 * t + f" and "drop_bit 4 ((16 * t + f) AND 0xf0) = t" and "(16 * t + f) AND 0x0f = f"
    by (simp_all only: of_nat_unat ucast_id)
qed

lemma type_tag_valid: "Type_IsValid (type_tag m)" "type_tag m < 16"
  by (cases m; simp add: Type_IsValid_def)+

lemma wire_flag_less: "ok_msg m \<Longrightarrow> ok_header m \<Longrightarrow> wire_flag m < 16"
  by (cases m) (auto simp: ok_header_def ok_msg_def publish_flags_back)

section \<open>Encoders write the wire format\<close>

lemma Header_encode_wire:
  assumes p: "pool_inv p" and n: "remainingLength h = of_nat n" "n < 2147483648"
  obtains w where "Header_encode h p = Inr w" and "wb_inv w"
    and "content w = (push_bit 4 (msgType h) OR msgFlag h) # wire_length n"
proof -
  have "sink.emits (seq_go [WriteByte (push_bit 4 (msgType h) OR msgFlag h), encodeLength (remainingLength h)])
          (concat [[push_bit 4 (msgType h) OR msgFlag h], wire_length n])"
    by (rule sink.emits_seq) (simp add: sink.emits_putb encodeLength_emits n)
  from sink.emits_run [OF this NewIoBuffer_spec(1) [OF p, of 0]]
  show thesis using that by (auto simp: Header_encode_def NewIoBuffer_spec(2) [OF p])
qed

lemma finish_wire:
  assumes p: "pool_inv p" and f: "sink.emits f d" and d: "length d < 268435456"
  obtains w where "finish c m (f (NewIoBuffer 0 p)) = Inr (Inr w, m\<lparr>remainingLength := of_nat (length d)\<rparr>)"
    and "wb_inv w" and "content w = (push_bit 4 (msgType m) OR msgFlag m) # wire_length (length d) @ d"
proof -
  from sink.emits_run [OF f NewIoBuffer_spec(1) [OF p, of 0]]
  obtain w1 where w1: "f (NewIoBuffer 0 p) = Inr w1" "wb_inv w1" "content w1 = d"
    by (auto simp: NewIoBuffer_spec(2) [OF p])
  have p1: "pool_inv (fst w1)" and io: "io_inv (snd w1)" using w1(2) by (auto simp: wb_inv_def)
  let ?m = "m\<lparr>remainingLength := of_nat (length d)\<rparr>"
  have len: "Len (snd w1) = int (length d)" using Len_unread [OF io] w1(3) by simp
  have valid: "RemainingLength_IsValid (of_nat (length d))"
    using d sint_of_nat32 [of "length d"] by (simp add: RemainingLength_IsValid_def)
  obtain w2 where w2: "Header_encode ?m (fst w1) = Inr w2" "wb_inv w2"
      "content w2 = (push_bit 4 (msgType m) OR msgFlag m) # wire_length (length d)"
    by (rule Header_encode_wire [OF p1, of ?m "length d"]) (use d in auto)
  have B: "Bytes (snd w1) = Inr d" using io w1(3) by (simp add: Bytes_def io_inv_def)
  obtain w3 where w3: "sink_write d w2 = Inr w3" "wb_inv w3" "content w3 = content w2 @ d"
    by (rule sink.emits_run [OF sink.emits_put w2(2)])
  show thesis
    by (rule that [of w3]) (use w1(1) w2 w3 B valid len in \<open>simp_all add: finish_def frame_def\<close>)
qed

text \<open>Conditional writes, and writes over a list.\<close>

lemma write_if_emits: "(c \<Longrightarrow> sink.emits f d) \<Longrightarrow> sink.emits (write_if c f) (if c then d else [])"
  by (auto simp: write_if_def sink.emits_Nil)

lemma emits_map:
  "(\<And>x. x \<in> set xs \<Longrightarrow> sink.emits (f x) (g x)) \<Longrightarrow> sink.emits (seq_go (map f xs)) (concat (map g xs))"
  by (rule sink.emits_seq) (auto simp: list_all2_conv_all_nth)

lemma putString_ok: "ok_string s \<Longrightarrow> sink.emits (putString s) (wire_string s)"
  by (simp add: ok_string_def putString_emits)

lemmas emits_rules = sink.emits_putb sink.emits_put putUint16_emits putString_ok write_if_emits

lemma connect_emits:
  assumes "ok_fields (MConnect m)"
  shows "sink.emits (seq_go
        [putString (ProtocolName m), WriteByte (ProtocolLevel m), WriteByte (connectFlags m),
         putUint16 (KeepAlive m), putString (ClientId m),
         write_if (WillFlag m) (seq_go [putString (WillTopic m), putString (WillMessage m)]),
         write_if (UserNameFlag m) (putString (Username m)),
         write_if (passwordFlag m) (putString (Password m))]) (wire_body (MConnect m))"
proof -
  have fl: "connectFlags m = connect_byte m" using assms by (simp add: connect_flags_back)
  have w: "sink.emits (seq_go [putString (WillTopic m), putString (WillMessage m)])
            (wire_string (WillTopic m) @ wire_string (WillMessage m))" if "WillFlag m"
    using sink.emits_seq [of "[putString (WillTopic m), putString (WillMessage m)]"
        "[wire_string (WillTopic m), wire_string (WillMessage m)]"] that assms
    by (simp add: putString_ok)
  have "wire_body (MConnect m) = concat
      [wire_string (ProtocolName m), [ProtocolLevel m], [connect_byte m], wire16 (KeepAlive m),
       wire_string (ClientId m),
       if WillFlag m then wire_string (WillTopic m) @ wire_string (WillMessage m) else [],
       if UserNameFlag m then wire_string (Username m) else [],
       if passwordFlag m then wire_string (Password m) else []]"
    by (simp add: connect_var_def connect_payload_def)
  moreover have "sink.emits (seq_go
        [putString (ProtocolName m), WriteByte (ProtocolLevel m), WriteByte (connectFlags m),
         putUint16 (KeepAlive m), putString (ClientId m),
         write_if (WillFlag m) (seq_go [putString (WillTopic m), putString (WillMessage m)]),
         write_if (UserNameFlag m) (putString (Username m)),
         write_if (passwordFlag m) (putString (Password m))]) (concat
      [wire_string (ProtocolName m), [ProtocolLevel m], [connect_byte m], wire16 (KeepAlive m),
       wire_string (ClientId m),
       if WillFlag m then wire_string (WillTopic m) @ wire_string (WillMessage m) else [],
       if UserNameFlag m then wire_string (Username m) else [],
       if passwordFlag m then wire_string (Password m) else []])"
    by (rule sink.emits_seq, intro list_all2_Cons [THEN iffD2] conjI emits_rules w list_all2_Nil [THEN iffD2])
      (use assms fl in \<open>auto intro: emits_rules\<close>)
  ultimately show ?thesis by simp
qed

lemma publish_emits:
  assumes "ok_fields (MPublish m)"
  shows "sink.emits (seq_go
       [putString (TopicName m), write_if (Qos_HasId (Qos m)) (putUint16 (PacketIdentifier m)),
        write_if (Payload m \<noteq> []) (sink_write (Payload m))]) (wire_body (MPublish m))"
proof -
  have "sink.emits (seq_go
       [putString (TopicName m), write_if (Qos_HasId (Qos m)) (putUint16 (PacketIdentifier m)),
        write_if (Payload m \<noteq> []) (sink_write (Payload m))])
      (concat [wire_string (TopicName m), if Qos_HasId (Qos m) then wire16 (PacketIdentifier m) else [],
        if Payload m \<noteq> [] then Payload m else []])"
    by (rule sink.emits_seq, intro list_all2_Cons [THEN iffD2] conjI emits_rules list_all2_Nil [THEN iffD2])
      (use assms in auto)
  moreover have "Qos_HasId (Qos m) \<longleftrightarrow> Qos m \<noteq> 0" using assms by (simp add: HasId_valid)
  ultimately show ?thesis by (simp add: publish_var_def split: if_splits)
qed

lemma subscribe_emits:
  assumes "ok_fields (MSubscribe m)"
  shows "sink.emits (seq_go
       [putUint16 (PacketIdentifier m),
        seq_go (map (\<lambda>(t, q). seq_go [putString t, WriteByte q]) (TopicFilters m))]) (wire_body (MSubscribe m))"
proof -
  have f: "sink.emits (case f of (t, q) \<Rightarrow> seq_go [putString t, WriteByte q]) (wire_filter f)"
    if "f \<in> set (TopicFilters m)" for f
  proof -
    obtain t q where f: "f = (t, q)" by fastforce
    have "sink.emits (seq_go [putString t, WriteByte q]) (concat [wire_string t, [q]])"
      using that f assms by (intro sink.emits_seq) (auto simp: emits_rules list_all_iff)
    then show ?thesis by (simp add: f wire_filter_def)
  qed
  have "sink.emits (seq_go
       [putUint16 (PacketIdentifier m),
        seq_go (map (\<lambda>(t, q). seq_go [putString t, WriteByte q]) (TopicFilters m))])
     (concat [wire16 (PacketIdentifier m), concat (map wire_filter (TopicFilters m))])"
    using emits_map [OF f] by (intro sink.emits_seq) (auto simp: emits_rules)
  then show ?thesis by simp
qed

lemma suback_emits:
  "sink.emits (seq_go [putUint16 (PacketIdentifier m), seq_go (map WriteByte (acks m))]) (wire_body (MSubAck m))"
proof -
  have "sink.emits (seq_go [putUint16 (PacketIdentifier m), seq_go (map WriteByte (acks m))])
          (concat [wire16 (PacketIdentifier m), concat (map (\<lambda>x. [x]) (acks m))])"
    using emits_map [of "acks m" WriteByte "\<lambda>x. [x]"] by (intro sink.emits_seq) (auto simp: emits_rules)
  then show ?thesis by simp
qed

lemma connack_emits:
  "sink.emits (seq_go [WriteByte (boolToByte (SessionPresentFlag m)), WriteByte (ReturnCode m)]) (wire_body (MConnAck m))"
proof -
  have "sink.emits (seq_go [WriteByte (boolToByte (SessionPresentFlag m)), WriteByte (ReturnCode m)])
     (concat [[boolToByte (SessionPresentFlag m)], [ReturnCode m]])"
    by (intro sink.emits_seq) (auto simp: emits_rules)
  then show ?thesis by (simp add: boolToByte_def of_bool_def)
qed

lemma truncate_header [simp]:
  "msgType (Header.truncate m) = msgType m" "msgFlag (Header.truncate m) = msgFlag m"
  "remainingLength (Header.truncate m) = remainingLength m"
  by (simp_all add: Header.truncate_def)

text \<open>
  The encoder of a message writes exactly its wire format, and sets the remaining length to the length of the body.
\<close>

definition encodes_to :: "((go_error + wbuf) \<times> Message) go \<Rightarrow> Message \<Rightarrow> bool" where
  "encodes_to r m \<longleftrightarrow>
     (\<exists>w m'. r = Inr (Inr w, m') \<and> wb_inv w \<and> content w = wire m \<and>
        remainingLength (msg_header m') = of_nat (length (wire_body m)))"

lemma finish_encodes:
  assumes "pool_inv p" and "sink.emits f (wire_body m)" and "length (wire_body m) < 268435456"
    and "push_bit 4 (msgType h) OR msgFlag h = 16 * type_tag m + wire_flag m"
    and "\<And>h. remainingLength (msg_header (C h)) = remainingLength h"
  shows "encodes_to (as_msg C (finish c h (f (NewIoBuffer 0 p)))) m"
  by (rule finish_wire [OF assms(1-3), of c h]) (auto simp: encodes_to_def as_msg_def wire_def assms(4,5))

lemma pid_encodes:
  assumes "pool_inv p" and "wire_body m = wire16 (PacketIdentifier h)"
    and "push_bit 4 (msgType h) OR msgFlag h = 16 * type_tag m + wire_flag m"
    and "\<And>h. remainingLength (msg_header (C h)) = remainingLength h"
  shows "encodes_to (as_msg C (encodePacketId h p)) m"
  unfolding encodePacketId_def
  by (rule finish_encodes [OF assms(1)]) (simp_all add: assms putUint16_emits, simp add: wire16_bytes)

lemma header_encodes:
  assumes "pool_inv p" and "remainingLength h = 0" and "wire_body m = []"
    and "push_bit 4 (msgType h) OR msgFlag h = 16 * type_tag m + wire_flag m" and "msg_header (C h) = h"
  shows "encodes_to (as_msg C (case Header_encode h p of Inl e \<Rightarrow> Inl e | Inr w \<Rightarrow> Inr (Inr w, h))) m"
proof -
  obtain w where "Header_encode h p = Inr w" "wb_inv w"
      "content w = (push_bit 4 (msgType h) OR msgFlag h) # wire_length 0"
    by (rule Header_encode_wire [OF assms(1), of h 0]) (use assms(2) in auto)
  then show ?thesis using assms by (simp add: encodes_to_def as_msg_def wire_def)
qed

lemma Encode_encodes:
  assumes "ok_msg m" and h: "ok_header m" and u: "no_topics m" and p: "pool_inv p"
  shows "encodes_to (Encode m p) m"
proof -
  from assms have ok: "ok_fields m" and len: "length (wire_body m) < 268435456" by (auto simp: ok_msg_def)
  have n: "push_bit 4 (type_tag m) OR wire_flag m = 16 * type_tag m + wire_flag m"
    by (rule nibbles(1) [OF type_tag_valid(2) wire_flag_less [OF assms(1) h]])
  show ?thesis
  proof (cases m)
    case (MConnect x)
    with ok have q: "(\<not> Qos_IsValid (WillQos x)) = False" by simp
    show ?thesis unfolding MConnect Encode.simps Connect_Encode_def q if_False
      by (rule finish_encodes [OF p connect_emits]) (use ok len n h MConnect in \<open>auto simp: ok_header_def\<close>)
  next
    case (MConnAck x)
    show ?thesis unfolding MConnAck Encode.simps ConnAck_Encode_def
      by (rule finish_encodes [OF p connack_emits]) (use ok len n h MConnAck in \<open>auto simp: ok_header_def\<close>)
  next
    case (MPublish x)
    show ?thesis unfolding MPublish Encode.simps Publish_Encode_def
      by (rule finish_encodes [OF p publish_emits]) (use ok len n h MPublish in \<open>auto simp: ok_header_def publish_flags_back\<close>)
  next
    case (MSubscribe x)
    show ?thesis unfolding MSubscribe Encode.simps Subscribe_Encode_def
      by (rule finish_encodes [OF p subscribe_emits]) (use ok len n h MSubscribe in \<open>auto simp: ok_header_def\<close>)
  next
    case (MSubAck x)
    show ?thesis unfolding MSubAck Encode.simps SubAck_Encode_def
      by (rule finish_encodes [OF p suback_emits]) (use ok len n h MSubAck in \<open>auto simp: ok_header_def\<close>)
  next
    case (MPingReq x)
    show ?thesis unfolding MPingReq Encode.simps PingReq_Encode_def
      by (rule header_encodes [OF p]) (use ok n h MPingReq in \<open>auto simp: ok_header_def\<close>)
  next
    case (MPingResp x)
    show ?thesis unfolding MPingResp Encode.simps PingResp_Encode_def
      by (rule header_encodes [OF p]) (use ok n h MPingResp in \<open>auto simp: ok_header_def\<close>)
  next
    case (MDisconnect x)
    show ?thesis unfolding MDisconnect Encode.simps Disconnect_Encode_def
      by (rule header_encodes [OF p]) (use ok n h MDisconnect in \<open>auto simp: ok_header_def\<close>)
  qed (use n h u in \<open>auto simp: PubAck_Encode_def PubRec_Encode_def PubRel_Encode_def PubComp_Encode_def UnsubAck_Encode_def
         Unsubscribe_Encode_def ok_header_def intro!: pid_encodes [OF p]\<close>)
qed

section \<open>Decoders read the wire format\<close>

text \<open>Run on a message \<open>m\<close> and a buffer that starts with \<open>d\<close>, \<open>c\<close> returns \<open>x\<close>, leaves \<open>m'\<close>, and has read \<open>d\<close>.\<close>

definition takes :: "('m \<times> ioBuffer, 'a) gom \<Rightarrow> 'm \<Rightarrow> 'a \<Rightarrow> 'm \<Rightarrow> bytes \<Rightarrow> bool" where
  "takes c m x m' d \<longleftrightarrow>
     (\<forall>b rest. io_inv b \<longrightarrow> unread b = d @ rest \<longrightarrow>
        (\<exists>b'. c (m, b) = (Inr x, (m', b')) \<and> io_inv b' \<and> unread b' = rest))"

lemma takesE:
  assumes "takes c m x m' d" and "io_inv b" and "unread b = d @ rest"
  obtains b' where "c (m, b) = (Inr x, (m', b'))" and "io_inv b'" and "unread b' = rest"
  using assms unfolding takes_def by blast

lemma takes_gret: "takes (gret x) m x m []"
  by (simp add: takes_def gret_def)

lemma takes_bind:
  assumes "takes c m x m1 d1" and "takes (k x) m1 y m2 d2"
  shows "takes (gbind c k) m y m2 (d1 @ d2)"
  unfolding takes_def
proof (intro allI impI)
  fix b rest assume "io_inv b" "unread b = (d1 @ d2) @ rest"
  with assms(1) obtain b1 where b1: "c (m, b) = (Inr x, (m1, b1))" "io_inv b1" "unread b1 = d2 @ rest"
    by (auto elim: takesE)
  with assms(2) obtain b2 where "k x (m1, b1) = (Inr y, (m2, b2))" "io_inv b2" "unread b2 = rest"
    by (auto elim: takesE)
  with b1 show "\<exists>b'. gbind c k (m, b) = (Inr y, (m2, b')) \<and> io_inv b' \<and> unread b' = rest"
    by (simp add: gbind_def)
qed

lemma takes_return: "takes c m x m' d \<Longrightarrow> takes (gbind c (\<lambda>_. gret y)) m y m' d"
  using takes_bind [of c m x m' d "\<lambda>_. gret y" y m' "[]"] by (simp add: takes_gret)

lemma takes_gseq_Cons:
  "takes c m () m1 d1 \<Longrightarrow> takes (gseq cs) m1 () m2 d2 \<Longrightarrow> d = d1 @ d2 \<Longrightarrow> takes (gseq (c # cs)) m () m2 d"
  by (simp add: takes_bind)

lemma takes_gseq_Nil: "takes (gseq []) m () m []"
  by (simp add: takes_gret)

lemma takes_gwhen:
  "c m = v \<Longrightarrow> (v \<Longrightarrow> takes g m () m' d) \<Longrightarrow> takes (gwhen c g) m () (if v then m' else m) (if v then d else [])"
  by (simp add: takes_def gwhen_def gret_def)

lemma takes_assign:
  "(\<And>b rest. io_inv b \<Longrightarrow> unread b = d @ rest \<Longrightarrow> yields g b x rest) \<Longrightarrow> takes (gassign g upd) m () (upd x m) d"
  unfolding takes_def by (fastforce elim: yieldsE simp: go_simps)

lemma takes_uint8: "takes (gassign getUint8 upd) m () (upd x m) [x]"
  by (rule takes_assign) (simp add: getUint8_yields)

lemma takes_uint16: "takes (gassign getUint16 upd) m () (upd i m) (wire16 i)"
  by (rule takes_assign) (rule getUint16_yields)

lemma takes_string: "length s < 65536 \<Longrightarrow> takes (gassign getString upd) m () (upd s m) (wire_string s)"
  by (rule takes_assign) (rule getString_yields)

lemma takes_metered:
  assumes "takes g m () m' d"
  shows "takes (metered g) m () (m'\<lparr>remainingLength := remainingLength m' - of_nat (length d)\<rparr>) d"
  unfolding takes_def
proof (intro allI impI)
  fix b rest assume b: "io_inv b" "unread b = d @ rest"
  with assms obtain b1 where b1: "g (m, b) = (Inr (), (m', b1))" "io_inv b1" "unread b1 = rest"
    by (auto elim: takesE)
  have "Len b = int (length (d @ rest))" "Len b1 = int (length rest)"
    using Len_unread [OF b(1)] Len_unread [OF b1(2)] b(2) b1(3) by simp_all
  then have "Len b - Len b1 = int (length d)" by simp
  then have "(word_of_int (Len b - Len b1) :: 32 word) = of_nat (length d)" by (simp only: of_int_of_nat_eq)
  with b1 show "\<exists>b'. metered g (m, b) = (Inr (), (m'\<lparr>remainingLength := remainingLength m' - of_nat (length d)\<rparr>, b'))
          \<and> io_inv b' \<and> unread b' = rest"
    by (simp add: metered_def gbind_def gsnd_def gget_def gfst_def del: of_int_diff)
qed

lemma takes_unlessShort:
  assumes "\<And>b rest. io_inv b \<Longrightarrow> unread b = d @ rest \<Longrightarrow> \<exists>b'. g (m, b) = (Inr x, (m', b')) \<and> io_inv b' \<and> unread b' = rest"
    and "sint (remainingLength m) \<le> int (length d)"
  shows "takes (unlessShort g) m x m' d"
  unfolding takes_def
proof (intro allI impI)
  fix b rest assume b: "io_inv b" "unread b = d @ rest"
  have "\<not> sint (remainingLength m) > Len b" using Len_unread [OF b(1)] b(2) assms(2) by simp
  with assms(1) [OF b] show "\<exists>b'. unlessShort g (m, b) = (Inr x, (m', b')) \<and> io_inv b' \<and> unread b' = rest"
    by (simp add: unlessShort_def)
qed

subsection \<open>What the receiver gets\<close>

text \<open>
  \<open>received m\<close> is the message a decoder rebuilds from the format of \<open>m\<close>, exactly: the fields that the flags leave out of the
  format are zero, the flags of a PUBLISH are in its header, and the remaining length is what the decoder has not subtracted (the
  payloads of SUBSCRIBE, SUBACK and UNSUBSCRIBE).
\<close>

fun received :: "Message \<Rightarrow> Message" where
  "received (MConnect m) = MConnect (m\<lparr>remainingLength := 0,
     WillTopic := if WillFlag m then WillTopic m else [], WillMessage := if WillFlag m then WillMessage m else [],
     Username := if UserNameFlag m then Username m else [], Password := if passwordFlag m then Password m else []\<rparr>)"
| "received (MConnAck m) = MConnAck (m\<lparr>remainingLength := 0\<rparr>)"
| "received (MPublish m) = MPublish (m\<lparr>msgFlag := publish_nibble m, remainingLength := 0,
     PacketIdentifier := if Qos m \<noteq> 0 then PacketIdentifier m else 0\<rparr>)"
| "received (MPubAck m) = MPubAck (m\<lparr>remainingLength := 0\<rparr>)"
| "received (MPubRec m) = MPubRec (m\<lparr>remainingLength := 0\<rparr>)"
| "received (MPubRel m) = MPubRel (m\<lparr>remainingLength := 0\<rparr>)"
| "received (MPubComp m) = MPubComp (m\<lparr>remainingLength := 0\<rparr>)"
| "received (MSubscribe m) =
     MSubscribe (m\<lparr>remainingLength := of_nat (length (concat (map wire_filter (TopicFilters m))))\<rparr>)"
| "received (MSubAck m) = MSubAck (m\<lparr>remainingLength := of_nat (length (acks m))\<rparr>)"
| "received (MUnsubscribe m) =
     MUnsubscribe (m\<lparr>remainingLength := of_nat (length (concat (map wire_string (TopicNames m))))\<rparr>)"
| "received (MUnsubAck m) = MUnsubAck (m\<lparr>remainingLength := 0\<rparr>)"
| "received m = m"

text \<open>
  The same without the bookkeeping: \<open>m'\<close> is \<open>m\<close> in every field that the flags of \<open>m\<close> put into the format (the others are zero), and
  its header has the type and the flags of \<open>m\<close>.
\<close>

definition put_header :: "Header \<Rightarrow> 'a Header_scheme \<Rightarrow> 'a Header_scheme" where
  "put_header h m = m\<lparr>msgType := msgType h, msgFlag := msgFlag h, remainingLength := remainingLength h\<rparr>"

fun set_header :: "Header \<Rightarrow> Message \<Rightarrow> Message" where
  "set_header h (MConnect m) = MConnect (put_header h m)"
| "set_header h (MConnAck m) = MConnAck (put_header h m)"
| "set_header h (MPublish m) = MPublish (put_header h m)"
| "set_header h (MPubAck m) = MPubAck (put_header h m)"
| "set_header h (MPubRec m) = MPubRec (put_header h m)"
| "set_header h (MPubRel m) = MPubRel (put_header h m)"
| "set_header h (MPubComp m) = MPubComp (put_header h m)"
| "set_header h (MSubscribe m) = MSubscribe (put_header h m)"
| "set_header h (MSubAck m) = MSubAck (put_header h m)"
| "set_header h (MUnsubscribe m) = MUnsubscribe (put_header h m)"
| "set_header h (MUnsubAck m) = MUnsubAck (put_header h m)"
| "set_header h (MPingReq m) = MPingReq (put_header h m)"
| "set_header h (MPingResp m) = MPingResp (put_header h m)"
| "set_header h (MDisconnect m) = MDisconnect (put_header h m)"

fun carried :: "Message \<Rightarrow> Message" where
  "carried (MConnect m) = MConnect (m\<lparr>
     WillTopic := if WillFlag m then WillTopic m else [], WillMessage := if WillFlag m then WillMessage m else [],
     Username := if UserNameFlag m then Username m else [], Password := if passwordFlag m then Password m else []\<rparr>)"
| "carried (MPublish m) = MPublish (m\<lparr>PacketIdentifier := if Qos m \<noteq> 0 then PacketIdentifier m else 0\<rparr>)"
| "carried m = m"

definition arrives :: "Message \<Rightarrow> Message \<Rightarrow> bool" where
  "arrives m m' \<longleftrightarrow> set_header (msg_header m) m' = carried m \<and>
     msgType (msg_header m') = type_tag m \<and> msgFlag (msg_header m') = wire_flag m"

lemma arrives_received: "ok_header m \<Longrightarrow> arrives m (received m)"
  by (cases m) (auto simp: arrives_def ok_header_def put_header_def)

text \<open>At most one topic filter, one return code and one topic name: the decoder reads no more.\<close>

fun single :: "Message \<Rightarrow> bool" where
  "single (MSubscribe m) \<longleftrightarrow> length (TopicFilters m) \<le> 1"
| "single (MSubAck m) \<longleftrightarrow> length (acks m) \<le> 1"
| "single (MUnsubscribe m) \<longleftrightarrow> length (TopicNames m) \<le> 1"
| "single m \<longleftrightarrow> True"

definition wire_header :: "Message \<Rightarrow> Header" where
  "wire_header m = \<lparr>msgType = msgType (msg_header m), msgFlag = wire_flag m,
                    remainingLength = of_nat (length (wire_body m))\<rparr>"

text \<open>The variable header, and the payload unless the variable header has ended the message, read \<open>d\<close>.\<close>

definition reads_body :: "Message \<Rightarrow> Message \<Rightarrow> bytes \<Rightarrow> bool" where
  "reads_body m m' d \<longleftrightarrow>
     takes DecodeVariableHeader m True m' d \<or>
     (\<exists>m1 d1 d2. d = d1 @ d2 \<and> d2 \<noteq> [] \<and> takes DecodeVariableHeader m False m1 d1 \<and> takes DecodePayload m1 True m' d2)"

lemma reads_body_two:
  "takes DecodeVariableHeader m False m1 d1 \<Longrightarrow> takes DecodePayload m1 True m' d2 \<Longrightarrow> d2 \<noteq> [] \<Longrightarrow> reads_body m m' (d1 @ d2)"
  unfolding reads_body_def by blast

lemma takes_on_msg:
  assumes "takes f m x m' d" and "\<And>b. F (C m, b) = on_msg C f m b"
  shows "takes F (C m) x (C m') d"
  using assms by (fastforce simp: takes_def on_msg_def)

lemma takes_pid:
  "takes (gbind decodePacketId (\<lambda>_. gret True)) m True
     (m\<lparr>PacketIdentifier := i, remainingLength := remainingLength m - 2\<rparr>) (wire16 i)"
  using takes_return [OF takes_metered [OF takes_uint16 [of "\<lambda>i m. m\<lparr>PacketIdentifier := i\<rparr>" m i]]]
  by (simp add: decodePacketId_def wire16_bytes)

lemma takes_nothingLeft:
  "takes c m () m' d \<Longrightarrow> takes (gbind c (\<lambda>_. nothingLeft)) m (remainingLength m' = 0) m' d"
  using takes_bind [of c m "()" m' d "\<lambda>_. nothingLeft" "remainingLength m' = 0" m' "[]"]
  by (simp add: takes_def nothingLeft_def gget_def)

lemma takes_pid_more:
  "takes (gbind decodePacketId (\<lambda>_. nothingLeft)) m (remainingLength m - 2 = 0)
     (m\<lparr>PacketIdentifier := i, remainingLength := remainingLength m - 2\<rparr>) (wire16 i)"
  using takes_nothingLeft [OF takes_metered [OF takes_uint16 [of "\<lambda>i m. m\<lparr>PacketIdentifier := i\<rparr>" m i]]]
  by (simp add: decodePacketId_def wire16_bytes)

lemmas takes_intros = takes_gseq_Cons takes_gseq_Nil takes_gwhen takes_uint8 takes_uint16 takes_string

lemma connect_var_takes:
  assumes "length (ProtocolName x) < 65536" and "Qos_IsValid (WillQos x)"
  shows "takes Connect_DecodeVariableHeader m False
     (m\<lparr>ProtocolName := ProtocolName x, ProtocolLevel := ProtocolLevel x, UserNameFlag := UserNameFlag x,
        passwordFlag := passwordFlag x, WillRetain := WillRetain x, WillQos := WillQos x, WillFlag := WillFlag x,
        CleanSession := CleanSession x, KeepAlive := KeepAlive x,
        remainingLength := remainingLength m - of_nat (length (connect_var x))\<rparr>) (connect_var x)"
proof -
  have "takes (gseq
       [gassign getString (\<lambda>s m. m\<lparr>ProtocolName := s\<rparr>), gassign getUint8 (\<lambda>x m. m\<lparr>ProtocolLevel := x\<rparr>),
        gassign getUint8 setConnectFlags, gassign getUint16 (\<lambda>k m. m\<lparr>KeepAlive := k\<rparr>)]) m ()
      ((setConnectFlags (connect_byte x) (m\<lparr>ProtocolName := ProtocolName x, ProtocolLevel := ProtocolLevel x\<rparr>))
         \<lparr>KeepAlive := KeepAlive x\<rparr>) (connect_var x)"
    by (rule takes_intros takes_string [where s = "ProtocolName x"] takes_uint8 [where x = "ProtocolLevel x"]
          takes_uint8 [where x = "connect_byte x"] takes_uint16 [where i = "KeepAlive x"] assms(1) refl)+
      (simp add: connect_var_def)
  from takes_return [OF takes_metered [OF this], of False] show ?thesis
    by (simp add: Connect_DecodeVariableHeader_def connect_flags_back [OF assms(2)])
qed

lemma connect_payload_takes:
  assumes ok: "ok_fields (MConnect x)"
    and flags: "WillFlag m = WillFlag x" "UserNameFlag m = UserNameFlag x" "passwordFlag m = passwordFlag x"
    and len: "sint (remainingLength m) \<le> int (length (connect_payload x))"
  shows "takes Connect_DecodePayload m True
     (m\<lparr>ClientId := ClientId x,
        WillTopic := if WillFlag x then WillTopic x else WillTopic m,
        WillMessage := if WillFlag x then WillMessage x else WillMessage m,
        Username := if UserNameFlag x then Username x else Username m,
        Password := if passwordFlag x then Password x else Password m,
        remainingLength := remainingLength m - of_nat (length (connect_payload x))\<rparr>) (connect_payload x)"
proof -
  let ?w = "gseq [gassign getString (\<lambda>s m. m\<lparr>WillTopic := s\<rparr>), gassign getString (\<lambda>s m. m\<lparr>WillMessage := s\<rparr>)]
            :: (Connect \<times> ioBuffer, unit) gom"
  have ok': "length (ClientId x) < 65536" "WillFlag x \<Longrightarrow> length (WillTopic x) < 65536"
      "WillFlag x \<Longrightarrow> length (WillMessage x) < 65536" "UserNameFlag x \<Longrightarrow> length (Username x) < 65536"
      "passwordFlag x \<Longrightarrow> length (Password x) < 65536"
    using ok by (auto simp: ok_string_def)
  let ?m1 = "m\<lparr>ClientId := ClientId x\<rparr>"
  let ?m2 = "if WillFlag x then ?m1\<lparr>WillTopic := WillTopic x, WillMessage := WillMessage x\<rparr> else ?m1"
  let ?m3 = "if UserNameFlag x then ?m2\<lparr>Username := Username x\<rparr> else ?m2"
  let ?m4 = "if passwordFlag x then ?m3\<lparr>Password := Password x\<rparr> else ?m3"
  have ww: "takes ?w ?m1 () (?m1\<lparr>WillTopic := WillTopic x, WillMessage := WillMessage x\<rparr>)
      (wire_string (WillTopic x) @ wire_string (WillMessage x))" if "WillFlag x"
    by (rule takes_gseq_Cons takes_string [OF ok'(2)] takes_string [OF ok'(3)] takes_gseq_Nil that refl)+ simp
  have w: "takes (gwhen WillFlag ?w) ?m1 () ?m2
      (if WillFlag x then wire_string (WillTopic x) @ wire_string (WillMessage x) else [])"
    by (rule takes_gwhen) (simp_all add: flags ww del: gseq.simps)
  have u: "takes (gwhen UserNameFlag (gassign getString (\<lambda>s m. m\<lparr>Username := s\<rparr>))) ?m2 () ?m3
      (if UserNameFlag x then wire_string (Username x) else [])"
    by (rule takes_gwhen) (simp add: flags, rule takes_string [OF ok'(4)])
  have p: "takes (gwhen passwordFlag (gassign getString (\<lambda>s m. m\<lparr>Password := s\<rparr>))) ?m3 () ?m4
      (if passwordFlag x then wire_string (Password x) else [])"
    by (rule takes_gwhen) (simp add: flags, rule takes_string [OF ok'(5)])
  have "takes (gseq [gassign getString (\<lambda>s m. m\<lparr>ClientId := s\<rparr>), gwhen WillFlag ?w,
          gwhen UserNameFlag (gassign getString (\<lambda>s m. m\<lparr>Username := s\<rparr>)),
          gwhen passwordFlag (gassign getString (\<lambda>s m. m\<lparr>Password := s\<rparr>))]) m () ?m4 (connect_payload x)"
    by (rule takes_gseq_Cons takes_string [OF ok'(1)] w u p takes_gseq_Nil refl)+ (simp add: connect_payload_def)
  from takes_return [OF takes_metered [OF this], of True]
  have "takes (gbind (metered (gseq [gassign getString (\<lambda>s m. m\<lparr>ClientId := s\<rparr>), gwhen WillFlag ?w,
          gwhen UserNameFlag (gassign getString (\<lambda>s m. m\<lparr>Username := s\<rparr>)),
          gwhen passwordFlag (gassign getString (\<lambda>s m. m\<lparr>Password := s\<rparr>))])) (\<lambda>_. gret True)) m True
       (?m4\<lparr>remainingLength := remainingLength ?m4 - of_nat (length (connect_payload x))\<rparr>) (connect_payload x)" .
  then show ?thesis unfolding Connect_DecodePayload_def
    by (intro takes_unlessShort) (use len in \<open>auto elim!: takesE\<close>)
qed

lemma of_bool_bit: "((of_bool v :: byte) AND 1 > 0) = v"
  by (cases v) simp_all

lemma connack_takes:
  assumes "ReturnCode_IsValid (ReturnCode x)"
  shows "takes ConnAck_DecodeVariableHeader m True
     (m\<lparr>SessionPresentFlag := SessionPresentFlag x, ReturnCode := ReturnCode x, remainingLength := remainingLength m - 2\<rparr>)
     [of_bool (SessionPresentFlag x), ReturnCode x]"
proof -
  let ?m = "m\<lparr>SessionPresentFlag := (of_bool (SessionPresentFlag x) :: byte) AND 0x01 > 0, ReturnCode := ReturnCode x\<rparr>"
  let ?g = "gwhen (\<lambda>m. \<not> ReturnCode_IsValid (ReturnCode m)) (gpanic (PanicErr ErrorInvalidMessage))
            :: (ConnAck \<times> ioBuffer, unit) gom"
  have "takes ?g ?m () ?m []" using assms by (simp add: takes_def gwhen_run)
  then have "takes (gseq
       [gassign getUint8 (\<lambda>b1 m. m\<lparr>SessionPresentFlag := b1 AND 0x01 > 0\<rparr>),
        gassign getUint8 (\<lambda>rc m. m\<lparr>ReturnCode := rc\<rparr>), ?g]) m () ?m
      ([of_bool (SessionPresentFlag x)] @ [ReturnCode x] @ [] @ [])"
    by (intro takes_gseq_Cons [OF takes_uint8 takes_gseq_Cons [OF takes_uint8 takes_gseq_Cons [OF _ takes_gseq_Nil refl] refl] refl])
  from takes_return [OF takes_metered [OF this], of True] show ?thesis
    by (simp add: ConnAck_DecodeVariableHeader_def of_bool_bit)
qed

lemma publish_var_takes:
  assumes "length (TopicName x) < 65536" and "Qos m = Qos x" and "Qos_IsValid (Qos x)"
  shows "takes Publish_DecodeVariableHeader m (remainingLength m - of_nat (length (publish_var x)) = 0)
     (m\<lparr>TopicName := TopicName x, PacketIdentifier := if Qos x \<noteq> 0 then PacketIdentifier x else PacketIdentifier m,
        remainingLength := remainingLength m - of_nat (length (publish_var x))\<rparr>) (publish_var x)"
proof -
  let ?m1 = "m\<lparr>TopicName := TopicName x\<rparr>"
  let ?m2 = "if Qos x \<noteq> 0 then ?m1\<lparr>PacketIdentifier := PacketIdentifier x\<rparr> else ?m1"
  let ?g = "gwhen (\<lambda>m. Qos_HasId (Qos m)) (gassign getUint16 (\<lambda>i m. m\<lparr>PacketIdentifier := i\<rparr>))
            :: (Publish \<times> ioBuffer, unit) gom"
  have i: "takes ?g ?m1 () ?m2 (if Qos x \<noteq> 0 then wire16 (PacketIdentifier x) else [])"
    by (rule takes_gwhen) (simp add: assms HasId_valid, rule takes_uint16)
  have "takes (gseq [gassign getString (\<lambda>s m. m\<lparr>TopicName := s\<rparr>), ?g]) m () ?m2 (publish_var x)"
    by (rule takes_gseq_Cons takes_string [OF assms(1)] i takes_gseq_Nil refl)+ (simp add: publish_var_def)
  from takes_nothingLeft [OF takes_metered [OF this]] show ?thesis
    by (simp add: Publish_DecodeVariableHeader_def cong: if_cong split: if_splits)
qed

lemma readPayload_yields:
  assumes "io_inv b" and "unread b = d @ rest" and "d \<noteq> []" and "length d < 2147483648"
  shows "yields (readPayload (of_nat (length d))) b d rest"
  using Read_nonempty [of b "length d"] io_inv_advance [of b "length d"] assms
  by (simp add: yields_def readPayload_def sint_of_nat32)

text \<open>A payload method whose remaining length is that of the payload.\<close>

lemma takes_payload:
  assumes "takes (g (remainingLength m)) m () m' d" and "remainingLength m = of_nat (length d)" and "length d < 2147483648"
  shows "takes (unlessShort (\<lambda>s. gbind (g (remainingLength (fst s))) (\<lambda>_. gret True) s)) m True m' d"
proof (rule takes_unlessShort)
  show "sint (remainingLength m) \<le> int (length d)" using assms(2,3) by (simp add: sint_of_nat32)
  fix b rest assume b: "io_inv b" "unread b = d @ rest"
  from assms(1) b obtain b' where "g (remainingLength m) (m, b) = (Inr (), (m', b'))" "io_inv b'" "unread b' = rest"
    by (rule takesE)
  then show "\<exists>b'. gbind (g (remainingLength (fst (m, b)))) (\<lambda>_. gret True) (m, b) = (Inr True, (m', b')) \<and>
              io_inv b' \<and> unread b' = rest"
    by (simp add: gbind_def gret_def)
qed

lemma publish_payload_takes:
  assumes "remainingLength m = of_nat (length d)" and "d \<noteq> []" and "length d < 2147483648"
  shows "takes Publish_DecodePayload m True (m\<lparr>Payload := d, remainingLength := 0\<rparr>) d"
proof -
  have "takes (gassign (readPayload (of_nat (length d))) (\<lambda>d m. m\<lparr>Payload := d\<rparr>)) m () (m\<lparr>Payload := d\<rparr>) d"
    by (rule takes_assign) (rule readPayload_yields [OF _ _ assms(2,3)])
  from takes_metered [OF this] have T: "takes (metered (gassign (readPayload (remainingLength m)) (\<lambda>d m. m\<lparr>Payload := d\<rparr>)))
      m () (m\<lparr>Payload := d, remainingLength := 0\<rparr>) d"
    by (simp add: assms(1))
  show ?thesis unfolding Publish_DecodePayload_def by (rule takes_payload) (rule T assms)+
qed

lemma takes_filter:
  assumes "length t < 65536"
  shows "takes (gassign getTopicFilter upd) m () (upd (t, q) m) (wire_filter (t, q))"
proof (rule takes_assign)
  fix b rest assume b: "io_inv b" "unread b = wire_filter (t, q) @ rest"
  then have "unread b = wire_string t @ q # rest" by (simp add: wire_filter_def)
  from getString_yields [OF b(1) this assms] obtain b1
    where b1: "getString b = (Inr t, b1)" "io_inv b1" "unread b1 = q # rest" by (rule yieldsE)
  from getUint8_yields [OF b1(2,3)] b1(1) show "yields getTopicFilter b (t, q) rest"
    by (auto simp: yields_def getTopicFilter_def gbind_def gret_def)
qed

lemma subscribe_payload_takes:
  assumes "length t < 65536" and "remainingLength m = of_nat (length (wire_filter (t, q)))"
  shows "takes Subscribe_DecodePayload m True (m\<lparr>TopicFilters := [(t, q)]\<rparr>) (wire_filter (t, q))"
proof -
  have len: "0 < length (wire_filter (t, q))" "length (wire_filter (t, q)) < 2147483648"
    using assms(1) by (simp_all add: wire_filter_def wire_string_def wire16_bytes)
  then have s: "sint (remainingLength m) > 0" using assms(2) by (simp add: sint_of_nat32)
  have T: "takes (if sint (remainingLength m) > 0 then gassign getTopicFilter (\<lambda>f m. m\<lparr>TopicFilters := [f]\<rparr>)
              else gfst (\<lambda>m. m\<lparr>TopicFilters := []\<rparr>)) m () (m\<lparr>TopicFilters := [(t, q)]\<rparr>) (wire_filter (t, q))"
    using takes_filter [OF assms(1), of "\<lambda>f m. m\<lparr>TopicFilters := [f]\<rparr>"] s by simp
  show ?thesis unfolding Subscribe_DecodePayload_def by (rule takes_payload) (rule T assms len)+
qed

lemma unsubscribe_payload_takes:
  assumes "length t < 65536" and "remainingLength m = of_nat (length (wire_string t))"
  shows "takes Unsubscribe_DecodePayload m True (m\<lparr>TopicNames := [t]\<rparr>) (wire_string t)"
proof -
  have len: "0 < length (wire_string t)" "length (wire_string t) < 2147483648"
    using assms(1) by (simp_all add: wire_string_def wire16_bytes)
  then have s: "sint (remainingLength m) > 0" using assms(2) by (simp add: sint_of_nat32)
  have T: "takes (if sint (remainingLength m) > 0 then gassign getString (\<lambda>t m. m\<lparr>TopicNames := [t]\<rparr>)
              else gfst (\<lambda>m. m\<lparr>TopicNames := []\<rparr>)) m () (m\<lparr>TopicNames := [t]\<rparr>) (wire_string t)"
    using takes_string [OF assms(1), of "\<lambda>t m. m\<lparr>TopicNames := [t]\<rparr>"] s by simp
  show ?thesis unfolding Unsubscribe_DecodePayload_def by (rule takes_payload) (rule T assms len)+
qed

lemma suback_payload_takes:
  assumes "remainingLength m = 1"
  shows "takes SubAck_DecodePayload m True (m\<lparr>acks := [a]\<rparr>) [a]"
proof -
  have T: "takes (if sint (remainingLength m) > 0 then gassign getUint8 (\<lambda>a m. m\<lparr>acks := [a]\<rparr>)
              else gfst (\<lambda>m. m\<lparr>acks := []\<rparr>)) m () (m\<lparr>acks := [a]\<rparr>) [a]"
    using takes_uint8 [of "\<lambda>a m. m\<lparr>acks := [a]\<rparr>" m a] assms by simp
  show ?thesis unfolding SubAck_DecodePayload_def by (rule takes_payload, rule T) (simp_all add: assms)
qed

text \<open>
  Per type: from a message with the header of the wire, the methods read the body and leave what the receiver gets.
\<close>

lemma connect_reads:
  assumes ok: "ok_msg (MConnect x)" and h: "msgType x = 1"
    and m: "NewMessage (wire_header (MConnect x)) = Some (MConnect m)"
  shows "reads_body (MConnect m) (received (MConnect x)) (wire_body (MConnect x))"
proof -
  have fields: "ok_fields (MConnect x)" and len: "length (connect_payload x) < 2147483648"
    using ok by (auto simp: ok_msg_def)
  let ?m1 = "m\<lparr>ProtocolName := ProtocolName x, ProtocolLevel := ProtocolLevel x, UserNameFlag := UserNameFlag x,
        passwordFlag := passwordFlag x, WillRetain := WillRetain x, WillQos := WillQos x, WillFlag := WillFlag x,
        CleanSession := CleanSession x, KeepAlive := KeepAlive x,
        remainingLength := remainingLength m - of_nat (length (connect_var x))\<rparr>"
  have mx: "m = \<lparr>msgType = 1, msgFlag = msgFlag x, remainingLength = of_nat (length (connect_var x @ connect_payload x)),
                  ProtocolName = [], ProtocolLevel = 0, UserNameFlag = False, passwordFlag = False,
                  WillRetain = False, WillQos = 0, WillFlag = False, CleanSession = False, KeepAlive = 0,
                  ClientId = [], WillTopic = [], WillMessage = [], Username = [], Password = []\<rparr>"
    using m h by (simp add: NewMessage_def wire_header_def)
  have v: "takes Connect_DecodeVariableHeader m False ?m1 (connect_var x)"
    by (rule connect_var_takes) (use fields in \<open>auto simp: ok_string_def\<close>)
  have "takes Connect_DecodePayload ?m1 True
     (?m1\<lparr>ClientId := ClientId x,
        WillTopic := if WillFlag x then WillTopic x else WillTopic ?m1,
        WillMessage := if WillFlag x then WillMessage x else WillMessage ?m1,
        Username := if UserNameFlag x then Username x else Username ?m1,
        Password := if passwordFlag x then Password x else Password ?m1,
        remainingLength := remainingLength ?m1 - of_nat (length (connect_payload x))\<rparr>) (connect_payload x)"
    by (rule connect_payload_takes [OF fields]) (use len in \<open>simp_all add: mx sint_of_nat32\<close>)
  also have "?m1\<lparr>ClientId := ClientId x,
        WillTopic := if WillFlag x then WillTopic x else WillTopic ?m1,
        WillMessage := if WillFlag x then WillMessage x else WillMessage ?m1,
        Username := if UserNameFlag x then Username x else Username ?m1,
        Password := if passwordFlag x then Password x else Password ?m1,
        remainingLength := remainingLength ?m1 - of_nat (length (connect_payload x))\<rparr> =
      x\<lparr>remainingLength := 0,
     WillTopic := if WillFlag x then WillTopic x else [], WillMessage := if WillFlag x then WillMessage x else [],
     Username := if UserNameFlag x then Username x else [], Password := if passwordFlag x then Password x else []\<rparr>"
    by (rule Connect.equality) (simp_all add: mx h)
  finally have p: "takes DecodePayload (MConnect ?m1) True (received (MConnect x)) (connect_payload x)"
    unfolding received.simps by (rule takes_on_msg) simp
  have "takes DecodeVariableHeader (MConnect m) False (MConnect ?m1) (connect_var x)"
    by (rule takes_on_msg [OF v]) simp
  moreover have "connect_payload x \<noteq> []" by (simp add: connect_payload_def wire_string_def wire16_bytes)
  ultimately show ?thesis unfolding wire_body.simps using p by (intro reads_body_two)
qed

lemma publish_reads:
  assumes ok: "ok_msg (MPublish x)" and h: "msgType x = 3"
    and m: "NewMessage (wire_header (MPublish x)) = Some (MPublish m)"
  shows "reads_body (MPublish (m\<lparr>Dup := Dup x, Qos := Qos x, Retain := Retain x\<rparr>)) (received (MPublish x)) (wire_body (MPublish x))"
proof -
  have fields: "ok_fields (MPublish x)" and len: "length (Payload x) < 2147483648"
    using ok by (auto simp: ok_msg_def)
  let ?m0 = "m\<lparr>Dup := Dup x, Qos := Qos x, Retain := Retain x\<rparr>"
  let ?m1 = "?m0\<lparr>TopicName := TopicName x,
        PacketIdentifier := if Qos x \<noteq> 0 then PacketIdentifier x else PacketIdentifier ?m0,
        remainingLength := remainingLength ?m0 - of_nat (length (publish_var x))\<rparr>"
  have mx: "m = PacketId.extend \<lparr>msgType = 3, msgFlag = publish_nibble x, remainingLength = of_nat (length (publish_var x @ Payload x)),
                  PacketIdentifier = 0\<rparr> \<lparr>Dup = False, Qos = 0, Retain = False, TopicName = [], Payload = []\<rparr>"
    using m h by (simp add: NewMessage_def wire_header_def)
  have "takes Publish_DecodeVariableHeader ?m0 (remainingLength ?m0 - of_nat (length (publish_var x)) = 0) ?m1 (publish_var x)"
    by (rule publish_var_takes) (use fields in \<open>simp_all add: ok_string_def\<close>)
  moreover have "(remainingLength ?m0 - of_nat (length (publish_var x)) = 0) = (Payload x = [])"
    using sint_of_nat32 [OF len] by (auto simp: mx PacketId.extend_def)
  ultimately have "takes Publish_DecodeVariableHeader ?m0 (Payload x = []) ?m1 (publish_var x)" by simp
  then have v: "takes DecodeVariableHeader (MPublish ?m0) (Payload x = []) (MPublish ?m1) (publish_var x)"
    by (rule takes_on_msg) simp
  have eq: "?m1\<lparr>Payload := Payload x, remainingLength := 0\<rparr> = x\<lparr>msgFlag := publish_nibble x, remainingLength := 0,
     PacketIdentifier := if Qos x \<noteq> 0 then PacketIdentifier x else 0\<rparr>"
    by (rule Publish.equality) (simp_all add: mx h PacketId.extend_def)
  show ?thesis
  proof (cases "Payload x = []")
    case True
    then have "?m1 = ?m1\<lparr>Payload := Payload x, remainingLength := 0\<rparr>"
      by (intro Publish.equality) (simp_all add: mx PacketId.extend_def)
    with v True eq show ?thesis unfolding reads_body_def by simp
  next
    case False
    have "takes Publish_DecodePayload ?m1 True (?m1\<lparr>Payload := Payload x, remainingLength := 0\<rparr>) (Payload x)"
      by (rule publish_payload_takes) (use False len in \<open>simp_all add: mx PacketId.extend_def\<close>)
    then have "takes DecodePayload (MPublish ?m1) True (received (MPublish x)) (Payload x)"
      unfolding eq received.simps by (rule takes_on_msg) simp
    moreover from v have "takes DecodeVariableHeader (MPublish ?m0) False (MPublish ?m1) (publish_var x)"
      by (simp only: False)
    ultimately show ?thesis unfolding wire_body.simps using False by (intro reads_body_two)
  qed
qed

lemma reads_body_one:
  "takes DecodeVariableHeader m True m' d \<Longrightarrow> reads_body m m' d"
  unfolding reads_body_def by blast

lemma subscribe_reads:
  assumes ok: "ok_msg (MSubscribe x)" and h: "msgType x = 8" and s: "single (MSubscribe x)"
    and m: "NewMessage (wire_header (MSubscribe x)) = Some (MSubscribe m)"
  shows "reads_body (MSubscribe m) (received (MSubscribe x)) (wire_body (MSubscribe x))"
proof -
  let ?d = "concat (map wire_filter (TopicFilters x))"
  let ?m1 = "m\<lparr>PacketIdentifier := PacketIdentifier x, remainingLength := remainingLength m - 2\<rparr>"
  have mx: "m = PacketId.extend \<lparr>msgType = 8, msgFlag = msgFlag x, remainingLength = 2 + of_nat (length ?d),
                  PacketIdentifier = 0\<rparr> \<lparr>TopicFilters = []\<rparr>"
    using m h by (simp add: NewMessage_def wire_header_def wire16_bytes)
  have v: "takes DecodeVariableHeader (MSubscribe m) (remainingLength m - 2 = 0) (MSubscribe ?m1) (wire16 (PacketIdentifier x))"
    by (rule takes_on_msg [OF takes_pid_more [where i = "PacketIdentifier x"]]) (simp add: Subscribe_DecodeVariableHeader_def)
  show ?thesis
  proof (cases "TopicFilters x")
    case Nil
    then have "?m1 = x\<lparr>remainingLength := of_nat (length ?d)\<rparr>"
      by (intro Subscribe.equality) (simp_all add: mx h PacketId.extend_def)
    with v Nil show ?thesis by (intro reads_body_one) (simp add: mx PacketId.extend_def)
  next
    case (Cons f fs)
    obtain t q where tq: "TopicFilters x = [(t, q)]" using Cons s by (cases f) auto
    have t: "length t < 65536" using ok tq by (simp add: ok_msg_def ok_string_def)
    have l: "length (wire_filter (t, q)) = 3 + length t" by (simp add: wire_filter_def wire_string_def wire16_bytes)
    have "takes Subscribe_DecodePayload ?m1 True (?m1\<lparr>TopicFilters := [(t, q)]\<rparr>) (wire_filter (t, q))"
      by (rule subscribe_payload_takes [OF t]) (simp add: mx tq PacketId.extend_def)
    also have "?m1\<lparr>TopicFilters := [(t, q)]\<rparr> = x\<lparr>remainingLength := of_nat (length ?d)\<rparr>"
      by (intro Subscribe.equality) (simp_all add: mx h tq PacketId.extend_def)
    finally have p: "takes DecodePayload (MSubscribe ?m1) True (received (MSubscribe x)) (wire_filter (t, q))"
      unfolding received.simps by (rule takes_on_msg) simp
    have "(of_nat (3 + length t) :: 32 word) \<noteq> 0" using sint_of_nat32 [of "3 + length t"] t by auto
    then have "(remainingLength m - 2 = 0) = False" using l by (simp add: mx tq PacketId.extend_def)
    then have "takes DecodeVariableHeader (MSubscribe m) False (MSubscribe ?m1) (wire16 (PacketIdentifier x))"
      using v by (simp only:)
    moreover have "wire_filter (t, q) \<noteq> []" by (simp add: wire_filter_def)
    ultimately show ?thesis using reads_body_two [OF _ p] tq by simp
  qed
qed

lemma suback_reads:
  assumes h: "msgType x = 9" and s: "single (MSubAck x)"
    and m: "NewMessage (wire_header (MSubAck x)) = Some (MSubAck m)"
  shows "reads_body (MSubAck m) (received (MSubAck x)) (wire_body (MSubAck x))"
proof -
  let ?m1 = "m\<lparr>PacketIdentifier := PacketIdentifier x, remainingLength := remainingLength m - 2\<rparr>"
  have mx: "m = PacketId.extend \<lparr>msgType = 9, msgFlag = msgFlag x, remainingLength = 2 + of_nat (length (acks x)),
                  PacketIdentifier = 0\<rparr> \<lparr>acks = []\<rparr>"
    using m h by (simp add: NewMessage_def wire_header_def wire16_bytes)
  have v: "takes DecodeVariableHeader (MSubAck m) (remainingLength m - 2 = 0) (MSubAck ?m1) (wire16 (PacketIdentifier x))"
    by (rule takes_on_msg [OF takes_pid_more [where i = "PacketIdentifier x"]]) (simp add: SubAck_DecodeVariableHeader_def)
  show ?thesis
  proof (cases "acks x")
    case Nil
    then have "?m1 = x\<lparr>remainingLength := of_nat (length (acks x))\<rparr>"
      by (intro SubAck.equality) (simp_all add: mx h PacketId.extend_def)
    with v Nil show ?thesis by (intro reads_body_one) (simp add: mx PacketId.extend_def)
  next
    case (Cons a as)
    then have a: "acks x = [a]" using s by simp
    have "takes SubAck_DecodePayload ?m1 True (?m1\<lparr>acks := [a]\<rparr>) [a]"
      by (rule suback_payload_takes) (simp add: mx a PacketId.extend_def)
    also have "?m1\<lparr>acks := [a]\<rparr> = x\<lparr>remainingLength := of_nat (length (acks x))\<rparr>"
      by (intro SubAck.equality) (simp_all add: mx h a PacketId.extend_def)
    finally have p: "takes DecodePayload (MSubAck ?m1) True (received (MSubAck x)) [a]"
      unfolding received.simps by (rule takes_on_msg) simp
    have "(remainingLength m - 2 = 0) = False" by (simp add: mx a PacketId.extend_def)
    then have "takes DecodeVariableHeader (MSubAck m) False (MSubAck ?m1) (wire16 (PacketIdentifier x))"
      using v by (simp only:)
    from reads_body_two [OF this p] show ?thesis using a by auto
  qed
qed

lemma unsubscribe_reads:
  assumes ok: "ok_msg (MUnsubscribe x)" and h: "msgType x = 10" and s: "single (MUnsubscribe x)"
    and m: "NewMessage (wire_header (MUnsubscribe x)) = Some (MUnsubscribe m)"
  shows "reads_body (MUnsubscribe m) (received (MUnsubscribe x)) (wire_body (MUnsubscribe x))"
proof -
  let ?d = "concat (map wire_string (TopicNames x))"
  let ?m1 = "m\<lparr>PacketIdentifier := PacketIdentifier x, remainingLength := remainingLength m - 2\<rparr>"
  have mx: "m = PacketId.extend \<lparr>msgType = 10, msgFlag = msgFlag x, remainingLength = 2 + of_nat (length ?d),
                  PacketIdentifier = 0\<rparr> \<lparr>TopicNames = []\<rparr>"
    using m h by (simp add: NewMessage_def wire_header_def wire16_bytes)
  have v: "takes DecodeVariableHeader (MUnsubscribe m) (remainingLength m - 2 = 0) (MUnsubscribe ?m1) (wire16 (PacketIdentifier x))"
    by (rule takes_on_msg [OF takes_pid_more [where i = "PacketIdentifier x"]]) (simp add: Unsubscribe_DecodeVariableHeader_def)
  show ?thesis
  proof (cases "TopicNames x")
    case Nil
    then have "?m1 = x\<lparr>remainingLength := of_nat (length ?d)\<rparr>"
      by (intro Unsubscribe.equality) (simp_all add: mx h PacketId.extend_def)
    with v Nil show ?thesis by (intro reads_body_one) (simp add: mx PacketId.extend_def)
  next
    case (Cons t ts)
    then have tq: "TopicNames x = [t]" using s by simp
    have t: "length t < 65536" using ok tq by (simp add: ok_msg_def ok_string_def)
    have l: "length (wire_string t) = 2 + length t" by (simp add: wire_string_def wire16_bytes)
    have "takes Unsubscribe_DecodePayload ?m1 True (?m1\<lparr>TopicNames := [t]\<rparr>) (wire_string t)"
      by (rule unsubscribe_payload_takes [OF t]) (simp add: mx tq PacketId.extend_def)
    also have "?m1\<lparr>TopicNames := [t]\<rparr> = x\<lparr>remainingLength := of_nat (length ?d)\<rparr>"
      by (intro Unsubscribe.equality) (simp_all add: mx h tq PacketId.extend_def)
    finally have p: "takes DecodePayload (MUnsubscribe ?m1) True (received (MUnsubscribe x)) (wire_string t)"
      unfolding received.simps by (rule takes_on_msg) simp
    have "(of_nat (2 + length t) :: 32 word) \<noteq> 0" using sint_of_nat32 [of "2 + length t"] t by auto
    then have "(remainingLength m - 2 = 0) = False" using l by (simp add: mx tq PacketId.extend_def)
    then have "takes DecodeVariableHeader (MUnsubscribe m) False (MUnsubscribe ?m1) (wire16 (PacketIdentifier x))"
      using v by (simp only:)
    moreover have "wire_string t \<noteq> []" using l by auto
    ultimately show ?thesis using reads_body_two [OF _ p] tq by simp
  qed
qed

lemma pid_reads:
  assumes "\<And>b. DecodeVariableHeader (C m, b) = on_msg C (gbind decodePacketId (\<lambda>_. gret True)) m b"
    and "m = \<lparr>msgType = msgType x, msgFlag = msgFlag x, remainingLength = 2, PacketIdentifier = 0\<rparr>"
    and "r = C (x\<lparr>remainingLength := 0\<rparr>)"
  shows "reads_body (C m) r (wire16 (PacketIdentifier x))"
proof (rule reads_body_one)
  have "m\<lparr>PacketIdentifier := PacketIdentifier x, remainingLength := remainingLength m - 2\<rparr> = x\<lparr>remainingLength := 0\<rparr>"
    by (intro PacketId.equality) (simp_all add: assms(2))
  with takes_on_msg [OF takes_pid [where i = "PacketIdentifier x"] assms(1)] assms(3)
  show "takes DecodeVariableHeader (C m) True r (wire16 (PacketIdentifier x))" by simp
qed

text \<open>The fixed header ends the messages without a body; the others go on to the body.\<close>

definition reads_msg :: "Message \<Rightarrow> bool" where
  "reads_msg m \<longleftrightarrow>
     (\<exists>m0. NewMessage (wire_header m) = Some m0 \<and>
        ((wire_body m = [] \<and> (\<forall>b. DecodeFixedHeader (m0, b) = (Inr True, (received m, b)))) \<or>
         (wire_body m \<noteq> [] \<and>
            (\<exists>m1. (\<forall>b. DecodeFixedHeader (m0, b) = (Inr False, (m1, b))) \<and> reads_body m1 (received m) (wire_body m)))))"

lemma reads_msg_body:
  assumes "NewMessage (wire_header m) = Some m0" and "wire_body m \<noteq> []"
    and "\<And>b. DecodeFixedHeader (m0, b) = (Inr False, (m1, b))" and "reads_body m1 (received m) (wire_body m)"
  shows "reads_msg m"
  unfolding reads_msg_def using assms by blast

lemma wire16_not_Nil [simp]: "wire16 i \<noteq> []" "wire16 i @ d \<noteq> []" "length (wire16 i) = 2"
  by (simp_all add: wire16_bytes)

lemmas fixed_defs = on_msg_def gret_def Connect_DecodeFixedHeader_def ConnAck_DecodeFixedHeader_def
  PubAck_DecodeFixedHeader_def PubRec_DecodeFixedHeader_def PubRel_DecodeFixedHeader_def PubComp_DecodeFixedHeader_def
  Subscribe_DecodeFixedHeader_def SubAck_DecodeFixedHeader_def Unsubscribe_DecodeFixedHeader_def
  UnsubAck_DecodeFixedHeader_def PingReq_DecodeFixedHeader_def PingResp_DecodeFixedHeader_def
  Disconnect_DecodeFixedHeader_def

lemma ok_reads_pid:
  assumes "ok_header m" and "m = C x" and "C \<in> {MPubAck, MPubRec, MPubRel, MPubComp, MUnsubAck}"
  shows "reads_msg m"
proof -
  let ?m = "\<lparr>msgType = msgType x, msgFlag = msgFlag x, remainingLength = 2, PacketIdentifier = 0\<rparr>"
  have d: "DecodeVariableHeader (C m', b) = on_msg C (gbind decodePacketId (\<lambda>_. gret True)) m' b" for m' b
    using assms(3) by (auto simp: PubAck_DecodeVariableHeader_def PubRec_DecodeVariableHeader_def
        PubRel_DecodeVariableHeader_def PubComp_DecodeVariableHeader_def UnsubAck_DecodeVariableHeader_def)
  have b: "wire_body m = wire16 (PacketIdentifier x)" and r: "received m = C (x\<lparr>remainingLength := 0\<rparr>)"
    using assms(2,3) by auto
  have n: "NewMessage (wire_header m) = Some (C ?m)"
    using assms by (auto simp: NewMessage_def wire_header_def ok_header_def)
  show ?thesis
    by (rule reads_msg_body [OF n, where ?m1.0 = "C ?m"])
      (use b pid_reads [OF d refl r] assms(3) in \<open>auto simp: fixed_defs\<close>)
qed

lemma ok_reads:
  assumes ok: "ok_msg m" and h: "ok_header m" and s: "single m"
  shows "reads_msg m"
proof (cases m)
  case (MConnect x)
  obtain m0 where n: "NewMessage (wire_header m) = Some (MConnect m0)"
    using h MConnect by (simp add: NewMessage_def wire_header_def ok_header_def)
  show ?thesis
    by (rule reads_msg_body [OF n])
      (use n ok h MConnect connect_reads [of x m0] in \<open>auto simp: fixed_defs ok_header_def connect_var_def\<close>)
next
  case (MPublish x)
  obtain m0 where n: "NewMessage (wire_header m) = Some (MPublish m0)" and f: "msgFlag m0 = publish_nibble x"
    using h MPublish by (simp add: NewMessage_def wire_header_def ok_header_def PacketId.extend_def)
  have q: "Qos_IsValid (Qos x)" using ok MPublish by (simp add: ok_msg_def)
  have "Publish_DecodeFixedHeader (m0, b) = (Inr False, (m0\<lparr>Dup := Dup x, Qos := Qos x, Retain := Retain x\<rparr>, b))" for b
    unfolding Publish_DecodeFixedHeader_def using publish_flags_back [OF q] by (simp add: f gbind_def gfst_def gret_def)
  then show ?thesis
    by (intro reads_msg_body [OF n, where ?m1.0 = "MPublish (m0\<lparr>Dup := Dup x, Qos := Qos x, Retain := Retain x\<rparr>)"])
      (use n ok h MPublish publish_reads [of x m0] in
        \<open>auto simp: on_msg_def ok_header_def publish_var_def wire_string_def\<close>)
next
  case (MConnAck x)
  let ?m = "\<lparr>msgType = msgType x, msgFlag = msgFlag x, remainingLength = 2, SessionPresentFlag = False, ReturnCode = 0\<rparr>"
  have n: "NewMessage (wire_header m) = Some (MConnAck ?m)"
    using h MConnAck by (simp add: NewMessage_def wire_header_def ok_header_def)
  have rc: "ReturnCode_IsValid (ReturnCode x)" using ok MConnAck by (simp add: ok_msg_def)
  have "?m\<lparr>SessionPresentFlag := SessionPresentFlag x, ReturnCode := ReturnCode x, remainingLength := remainingLength ?m - 2\<rparr>
      = x\<lparr>remainingLength := 0\<rparr>"
    by (intro ConnAck.equality) simp_all
  with connack_takes [OF rc, of ?m]
  have "takes ConnAck_DecodeVariableHeader ?m True (x\<lparr>remainingLength := 0\<rparr>) [of_bool (SessionPresentFlag x), ReturnCode x]"
    by (simp only:)
  then have "takes DecodeVariableHeader (MConnAck ?m) True (MConnAck (x\<lparr>remainingLength := 0\<rparr>))
          [of_bool (SessionPresentFlag x), ReturnCode x]"
    by (rule takes_on_msg) simp
  then have "reads_body (MConnAck ?m) (received m) (wire_body m)"
    using MConnAck by (simp add: reads_body_one)
  then show ?thesis
    by (intro reads_msg_body [OF n]) (use MConnAck in \<open>auto simp: fixed_defs\<close>)
next
  case (MSubscribe x)
  obtain m0 where n: "NewMessage (wire_header m) = Some (MSubscribe m0)"
    using h MSubscribe by (simp add: NewMessage_def wire_header_def ok_header_def)
  show ?thesis
    by (rule reads_msg_body [OF n])
      (use n ok h s MSubscribe subscribe_reads [of x m0] in \<open>auto simp: fixed_defs ok_header_def\<close>)
next
  case (MSubAck x)
  obtain m0 where n: "NewMessage (wire_header m) = Some (MSubAck m0)"
    using h MSubAck by (simp add: NewMessage_def wire_header_def ok_header_def)
  show ?thesis
    by (rule reads_msg_body [OF n])
      (use n h s MSubAck suback_reads [of x m0] in \<open>auto simp: fixed_defs ok_header_def\<close>)
next
  case (MUnsubscribe x)
  obtain m0 where n: "NewMessage (wire_header m) = Some (MUnsubscribe m0)"
    using h MUnsubscribe by (simp add: NewMessage_def wire_header_def ok_header_def)
  show ?thesis
    by (rule reads_msg_body [OF n])
      (use n ok h s MUnsubscribe unsubscribe_reads [of x m0] in \<open>auto simp: fixed_defs ok_header_def\<close>)
next
  case (MPubAck x)
  with h show ?thesis by (rule ok_reads_pid) simp
next
  case (MPubRec x)
  with h show ?thesis by (rule ok_reads_pid) simp
next
  case (MPubRel x)
  with h show ?thesis by (rule ok_reads_pid) simp
next
  case (MPubComp x)
  with h show ?thesis by (rule ok_reads_pid) simp
next
  case (MUnsubAck x)
  with h show ?thesis by (rule ok_reads_pid) simp
qed (use ok h in \<open>auto simp: reads_msg_def NewMessage_def wire_header_def ok_header_def ok_msg_def fixed_defs\<close>)

section \<open>The fixed header on the wire\<close>

lemma Header_decode_fixed:
  assumes ok: "ok_msg m" and h: "ok_header m" and io: "io_inv b"
    and u: "unread b = (16 * type_tag m + wire_flag m) # wire_length (length (wire_body m)) @ rest"
  obtains b' where "Header_decode (h0, b) = (Inr (), (wire_header m, b'))" and "io_inv b'" and "unread b' = rest"
proof -
  let ?x = "16 * type_tag m + wire_flag m"
  have t: "msgType (msg_header m) = type_tag m" using h by (simp add: ok_header_def)
  from getUint8_yields [OF io u] obtain b1
    where b1: "getUint8 b = (Inr ?x, b1)" "io_inv b1" "unread b1 = wire_length (length (wire_body m)) @ rest"
    by (rule yieldsE)
  have "length (wire_body m) < 268435456" using ok by (simp add: ok_msg_def)
  from decodeLength_yields [OF b1(2,3) this] obtain b2
    where b2: "decodeLength b1 = (Inr (of_nat (length (wire_body m))), b2)" "io_inv b2" "unread b2 = rest"
    by (rule yieldsE)
  have n: "drop_bit 4 (?x AND 0xf0) = type_tag m" "?x AND 0x0f = wire_flag m"
    using nibbles [OF type_tag_valid(2) wire_flag_less [OF ok h], of m] by simp_all
  have "Header_decode (h0, b) = (Inr (), (h0\<lparr>msgType := type_tag m, msgFlag := wire_flag m,
          remainingLength := of_nat (length (wire_body m))\<rparr>, b2))"
    using b1(1) b2(1) n type_tag_valid(1) [of m]
    by (simp add: Header_decode_def gbind_def gsnd_def gfst_def gget_def gassign_def)
  moreover have "h0\<lparr>msgType := type_tag m, msgFlag := wire_flag m, remainingLength := of_nat (length (wire_body m))\<rparr> = wire_header m"
    by (rule Header.equality) (simp_all add: wire_header_def t)
  ultimately show thesis using that b2 by simp
qed

lemma Header_decode_wire:
  assumes "ok_msg m" and "ok_header m" and "io_inv b" and "unread b = wire m @ rest"
  obtains b' where "Header_decode (h0, b) = (Inr (), (wire_header m, b'))" and "io_inv b'"
    and "unread b' = wire_body m @ rest"
  using Header_decode_fixed [OF assms(1-3), of "wire_body m @ rest" h0] assms(4) by (auto simp: wire_def)

end
