(* ===== verification/Mqtt_Codec.thy ===== *)
theory Mqtt_Codec
  imports Mqtt_Message
begin

text \<open>
  The codec of \<open>pkg/protocol/mqtt/message/codec.go\<close>: a state machine that reads messages off a buffer and keeps its
  position in a message between two calls.

  The loop of \<open>doDecode\<close> runs while there are bytes, and nothing in the source bounds it: it is a
  \<open>partial_function (option)\<close>, whose value \<open>None\<close> is a loop that does not end. The deferred \<open>recover\<close> is the last
  case distinction of \<open>doDecode\<close>. \<open>msgs\<close> is nil exactly when it is empty, since it is only appended to.
\<close>

section \<open>The codec\<close>

datatype DecoderState = ReadFixedHeader | ReadVariableHeader | ReadPayload

record Codec =
  header :: "Header option"
  decoderState :: DecoderState
  msg :: "Message option"

definition NewCodec :: Codec where
  "NewCodec = \<lparr>header = None, decoderState = ReadFixedHeader, msg = None\<rparr>"

text \<open>A method call on \<open>this.msg\<close>, which panics when it is nil.\<close>

definition on_current :: "(Message \<times> ioBuffer, bool) gom \<Rightarrow> (Codec \<times> ioBuffer, bool) gom" where
  "on_current f s =
     (case msg (fst s) of
        None \<Rightarrow> (Inl (PanicRuntime NilDereference), s)
      | Some m \<Rightarrow> (case f (m, snd s) of (r, (m', b')) \<Rightarrow> (r, ((fst s)\<lparr>msg := Some m'\<rparr>, b'))))"

text \<open>
  The end of a case: when the method has returned true the message is appended to \<open>msgs\<close>, dropped from the codec, and
  the next one starts; otherwise the state is the given one.
\<close>

definition finish_case :: "DecoderState \<Rightarrow> bool \<Rightarrow> (Codec \<times> ioBuffer, go_error + Message list) gom" where
  "finish_case next done s =
     (let c = fst s in
      if done then (Inr (Inr (case msg c of None \<Rightarrow> [] | Some m \<Rightarrow> [m])),
                    (c\<lparr>msg := None, decoderState := ReadFixedHeader\<rparr>, snd s))
      else (Inr (Inr []), (c\<lparr>decoderState := next\<rparr>, snd s)))"

definition zeroHeader :: Header where
  "zeroHeader = \<lparr>msgType = 0, msgFlag = 0, remainingLength = 0\<rparr>"

text \<open>\<open>this.header = &Header{}\<close> and \<open>this.header.decode(buf)\<close>.\<close>

definition decode_header :: "(Codec \<times> ioBuffer, unit) gom" where
  "decode_header s =
     (case Header_decode (zeroHeader, snd s) of (r, (h, b')) \<Rightarrow> (r, ((fst s)\<lparr>header := Some h\<rparr>, b')))"

definition read_fixed :: "(Codec \<times> ioBuffer, go_error + Message list) gom" where
  "read_fixed =
     gbind (gsnd (gmod Mark)) (\<lambda>_.
     gbind decode_header (\<lambda>_.
     gbind (gfst (\<lambda>c. c\<lparr>msg := (case header c of None \<Rightarrow> None | Some h \<Rightarrow> NewMessage h)\<rparr>)) (\<lambda>_.
     gbind (gget (\<lambda>s. msg (fst s))) (\<lambda>m.
       if m = None then gret (Inl (GoErr ''No matched message ''))
       else gbind (on_current DecodeFixedHeader) (finish_case ReadVariableHeader)))))"

definition read_variable :: "(Codec \<times> ioBuffer, go_error + Message list) gom" where
  "read_variable =
     gbind (gsnd (gmod Mark)) (\<lambda>_ s.
       case header (fst s) of
         None \<Rightarrow> (Inl (PanicRuntime NilDereference), s)
       | Some h \<Rightarrow>
           if sint (word_of_int (Len (snd s)) :: 32 word) < sint (remainingLength h)
           then (Inl (PanicErr ErrorInvalidRemainingLength), s)
           else gbind (on_current DecodeVariableHeader) (finish_case ReadPayload) s)"

definition read_payload :: "(Codec \<times> ioBuffer, go_error + Message list) gom" where
  "read_payload =
     gbind (gsnd (gmod Mark)) (\<lambda>_. gbind (on_current DecodePayload) (finish_case ReadPayload))"

text \<open>One turn of the loop, without the \<open>Mark\<close> that ends it.\<close>

definition decode_step :: "(Codec \<times> ioBuffer, go_error + Message list) gom" where
  "decode_step s =
     (case decoderState (fst s) of
        ReadFixedHeader \<Rightarrow> read_fixed s
      | ReadVariableHeader \<Rightarrow> read_variable s
      | ReadPayload \<Rightarrow> read_payload s)"

partial_function (option) decode_loop ::
  "Codec \<Rightarrow> Message list \<Rightarrow> ioBuffer \<Rightarrow> (go_error option go \<times> Message list \<times> Codec \<times> ioBuffer) option" where
  "decode_loop c msgs b =
     (if Len b > 0 then
        (case decode_step (c, b) of
           (Inl e, (c', b')) \<Rightarrow> Some (Inl e, msgs, c', b')
         | (Inr (Inl err), (c', b')) \<Rightarrow> Some (Inr (Some err), [], c', b')
         | (Inr (Inr ms), (c', b')) \<Rightarrow> decode_loop c' (msgs @ ms) (Mark b'))
      else Some (Inr None, msgs, c, b))"

text \<open>The error a recovered value stands for: a value that is not an \<open>error\<close> leaves the named result nil.\<close>

fun rt_message :: "rt_error \<Rightarrow> string" where
  "rt_message SliceBounds = ''runtime error: slice bounds out of range''"
| "rt_message IndexRange = ''runtime error: index out of range''"
| "rt_message NilDereference = ''runtime error: invalid memory address or nil pointer dereference''"
| "rt_message MakeSlice = ''runtime error: makeslice: len out of range''"

fun recovered :: "panic \<Rightarrow> go_error option" where
  "recovered (PanicErr e) = Some e"
| "recovered (PanicRuntime r) = Some (GoErr (rt_message r))"
| "recovered (PanicValue v) = None"

definition doDecode :: "Codec \<Rightarrow> ioBuffer \<Rightarrow> (Message list \<times> go_error option \<times> Codec \<times> ioBuffer) option" where
  "doDecode c b =
     (if Len b = 0 then Some ([], Some (GoErr ''Invalid buffer ''), c, b)
      else case decode_loop c [] b of
             None \<Rightarrow> None
           | Some (Inr e, msgs, c', b') \<Rightarrow> Some (msgs, e, c', b')
           | Some (Inl p, msgs, c', b') \<Rightarrow>
               if msgs \<noteq> [] then Some (msgs, None, c', b') else Some ([], recovered p, c', Restore b'))"

text \<open>
  \<open>Codec.Decode\<close>: after an error nothing is passed on; otherwise the messages go to the filter in order, each with a fresh stream id,
  until it answers \<open>Stop\<close>. The filter is a parameter \<open>onDone\<close> with a state of its own: its answer to a stream id and a message, and its
  next state. \<open>GenerateID\<close> adds one to a 64-bit counter and returns it, in one atomic step; the counter is global, and \<open>others i\<close> is
  how many ids the other goroutines, the other protocols and the filter itself draw between the \<open>i\<close>-th call of the loop and the
  one before. The result lists the calls of the filter: the stream id, the message and whether the answer was \<open>Stop\<close>.
\<close>

fun deliver ::
  "(64 word \<Rightarrow> Message \<Rightarrow> 's \<Rightarrow> bool \<times> 's) \<Rightarrow> (nat \<Rightarrow> nat) \<Rightarrow> Message list \<Rightarrow> 64 word \<Rightarrow> 's \<Rightarrow>
     (64 word \<times> Message \<times> bool) list \<times> 64 word \<times> 's" where
  "deliver onDone others [] g s = ([], g, s)"
| "deliver onDone others (m # ms) g s =
     (let streamID = g + of_nat (others 0) + 1;
          (stop, s') = onDone streamID m s
      in if stop then ([(streamID, m, stop)], streamID, s')
         else (case deliver onDone (\<lambda>i. others (Suc i)) ms streamID s' of
                 (out, g', s'') \<Rightarrow> ((streamID, m, stop) # out, g', s'')))"

definition Decode ::
  "(64 word \<Rightarrow> Message \<Rightarrow> 's \<Rightarrow> bool \<times> 's) \<Rightarrow> (nat \<Rightarrow> nat) \<Rightarrow> Codec \<Rightarrow> ioBuffer \<Rightarrow> 64 word \<Rightarrow> 's \<Rightarrow>
     ((64 word \<times> Message \<times> bool) list \<times> Codec \<times> ioBuffer \<times> 64 word \<times> 's) option" where
  "Decode onDone others c b g s =
     (case doDecode c b of
        None \<Rightarrow> None
      | Some (msgs, Some e, c', b') \<Rightarrow> Some ([], c', b', g, s)
      | Some (msgs, None, c', b') \<Rightarrow>
          (case deliver onDone others msgs g s of (out, g', s') \<Rightarrow> Some (out, c', b', g', s')))"

section \<open>One message\<close>

lemma Mark_simps [simp]: "io_inv (Mark b) = io_inv b" "unread (Mark b) = unread b" "Len (Mark b) = Len b"
  "Mark (Mark b) = Mark b"
  by (simp_all add: Mark_def io_inv_def unread_def Len_def)

definition idle :: "Codec \<Rightarrow> bool" where
  "idle c \<longleftrightarrow> decoderState c = ReadFixedHeader \<and> msg c = None"

lemma idle_NewCodec: "idle NewCodec"
  by (simp add: idle_def NewCodec_def)

definition waiting :: "Message \<Rightarrow> Codec \<Rightarrow> bool" where
  "waiting m c \<longleftrightarrow> decoderState c = ReadVariableHeader \<and> header c = Some (wire_header m) \<and>
     (\<exists>m1. msg c = Some m1 \<and> reads_body m1 (received m) (wire_body m))"

text \<open>The bytes of the fixed header.\<close>

definition wire_fixed :: "Message \<Rightarrow> bytes" where
  "wire_fixed m = (16 * type_tag m + wire_flag m) # wire_length (length (wire_body m))"

lemma wire_split: "wire m = wire_fixed m @ wire_body m"
  by (simp add: wire_def wire_fixed_def)

definition sendable :: "Message \<Rightarrow> bool" where
  "sendable m \<longleftrightarrow> ok_msg m \<and> ok_header m \<and> single m"

lemma Len_pos: "io_inv b \<Longrightarrow> unread b \<noteq> [] \<Longrightarrow> Len b > 0"
  by (simp add: unread_empty_iff Len_def)

lemma decode_loop_step:
  assumes "io_inv b" and "unread b \<noteq> []" and "decode_step (c, b) = (Inr (Inr ms), (c', b'))"
  shows "decode_loop c msgs b = decode_loop c' (msgs @ ms) (Mark b')"
  using Len_pos [OF assms(1,2)] assms(3) by (subst decode_loop.simps) simp

lemma decode_loop_end:
  assumes "io_inv b" and "unread b = []"
  shows "decode_loop c msgs b = Some (Inr None, msgs, c, b)"
  using Len_unread [OF assms(1)] assms(2) by (subst decode_loop.simps) simp

text \<open>The fixed header: a message without a body is complete; the others leave the codec waiting for the body.\<close>

lemma fixed_step_empty:
  assumes "sendable m" and "wire_body m = []" and "idle c" and b: "io_inv b" "unread b = wire m @ rest"
  obtains c' b' where "decode_step (c, b) = (Inr (Inr [received m]), (c', b'))" and "idle c'"
    and "io_inv b'" and "unread b' = rest"
proof -
  from assms(1) have ok: "ok_msg m" "ok_header m" "single m" by (auto simp: sendable_def)
  from Header_decode_wire [OF ok(1,2), of "Mark b" rest zeroHeader] b obtain b1
    where b1: "Header_decode (zeroHeader, Mark b) = (Inr (), (wire_header m, b1))" "io_inv b1" "unread b1 = wire_body m @ rest"
    by auto
  from ok_reads [OF ok] assms(2) obtain m0 where m0: "NewMessage (wire_header m) = Some m0"
      "\<And>b. DecodeFixedHeader (m0, b) = (Inr True, (received m, b))"
    by (auto simp: reads_msg_def)
  show thesis
    by (rule that [of "c\<lparr>header := Some (wire_header m), msg := None, decoderState := ReadFixedHeader\<rparr>" b1])
      (use assms(2,3) b1 m0 in \<open>simp_all add: decode_step_def read_fixed_def gbind_def gsnd_def gmod_def decode_header_def
        gfst_def gget_def on_current_def finish_case_def idle_def\<close>)
qed

lemma fixed_step_body:
  assumes "sendable m" and "wire_body m \<noteq> []" and "idle c" and b: "io_inv b" "unread b = wire_fixed m @ rest"
  obtains c' b' where "decode_step (c, b) = (Inr (Inr []), (c', b'))" and "waiting m c'"
    and "io_inv b'" and "unread b' = rest"
proof -
  from assms(1) have ok: "ok_msg m" "ok_header m" "single m" by (auto simp: sendable_def)
  from ok_reads [OF ok] assms(2) obtain m0 m1 where m0: "NewMessage (wire_header m) = Some m0"
      "\<And>b. DecodeFixedHeader (m0, b) = (Inr False, (m1, b))" "reads_body m1 (received m) (wire_body m)"
    by (auto simp: reads_msg_def)
  obtain b1 where b1: "Header_decode (zeroHeader, Mark b) = (Inr (), (wire_header m, b1))" "io_inv b1" "unread b1 = rest"
    by (rule Header_decode_fixed [OF ok(1,2), of "Mark b" rest zeroHeader]) (use b in \<open>auto simp: wire_fixed_def\<close>)
  show thesis
    by (rule that [of "c\<lparr>header := Some (wire_header m), msg := Some m1, decoderState := ReadVariableHeader\<rparr>" b1])
      (use assms(3) b1 m0 in \<open>simp_all add: decode_step_def read_fixed_def gbind_def gsnd_def gmod_def decode_header_def
        gfst_def gget_def on_current_def finish_case_def waiting_def idle_def\<close>)
qed

text \<open>The body, once all of it is in the buffer.\<close>

lemma sint_Len:
  assumes "io_inv b" and "length (unread b) < 2147483648"
  shows "sint (word_of_int (Len b) :: 32 word) = int (length (unread b))"
  using sint_of_nat32 [OF assms(2)] Len_unread [OF assms(1)] by simp

lemma body_steps:
  assumes m: "ok_msg m" and w: "waiting m c" and b: "io_inv b" "unread b = wire_body m @ rest" and ne: "wire_body m \<noteq> []"
    and len: "length (unread b) < 2147483648"
  shows "\<exists>c' b'. decode_loop c msgs b = decode_loop c' (msgs @ [received m]) b' \<and> idle c' \<and> io_inv b' \<and> unread b' = rest"
proof -
  from w obtain m1 where c: "decoderState c = ReadVariableHeader" "header c = Some (wire_header m)" "msg c = Some m1"
    and r: "reads_body m1 (received m) (wire_body m)" by (auto simp: waiting_def)
  have lb: "length (wire_body m) < 2147483648" using m by (simp add: ok_msg_def)
  have short: "\<not> sint (word_of_int (Len b) :: 32 word) < sint (remainingLength (wire_header m))"
    using sint_Len [OF b(1) len] sint_of_nat32 [OF lb] b(2) by (simp add: wire_header_def)
  have step: "decode_step (c, b) = gbind (on_current DecodeVariableHeader) (finish_case ReadPayload) (c, Mark b)"
    using c short by (simp add: decode_step_def read_variable_def gbind_def gsnd_def gmod_def)
  have ne': "unread b \<noteq> []" using b(2) ne by simp
  from r consider (one) "takes DecodeVariableHeader m1 True (received m) (wire_body m)"
    | (two) m2 d1 d2 where "wire_body m = d1 @ d2" "d2 \<noteq> []" "takes DecodeVariableHeader m1 False m2 d1"
        "takes DecodePayload m2 True (received m) d2"
    unfolding reads_body_def by blast
  then show ?thesis
  proof cases
    case one
    from takesE [OF one, of "Mark b" rest] b obtain b1
      where b1: "DecodeVariableHeader (m1, Mark b) = (Inr True, (received m, b1))" "io_inv b1" "unread b1 = rest"
      by auto
    let ?c = "c\<lparr>msg := None, decoderState := ReadFixedHeader\<rparr>"
    have "decode_step (c, b) = (Inr (Inr [received m]), (?c, b1))"
      using step c b1 by (simp add: gbind_def on_current_def finish_case_def)
    from decode_loop_step [OF b(1) ne' this, of msgs] b1
    show ?thesis by (intro exI [of _ ?c] exI [of _ "Mark b1"]) (simp add: idle_def)
  next
    case two
    from takesE [OF two(3), of "Mark b" "d2 @ rest"] b two(1) obtain b1
      where b1: "DecodeVariableHeader (m1, Mark b) = (Inr False, (m2, b1))" "io_inv b1" "unread b1 = d2 @ rest"
      by auto
    let ?c = "c\<lparr>msg := Some m2, decoderState := ReadPayload\<rparr>"
    have "decode_step (c, b) = (Inr (Inr []), (?c, b1))"
      using step c b1 by (simp add: gbind_def on_current_def finish_case_def)
    from decode_loop_step [OF b(1) ne' this, of msgs]
    have l1: "decode_loop c msgs b = decode_loop ?c msgs (Mark b1)" by simp
    from takesE [OF two(4), of "Mark (Mark b1)" rest] b1 obtain b2
      where b2: "DecodePayload (m2, Mark (Mark b1)) = (Inr True, (received m, b2))" "io_inv b2" "unread b2 = rest"
      by auto
    let ?c' = "?c\<lparr>msg := None, decoderState := ReadFixedHeader\<rparr>"
    have "decode_step (?c, Mark b1) = (Inr (Inr [received m]), (?c', b2))"
      using b2 by (simp add: decode_step_def read_payload_def gbind_def gsnd_def gmod_def on_current_def finish_case_def)
    from decode_loop_step [OF _ _ this, of msgs] b1 two(2) l1 b2
    show ?thesis by (intro exI [of _ ?c'] exI [of _ "Mark b2"]) (simp add: idle_def)
  qed
qed

text \<open>A message, read from its first byte to its last.\<close>

lemma decode_one:
  assumes m: "sendable m" and c: "idle c" and b: "io_inv b" "unread b = wire m @ rest"
    and len: "length (unread b) < 2147483648"
  obtains c' b' where "decode_loop c msgs b = decode_loop c' (msgs @ [received m]) b'" and "idle c'"
    and "io_inv b'" and "unread b' = rest"
proof (cases "wire_body m = []")
  case True
  from fixed_step_empty [OF m True c b] obtain c' b'
    where s: "decode_step (c, b) = (Inr (Inr [received m]), (c', b'))" "idle c'" "io_inv b'" "unread b' = rest" by blast
  have "unread b \<noteq> []" using b(2) by (simp add: wire_def)
  from decode_loop_step [OF b(1) this s(1), of msgs] s that [of c' "Mark b'"] show thesis by simp
next
  case False
  have u: "unread b = wire_fixed m @ wire_body m @ rest" using b(2) by (simp add: wire_split)
  from fixed_step_body [OF m False c b(1) u] obtain c1 b1
    where s: "decode_step (c, b) = (Inr (Inr []), (c1, b1))" "waiting m c1" "io_inv b1" "unread b1 = wire_body m @ rest"
    by blast
  have "unread b \<noteq> []" using u by (simp add: wire_fixed_def)
  from decode_loop_step [OF b(1) this s(1), of msgs] have l: "decode_loop c msgs b = decode_loop c1 msgs (Mark b1)" by simp
  have "length (unread (Mark b1)) < 2147483648" using len u s(4) by simp
  with body_steps [of m c1 "Mark b1" rest msgs] m s False
  obtain c' b' where "decode_loop c1 msgs (Mark b1) = decode_loop c' (msgs @ [received m]) b'" "idle c'" "io_inv b'" "unread b' = rest"
    by (auto simp: sendable_def)
  with l that show thesis by simp
qed

text \<open>A run of messages.\<close>

lemma decode_stream:
  assumes "list_all sendable ms" and "idle c" and "io_inv b" and "unread b = concat (map wire ms) @ rest"
    and "length (unread b) < 2147483648"
  obtains c' b' where "decode_loop c msgs b = decode_loop c' (msgs @ map received ms) b'" and "idle c'"
    and "io_inv b'" and "unread b' = rest"
  using assms
proof (induction ms arbitrary: c b msgs thesis)
  case Nil
  then show ?case by auto
next
  case (Cons m ms)
  from Cons.prems(2,5) have m: "sendable m" and ms: "list_all sendable ms"
    and u: "unread b = wire m @ concat (map wire ms) @ rest" by auto
  from decode_one [OF m Cons.prems(3,4) u Cons.prems(6), of msgs] obtain c1 b1
    where 1: "decode_loop c msgs b = decode_loop c1 (msgs @ [received m]) b1" "idle c1" "io_inv b1"
      "unread b1 = concat (map wire ms) @ rest" by blast
  have "length (unread b1) < 2147483648" using Cons.prems(6) u 1(4) by simp
  from Cons.IH [OF _ ms 1(2-4) this, of "msgs @ [received m]"] obtain c' b'
    where "decode_loop c1 (msgs @ [received m]) b1 = decode_loop c' (msgs @ received m # map received ms) b'"
      "idle c'" "io_inv b'" "unread b' = rest" by auto
  with 1(1) show ?case by (intro Cons.prems(1)) auto
qed

section \<open>Streams of messages\<close>

lemma sendable_wire: "sendable m \<Longrightarrow> wire m \<noteq> []"
  by (simp add: wire_def)

lemma wire_length_short: "length (wire_length n) \<le> Suc n"
proof (induction n rule: wire_length.induct)
  case (1 n)
  then show ?case by (cases "n < 128") (auto simp: wire_length.simps [of n])
qed

lemma wire_short: "ok_msg m \<Longrightarrow> length (wire m) < 2147483648"
  using wire_length_short [of "length (wire_body m)"] by (simp add: wire_def ok_msg_def)

lemma doDecode_nonempty:
  assumes "io_inv b" and "unread b \<noteq> []"
  shows "doDecode c b =
     (case decode_loop c [] b of
        None \<Rightarrow> None
      | Some (Inr e, msgs, c', b') \<Rightarrow> Some (msgs, e, c', b')
      | Some (Inl p, msgs, c', b') \<Rightarrow>
          if msgs \<noteq> [] then Some (msgs, None, c', b') else Some ([], recovered p, c', Restore b'))"
  using Len_pos [OF assms] by (simp add: doDecode_def)

text \<open>A codec that waits for a body reads it, and the messages after it.\<close>

lemma doDecode_waiting:
  assumes "sendable m" and "list_all sendable ms" and "waiting m c" and "wire_body m \<noteq> []"
    and b: "io_inv b" "unread b = wire_body m @ concat (map wire ms)" and len: "length (unread b) < 2147483648"
  obtains c' b' where "doDecode c b = Some (received m # map received ms, None, c', b')" and "idle c'" and "unread b' = []"
proof -
  from body_steps [OF _ assms(3) b assms(4) len, of "[]"] assms(1) obtain c1 b1
    where 1: "decode_loop c [] b = decode_loop c1 [received m] b1" "idle c1" "io_inv b1" "unread b1 = concat (map wire ms)"
    by (auto simp: sendable_def)
  have "unread b1 = concat (map wire ms) @ []" "length (unread b1) < 2147483648" using 1(4) b(2) len by simp_all
  from decode_stream [OF assms(2) 1(2,3) this, of "[received m]"] obtain c' b'
    where 2: "decode_loop c1 [received m] b1 = decode_loop c' (received m # map received ms) b'" "idle c'" "io_inv b'" "unread b' = []"
    by auto
  show thesis
    by (rule that [of c' b']) (use 1(1) 2 decode_loop_end [OF 2(3,4)] doDecode_nonempty [OF b(1)] b(2) assms(4) in auto)
qed

text \<open>The part of a message after its fixed header that has not arrived completely: the codec waits.\<close>

lemma decode_partial:
  assumes m: "sendable m" and ms: "list_all sendable ms" and c: "idle c"
    and b: "io_inv b" "unread b = concat (map wire ms) @ wire_fixed m @ d"
    and d: "length d < length (wire_body m)" and len: "length (unread b) < 2147483648"
  obtains r c' b' where "decode_loop c [] b = Some (r, map received ms, c', b')"
    and "r = (if d = [] then Inr None else Inl (PanicErr ErrorInvalidRemainingLength))"
    and "waiting m c'" and "unread b' = d" and "unread (Restore b') = d"
proof -
  from decode_stream [OF ms c b len, of "[]"] obtain c1 b1
    where 1: "decode_loop c [] b = decode_loop c1 (map received ms) b1" "idle c1" "io_inv b1" "unread b1 = wire_fixed m @ d"
    by auto
  have ne: "wire_body m \<noteq> []" "unread b1 \<noteq> []" using d 1(4) by (auto simp: wire_fixed_def)
  from fixed_step_body [OF m ne(1) 1(2-4)] obtain c2 b2
    where 2: "decode_step (c1, b1) = (Inr (Inr []), (c2, b2))" "waiting m c2" "io_inv b2" "unread b2 = d"
    by blast
  from decode_loop_step [OF 1(3) ne(2) 2(1), of "map received ms"]
  have l: "decode_loop c [] b = decode_loop c2 (map received ms) (Mark b2)" using 1(1) by simp
  have R: "unread (Restore (Mark b2)) = d" using 2(4) by (simp add: Restore_def Mark_def ResetOffMark_def unread_def)
  show thesis
  proof (cases "d = []")
    case True
    with that [of "Inr None" c2 "Mark b2"] l 2 R decode_loop_end [of "Mark b2"] show thesis by simp
  next
    case False
    have lb: "length (wire_body m) < 2147483648" using m by (simp add: sendable_def ok_msg_def)
    have "length (unread b2) < 2147483648" using d lb 2(4) by simp
    from sint_Len [OF 2(3) this] have "sint (word_of_int (Len b2) :: 32 word) < sint (remainingLength (wire_header m))"
      using sint_of_nat32 [OF lb] d 2(4) by (simp add: wire_header_def)
    moreover have "decoderState c2 = ReadVariableHeader" "header c2 = Some (wire_header m)"
      using 2(2) by (auto simp: waiting_def)
    ultimately have "decode_step (c2, Mark b2) = (Inl (PanicErr ErrorInvalidRemainingLength), (c2, Mark b2))"
      by (simp add: decode_step_def read_variable_def gbind_def gsnd_def gmod_def)
    moreover have "Len (Mark b2) > 0" using Len_pos [of "Mark b2"] 2(3,4) False by simp
    ultimately have "decode_loop c2 (map received ms) (Mark b2) =
        Some (Inl (PanicErr ErrorInvalidRemainingLength), map received ms, c2, Mark b2)"
      by (subst decode_loop.simps) simp
    with that [of "Inl (PanicErr ErrorInvalidRemainingLength)" c2 "Mark b2"] l 2 R False show thesis by simp
  qed
qed

text \<open>A buffer that holds \<open>d\<close>, for the examples.\<close>

definition bufferOf :: "bytes \<Rightarrow> ioBuffer" where
  "bufferOf d = snd (NewIoBufferBytes (Some (d, [])) newByteBufferPool)"

lemma bufferOf_spec: "io_inv (bufferOf d)" "unread (bufferOf d) = d"
  using NewIoBufferBytes_spec [OF pool_inv_new, of d "[]"] by (simp_all add: bufferOf_def wb_inv_def)

definition pubSample :: Publish where
  "pubSample = PacketId.extend \<lparr>msgType = 3, msgFlag = 0, remainingLength = 0, PacketIdentifier = 7\<rparr>
     \<lparr>Dup = False, Qos = 1, Retain = True, TopicName = [97, 47, 98], Payload = [1, 2, 3]\<rparr>"

definition ackSample :: PacketId where
  "ackSample = \<lparr>msgType = 4, msgFlag = 0, remainingLength = 0, PacketIdentifier = 7\<rparr>"

lemma samples_sendable: "sendable (MPublish pubSample)" "sendable (MPubAck ackSample)"
  by (simp_all add: sendable_def ok_msg_def ok_header_def pubSample_def ackSample_def PacketId.extend_def Qos_IsValid_def
      ok_string_def publish_var_def wire_string_def wire16_bytes Qos_HasId_def)

lemma ack_wire: "wire_fixed (MPubAck ackSample) = [0x40, 2]" "wire_body (MPubAck ackSample) = [0, 7]"
    "wire (MPubAck ackSample) = [0x40, 2, 0, 7]"
  by (simp_all add: wire_split wire_fixed_def ackSample_def wire16_bytes wire_length.simps)

section \<open>Delivery\<close>

text \<open>The answers in the list \<open>out\<close> are those of the filter, from state \<open>s\<close> to state \<open>s'\<close>.\<close>

fun answered :: "(64 word \<Rightarrow> Message \<Rightarrow> 's \<Rightarrow> bool \<times> 's) \<Rightarrow> (64 word \<times> Message \<times> bool) list \<Rightarrow> 's \<Rightarrow> 's \<Rightarrow> bool" where
  "answered onDone [] s s' \<longleftrightarrow> s = s'"
| "answered onDone ((i, m, stop) # out) s s' \<longleftrightarrow> (\<exists>s1. onDone i m s = (stop, s1) \<and> answered onDone out s1 s')"

lemma next_id:
  assumes "unat (g :: 64 word) + k + 1 < 2 ^ 64"
  shows "unat (g + of_nat k + 1) = unat g + k + 1"
proof -
  have "g + of_nat k + 1 = of_nat (unat g + k + 1)" by simp
  then show ?thesis using assms by (simp only: unsigned_of_nat take_bit_eq_mod) simp
qed

lemma deliver_spec:
  assumes "deliver onDone others ms g s = (out, g', s')" and "unat g + (\<Sum>i < length ms. others i) + length ms < 2 ^ 64"
  shows "map (fst \<circ> snd) out = take (length out) ms \<and> answered onDone out s s' \<and>
     (length out < length ms \<longrightarrow> out \<noteq> [] \<and> snd (snd (last out))) \<and> (\<forall>x \<in> set (butlast out). \<not> snd (snd x)) \<and>
     sorted_wrt (<) (g # map fst out) \<and> g' = last (g # map fst out)"
  using assms
proof (induction ms arbitrary: others g s out)
  case Nil
  then show ?case by simp
next
  case (Cons m ms)
  let ?id = "g + of_nat (others 0) + 1"
  have sum: "(\<Sum>i < length (m # ms). others i) = others 0 + (\<Sum>i < length ms. others (Suc i))"
    by (simp add: sum.lessThan_Suc_shift del: sum.lessThan_Suc)
  have "unat g + others 0 + 1 < 2 ^ 64" using Cons.prems(2) unfolding sum by simp
  then have id: "unat ?id = unat g + others 0 + 1" by (rule next_id)
  then have lt: "g < ?id" by (simp add: word_less_nat_alt)
  obtain stop s1 where f: "onDone ?id m s = (stop, s1)" by fastforce
  show ?case
  proof (cases stop)
    case True
    then have "out = [(?id, m, stop)]" "g' = ?id" "s' = s1" using Cons.prems(1) f by (auto simp: Let_def)
    then show ?thesis using True f lt by simp
  next
    case False
    obtain o1 where o: "deliver onDone (\<lambda>i. others (Suc i)) ms ?id s1 = (o1, g', s')" "out = (?id, m, stop) # o1"
      using Cons.prems(1) f False by (auto simp: Let_def split: prod.splits)
    have "unat ?id + (\<Sum>i < length ms. others (Suc i)) + length ms < 2 ^ 64"
      using Cons.prems(2) unfolding sum id by simp
    note IH = Cons.IH [OF o(1) this]
    have "sorted_wrt (<) (g # ?id # map fst o1)" using IH lt by (auto intro: less_trans)
    moreover have "\<forall>x \<in> set (butlast out). \<not> snd (snd x)" using IH o False by auto
    ultimately show ?thesis using IH o f by (auto split: if_splits)
  qed
qed

section \<open>Properties\<close>

text \<open>
  C1. Round trip of a message: the encoder succeeds, and a fresh codec that decodes what it wrote returns one message, no error, and no
  byte is left. That message is the one that was encoded: it has the same type, the same value in every field that the flags put
  into the format (the others are zero), and the flags in its header; only the remaining length in the header is the decoder's.
  This is for every message whose fields are valid (strings not empty and shorter than 64 kB, valid quality of service and return
  code, the header's type that of the message), with at most one topic filter or return code, since the decoder reads no more, and,
  for an UNSUBSCRIBE, without topic names, since the encoder writes none.
\<close>

theorem encode_decode_roundtrip:
  assumes "sendable m" and "no_topics m" and "pool_inv p"
  shows "\<exists>w m' c b m''. Encode m p = Inr (Inr w, m') \<and> doDecode NewCodec (snd w) = Some ([m''], None, c, b) \<and> unread b = [] \<and>
     arrives m m''"
proof -
  from Encode_encodes assms obtain w m' where e: "Encode m p = Inr (Inr w, m')" "wb_inv w" "content w = wire m"
    unfolding encodes_to_def sendable_def by blast
  have io: "io_inv (snd w)" using e(2) by (simp add: wb_inv_def)
  have len: "length (unread (snd w)) < 2147483648"
    using e(3) assms(1) wire_short [of m] by (simp add: sendable_def)
  have u: "content w = wire m @ []" using e(3) by simp
  obtain c b where d: "decode_loop NewCodec [] (snd w) = decode_loop c ([] @ [received m]) b" "io_inv b" "unread b = []"
    by (rule decode_one [OF assms(1) idle_NewCodec io u len])
  have "doDecode NewCodec (snd w) = Some ([received m], None, c, b)"
    using doDecode_nonempty [OF io, of NewCodec] e(3) sendable_wire [OF assms(1)] d decode_loop_end [OF d(2,3)] by simp
  moreover have "arrives m (received m)" using arrives_received assms(1) by (simp add: sendable_def)
  ultimately show ?thesis using e d(3) by blast
qed

theorem encode_decode_roundtrip_witness:
  "\<exists>w m' c b m''. Encode (MPublish pubSample) newByteBufferPool = Inr (Inr w, m') \<and>
     doDecode NewCodec (snd w) = Some ([m''], None, c, b) \<and> unread b = [] \<and>
     set_header (msg_header (MPublish pubSample)) m'' = MPublish pubSample"
  using encode_decode_roundtrip [OF samples_sendable(1) _ pool_inv_new]
  by (auto simp: arrives_def pubSample_def PacketId.extend_def)

text \<open>
  C9. The codec reads a stream: from any idle state, a buffer with the MQTT formats of any number of messages, one after the other, is
  decoded to exactly these messages in order (every field that is in the format, the type and the flags), with no error, no byte
  left, and the codec idle again. The messages have valid fields and at most one topic filter, return code or topic name each: the
  decoder reads no more of them.
\<close>

theorem decode_stream_complete:
  assumes "list_all sendable ms" and "ms \<noteq> []" and "idle c" and "io_inv b"
    and "unread b = concat (map wire ms)" and "length (unread b) < 2147483648"
  shows "\<exists>ms' c' b'. doDecode c b = Some (ms', None, c', b') \<and> list_all2 arrives ms ms' \<and> idle c' \<and> unread b' = []"
proof -
  have u: "unread b = concat (map wire ms) @ []" using assms(5) by simp
  obtain c' b' where d: "decode_loop c [] b = decode_loop c' ([] @ map received ms) b'" "idle c'" "io_inv b'" "unread b' = []"
    by (rule decode_stream [OF assms(1,3,4) u assms(6)])
  have "unread b \<noteq> []" using assms(1,2,5) by (cases ms) (auto simp: sendable_wire)
  then have "doDecode c b = Some (map received ms, None, c', b')"
    using doDecode_nonempty [OF assms(4), of c] d decode_loop_end [OF d(3,4)] by simp
  moreover have "list_all2 arrives ms (map received ms)"
    using assms(1) by (auto simp: list_all2_conv_all_nth list_all_length sendable_def arrives_received)
  ultimately show ?thesis using d by blast
qed

theorem decode_stream_complete_witness:
  "\<exists>ms' c' b'. doDecode NewCodec (bufferOf [0x40, 2, 0, 7, 0x40, 2, 0, 7]) = Some (ms', None, c', b') \<and>
     list_all2 arrives [MPubAck ackSample, MPubAck ackSample] ms' \<and> idle c' \<and> unread b' = []"
  using decode_stream_complete [of "[MPubAck ackSample, MPubAck ackSample]" NewCodec
      "bufferOf [0x40, 2, 0, 7, 0x40, 2, 0, 7]"] samples_sendable(2) idle_NewCodec
  by (simp add: bufferOf_spec ack_wire)

text \<open>
  C20. A message whose body arrives in two parts is not lost: after complete messages \<open>ms\<close>, the fixed header of
  \<open>m\<close> and only \<open>d\<close> of its body, the codec returns \<open>ms\<close>, keeps \<open>d\<close> in the buffer (the error is reported only when there was no
  complete message), and a later call on a buffer with the whole body and the messages that follow returns \<open>m\<close> and these.
\<close>

theorem split_body_resumes:
  assumes "sendable m" and "list_all sendable ms" and "list_all sendable ms'" and "idle c"
    and "wire_body m = d @ d'" and "d' \<noteq> []"
    and "io_inv b" and "unread b = concat (map wire ms) @ wire_fixed m @ d" and "length (unread b) < 2147483648"
  shows "\<exists>e c1 b1. doDecode c b = Some (map received ms, e, c1, b1) \<and> unread b1 = d \<and>
     (e = None \<longleftrightarrow> ms \<noteq> [] \<or> d = []) \<and>
     (\<forall>b2. io_inv b2 \<and> unread b2 = d @ d' @ concat (map wire ms') \<and> length (unread b2) < 2147483648 \<longrightarrow>
        (\<exists>c2 b3. doDecode c1 b2 = Some (received m # map received ms', None, c2, b3) \<and> idle c2 \<and> unread b3 = []))"
proof -
  have "length d < length (wire_body m)" using assms(5,6) by simp
  then obtain r c1 b1 where 1: "decode_loop c [] b = Some (r, map received ms, c1, b1)"
      "r = (if d = [] then Inr None else Inl (PanicErr ErrorInvalidRemainingLength))"
      "waiting m c1" "unread b1 = d" "unread (Restore b1) = d"
    using decode_partial [OF assms(1,2,4,7,8) _ assms(9)] by blast
  have ne: "unread b \<noteq> []" using assms(8) by (simp add: wire_fixed_def)
  let ?e = "if ms \<noteq> [] \<or> d = [] then None else Some ErrorInvalidRemainingLength"
  let ?b = "if ms \<noteq> [] \<or> d = [] then b1 else Restore b1"
  have "doDecode c b = Some (map received ms, ?e, c1, ?b)"
    using doDecode_nonempty [OF assms(7) ne, of c] 1 by auto
  moreover have "unread ?b = d" using 1 by simp
  moreover have "\<exists>c2 b3. doDecode c1 b2 = Some (received m # map received ms', None, c2, b3) \<and> idle c2 \<and> unread b3 = []"
    if "io_inv b2" "unread b2 = d @ d' @ concat (map wire ms')" "length (unread b2) < 2147483648" for b2
    using doDecode_waiting [OF assms(1,3) 1(3) _ that(1) _ that(3)] assms(5,6) that(2) by (metis append_assoc append_is_Nil_conv)
  ultimately show ?thesis by (intro exI [of _ ?e] exI [of _ c1] exI [of _ ?b]) auto
qed

theorem split_body_resumes_witness:
  "\<exists>e c1 b1. doDecode NewCodec (bufferOf [0x40, 2, 0]) = Some ([], e, c1, b1) \<and> unread b1 = [0] \<and> e \<noteq> None \<and>
     (\<exists>c2 b3. doDecode c1 (bufferOf [0, 7]) = Some ([received (MPubAck ackSample)], None, c2, b3) \<and> idle c2)"
proof -
  from split_body_resumes [of "MPubAck ackSample" "[]" "[]" NewCodec "[0]" "[7]" "bufferOf [0x40, 2, 0]"]
  have "\<exists>e c1 b1. doDecode NewCodec (bufferOf [0x40, 2, 0]) = Some ([], e, c1, b1) \<and> unread b1 = [0] \<and> e \<noteq> None \<and>
     (\<forall>b2. io_inv b2 \<and> unread b2 = [0, 7] \<longrightarrow>
        (\<exists>c2 b3. doDecode c1 b2 = Some ([received (MPubAck ackSample)], None, c2, b3) \<and> idle c2 \<and> unread b3 = []))"
    using samples_sendable(2) idle_NewCodec by (simp add: ack_wire bufferOf_spec del: received.simps wire_body.simps cong: conj_cong)
  then show ?thesis using bufferOf_spec [of "[0, 7]"] by blast
qed

section \<open>Termination\<close>

declare length_unread [simp del]

text \<open>A successful read never leaves more bytes than there were.\<close>

definition reader_ok :: "(ioBuffer, 'a) gom \<Rightarrow> bool" where
  "reader_ok g \<longleftrightarrow>
     (\<forall>b x b'. io_inv b \<longrightarrow> g b = (Inr x, b') \<longrightarrow> io_inv b' \<and> length (unread b') \<le> length (unread b))"

lemma reader_okD: "reader_ok g \<Longrightarrow> io_inv b \<Longrightarrow> g b = (Inr x, b') \<Longrightarrow> io_inv b' \<and> length (unread b') \<le> length (unread b)"
  unfolding reader_ok_def by blast

lemma Read_shrinks: "io_inv b \<Longrightarrow> Read n b = (r, b') \<Longrightarrow> io_inv b' \<and> length (unread b') \<le> length (unread b)"
  by (cases "unread b = []")
    (use Read_inv [of b n] Read_nonempty [of b n] in \<open>auto simp: Read_def unread_empty_iff split: if_splits\<close>)

lemma gbind_Inr_E:
  assumes "gbind g k s = (Inr y, t)"
  obtains x s1 where "g s = (Inr x, s1)" and "k x s1 = (Inr y, t)"
  using assms by (cases "g s"; cases "fst (g s)") (auto simp: gbind_def)

lemma reader_bind:
  assumes g: "reader_ok g" and k: "\<And>x. reader_ok (k x)"
  shows "reader_ok (gbind g k)"
  unfolding reader_ok_def
proof (intro allI impI)
  fix b y b' assume b: "io_inv b" and r: "gbind g k b = (Inr y, b')"
  from r obtain x b1 where 1: "g b = (Inr x, b1)" "k x b1 = (Inr y, b')" by (rule gbind_Inr_E)
  from reader_okD [OF g b 1(1)] reader_okD [OF k _ 1(2)]
  show "io_inv b' \<and> length (unread b') \<le> length (unread b)" by auto
qed

lemma reader_gret: "reader_ok (gret x)"
  by (simp add: reader_ok_def gret_def)

lemma reader_of_Read:
  assumes "\<And>b. snd (g b) = snd (Read n b)"
  shows "reader_ok g"
  unfolding reader_ok_def using assms Read_shrinks [of _ n] by (metis prod.collapse snd_conv)

lemma reader_readExactly: "reader_ok (readExactly n)"
  by (rule reader_of_Read [of _ n]) (simp add: readExactly_def split: prod.splits option.splits)

lemma reader_uint8: "reader_ok getUint8"
  unfolding reader_ok_def
proof (intro allI impI)
  fix b x b' assume b: "io_inv b" "getUint8 b = (Inr x, b')"
  show "io_inv b' \<and> length (unread b') \<le> length (unread b)"
    using b ReadByte_Nil [of b] ReadByte_Cons [of b] io_inv_advance [of b 1]
    by (cases "unread b") (auto simp: getUint8_def)
qed

lemma reader_uint16: "reader_ok getUint16"
proof -
  have "reader_ok (gbind (readExactly 2) (\<lambda>d. gret (BigEndian_Uint16 (d ! 0) (d ! 1))))"
    by (intro reader_bind reader_readExactly reader_gret)
  then show ?thesis unfolding reader_ok_def getUint16_def by (auto split: if_splits)
qed

lemma reader_string: "reader_ok getString"
  unfolding getString_def
proof (rule reader_bind [OF reader_uint16])
  fix n :: "16 word"
  show "reader_ok (\<lambda>b. if Len b < int (unat n) then (Inl (PanicErr ErrorInvalidRemainingLength), b) else readExactly (unat n) b)"
    using reader_readExactly [of "unat n"] unfolding reader_ok_def by auto
qed

lemma reader_filter: "reader_ok getTopicFilter"
  unfolding getTopicFilter_def by (intro reader_bind reader_string reader_uint8 reader_gret)

lemma reader_payload: "reader_ok (readPayload n)"
proof (cases "sint n < 0")
  case True
  then show ?thesis by (simp add: reader_ok_def readPayload_def)
next
  case False
  then show ?thesis
    by (intro reader_of_Read [of _ "nat (sint n)"]) (simp add: readPayload_def split: prod.splits)
qed

text \<open>Steps that also keep the remaining length.\<close>

definition steady :: "('a Header_scheme \<times> ioBuffer, 'x) gom \<Rightarrow> bool" where
  "steady g \<longleftrightarrow>
     (\<forall>m b x m' b'. io_inv b \<longrightarrow> g (m, b) = (Inr x, (m', b')) \<longrightarrow>
        io_inv b' \<and> length (unread b') \<le> length (unread b) \<and> remainingLength m' = remainingLength m)"

lemma steadyD:
  "steady g \<Longrightarrow> io_inv b \<Longrightarrow> g (m, b) = (Inr x, (m', b')) \<Longrightarrow>
     io_inv b' \<and> length (unread b') \<le> length (unread b) \<and> remainingLength m' = remainingLength m"
  unfolding steady_def by blast

lemma steady_assign:
  assumes "reader_ok g" and "\<And>x m. remainingLength (upd x m) = remainingLength m"
  shows "steady (gassign g upd)"
  unfolding steady_def gassign_def gbind_def gsnd_def gfst_def
  using assms by (auto split: prod.splits sum.splits dest: reader_okD)

lemma steady_gseq: "list_all steady gs \<Longrightarrow> steady (gseq gs)"
proof (induction gs)
  case Nil
  then show ?case by (simp add: steady_def gret_def)
next
  case (Cons g gs)
  then have g: "steady g" and gs: "steady (gseq gs)" by simp_all
  show ?case unfolding steady_def
  proof (intro allI impI)
    fix m b x m' b' assume b: "io_inv b" and r: "gseq (g # gs) (m, b) = (Inr x, (m', b'))"
    then obtain u m1 b1 where 1: "g (m, b) = (Inr u, (m1, b1))" "gseq gs (m1, b1) = (Inr x, (m', b'))"
      by (auto simp: gbind_def split: prod.splits sum.splits)
    from steadyD [OF g b 1(1)] steadyD [OF gs _ 1(2)]
    show "io_inv b' \<and> length (unread b') \<le> length (unread b) \<and> remainingLength m' = remainingLength m" by auto
  qed
qed

lemma steady_gwhen: "steady g \<Longrightarrow> steady (gwhen c g)"
  unfolding steady_def by (auto simp: gwhen_run)

lemma steady_panic: "steady (gpanic p)"
  by (simp add: steady_def gpanic_def)

lemmas steady_intros = steady_gseq steady_assign steady_gwhen steady_panic
  reader_uint8 reader_uint16 reader_string reader_filter reader_payload

text \<open>A metered run of reads subtracts from the remaining length exactly what it has read.\<close>

definition account :: "('a Header_scheme \<times> ioBuffer, 'x) gom \<Rightarrow> bool" where
  "account g \<longleftrightarrow>
     (\<forall>m b x m' b'. io_inv b \<longrightarrow> g (m, b) = (Inr x, (m', b')) \<longrightarrow>
        io_inv b' \<and> length (unread b') \<le> length (unread b) \<and>
        remainingLength m' = remainingLength m - of_nat (length (unread b) - length (unread b')))"

lemma metered_account:
  assumes "steady g"
  shows "account (metered g)"
  unfolding account_def
proof (intro allI impI)
  fix m b x m' b' assume b: "io_inv b" and r: "metered g (m, b) = (Inr x, (m', b'))"
  from r obtain u m1 where 1: "g (m, b) = (Inr u, (m1, b'))"
      "m' = m1\<lparr>remainingLength := remainingLength m1 - word_of_int (Len b - Len b')\<rparr>"
    unfolding metered_def by (elim gbind_Inr_E) (auto simp: gsnd_def gget_def gfst_def)
  note s = steadyD [OF assms b 1(1)]
  then have "Len b - Len b' = int (length (unread b) - length (unread b'))"
    using Len_unread [OF b] Len_unread [of b'] by simp
  then have "(word_of_int (Len b - Len b') :: 32 word) = of_nat (length (unread b) - length (unread b'))"
    by (simp only: of_int_of_nat_eq)
  with s 1(2) show "io_inv b' \<and> length (unread b') \<le> length (unread b) \<and>
        remainingLength m' = remainingLength m - of_nat (length (unread b) - length (unread b'))" by (simp del: of_int_diff)
qed

lemma account_pure:
  assumes "account g" and "\<And>s. \<exists>x. k s = (Inr x, s)"
  shows "account (gbind g (\<lambda>_. k))"
  unfolding account_def
proof (intro allI impI)
  fix m b x m' b' assume b: "io_inv b" and r: "gbind g (\<lambda>_. k) (m, b) = (Inr x, (m', b'))"
  from r obtain u s1 where "g (m, b) = (Inr u, s1)" "k s1 = (Inr x, (m', b'))" by (rule gbind_Inr_E)
  moreover from this assms(2) [of s1] have "s1 = (m', b')" by auto
  ultimately show "io_inv b' \<and> length (unread b') \<le> length (unread b) \<and>
        remainingLength m' = remainingLength m - of_nat (length (unread b) - length (unread b'))"
    using assms(1) b unfolding account_def by blast
qed

lemma account_gret: "account g \<Longrightarrow> account (gbind g (\<lambda>_. gret y))"
  by (rule account_pure) (auto simp: gret_def)

lemma account_nothingLeft: "account g \<Longrightarrow> account (gbind g (\<lambda>_. nothingLeft))"
  by (rule account_pure) (auto simp: nothingLeft_def gget_def)

lemma account_implementMe: "account implementMe"
  by (simp add: account_def implementMe_def gpanic_def)

lemma steady_pid: "steady (gassign getUint16 (\<lambda>i m. m\<lparr>PacketIdentifier := i\<rparr>))"
  by (intro steady_intros) simp

lemmas account_intros = account_gret account_nothingLeft account_implementMe metered_account steady_pid

lemma variable_accounts:
  "account Connect_DecodeVariableHeader" "account ConnAck_DecodeVariableHeader" "account Publish_DecodeVariableHeader"
  "account PubAck_DecodeVariableHeader" "account PubRec_DecodeVariableHeader" "account PubRel_DecodeVariableHeader"
  "account PubComp_DecodeVariableHeader" "account Subscribe_DecodeVariableHeader" "account SubAck_DecodeVariableHeader"
  "account Unsubscribe_DecodeVariableHeader" "account UnsubAck_DecodeVariableHeader"
  "account PingReq_DecodeVariableHeader" "account PingResp_DecodeVariableHeader" "account Disconnect_DecodeVariableHeader"
proof -
  show "account Connect_DecodeVariableHeader" unfolding Connect_DecodeVariableHeader_def
    by (intro account_intros steady_gseq)
      (auto intro!: steady_intros simp: setConnectFlags_def simp del: gseq.simps)
  show "account ConnAck_DecodeVariableHeader" unfolding ConnAck_DecodeVariableHeader_def
    by (intro account_intros steady_gseq) (auto intro!: steady_intros simp del: gseq.simps)
  show "account Publish_DecodeVariableHeader" unfolding Publish_DecodeVariableHeader_def
    by (intro account_intros steady_gseq) (auto intro!: steady_intros simp del: gseq.simps)
qed (unfold PubAck_DecodeVariableHeader_def PubRec_DecodeVariableHeader_def PubRel_DecodeVariableHeader_def
    PubComp_DecodeVariableHeader_def Subscribe_DecodeVariableHeader_def SubAck_DecodeVariableHeader_def
    Unsubscribe_DecodeVariableHeader_def UnsubAck_DecodeVariableHeader_def PingReq_DecodeVariableHeader_def
    PingResp_DecodeVariableHeader_def Disconnect_DecodeVariableHeader_def decodePacketId_def,
    (intro account_intros)+)

lemma on_msg_E:
  assumes "on_msg C f m b = (r, (m', b'))"
  obtains m1 where "f (m, b) = (r, (m1, b'))" and "m' = C m1"
  using assms by (auto simp: on_msg_def split: prod.splits)

lemma accountD:
  "account g \<Longrightarrow> g (m, b) = (Inr x, (m', b')) \<Longrightarrow> io_inv b \<Longrightarrow>
     io_inv b' \<and> length (unread b') \<le> length (unread b) \<and>
     remainingLength m' = remainingLength m - of_nat (length (unread b) - length (unread b'))"
  unfolding account_def by blast

lemma DecodeVariableHeader_account:
  assumes "io_inv b" and "DecodeVariableHeader (m, b) = (Inr x, (m', b'))"
  shows "io_inv b' \<and> length (unread b') \<le> length (unread b) \<and>
     remainingLength (msg_header m') =
       remainingLength (msg_header m) - of_nat (length (unread b) - length (unread b'))"
  using assms(2) by (cases m) (auto elim!: on_msg_E dest!: variable_accounts [THEN accountD] intro: assms(1))

text \<open>A payload method that finds the remaining length in the buffer does not return false.\<close>

definition finishes :: "('a Header_scheme \<times> ioBuffer, bool) gom \<Rightarrow> bool" where
  "finishes g \<longleftrightarrow>
     (\<forall>m b x m' b'. io_inv b \<longrightarrow> sint (remainingLength m) \<le> Len b \<longrightarrow> g (m, b) = (Inr x, (m', b')) \<longrightarrow>
        x \<and> io_inv b' \<and> length (unread b') \<le> length (unread b))"

lemma finishesD:
  "finishes g \<Longrightarrow> g (m, b) = (Inr x, (m', b')) \<Longrightarrow> io_inv b \<Longrightarrow> sint (remainingLength m) \<le> Len b \<Longrightarrow>
     x \<and> io_inv b' \<and> length (unread b') \<le> length (unread b)"
  unfolding finishes_def by blast

lemma finishes_unlessShort:
  assumes "\<And>s. steady (g s) \<or> account (g s)"
  shows "finishes (unlessShort (\<lambda>s. gbind (g s) (\<lambda>_. gret True) s))"
  unfolding finishes_def
proof (intro allI impI)
  fix m b x m' b'
  assume b: "io_inv b" "sint (remainingLength m) \<le> Len b"
    and r: "unlessShort (\<lambda>s. gbind (g s) (\<lambda>_. gret True) s) (m, b) = (Inr x, (m', b'))"
  then have "gbind (g (m, b)) (\<lambda>_. gret True) (m, b) = (Inr x, (m', b'))" by (simp add: unlessShort_def)
  then obtain u where "g (m, b) (m, b) = (Inr u, (m', b'))" "x" by (elim gbind_Inr_E) (auto simp: gret_def)
  then show "x \<and> io_inv b' \<and> length (unread b') \<le> length (unread b)"
    using assms [of "(m, b)"] b(1) by (auto dest: steadyD accountD)
qed

lemma finishes_implementMe: "finishes implementMe"
  by (simp add: finishes_def implementMe_def gpanic_def)

lemma steady_gfst: "(\<And>m. remainingLength (f m) = remainingLength m) \<Longrightarrow> steady (gfst f)"
  by (simp add: steady_def gfst_def)

lemma payload_finishes:
  "finishes Connect_DecodePayload" "finishes Publish_DecodePayload" "finishes Subscribe_DecodePayload"
  "finishes SubAck_DecodePayload" "finishes Unsubscribe_DecodePayload"
proof -
  show "finishes Connect_DecodePayload" unfolding Connect_DecodePayload_def
    by (rule finishes_unlessShort, rule disjI2, intro metered_account steady_gseq)
      (auto intro!: steady_intros simp del: gseq.simps)
  show "finishes Publish_DecodePayload" unfolding Publish_DecodePayload_def
    by (rule finishes_unlessShort, rule disjI2, intro metered_account steady_intros) simp
  show "finishes Subscribe_DecodePayload" unfolding Subscribe_DecodePayload_def
    by (rule finishes_unlessShort) (auto intro!: steady_intros steady_gfst)
  show "finishes SubAck_DecodePayload" unfolding SubAck_DecodePayload_def
    by (rule finishes_unlessShort) (auto intro!: steady_intros steady_gfst)
  show "finishes Unsubscribe_DecodePayload" unfolding Unsubscribe_DecodePayload_def
    by (rule finishes_unlessShort) (auto intro!: steady_intros steady_gfst)
qed

lemmas unimplemented = ConnAck_DecodePayload_def PubAck_DecodePayload_def PubRec_DecodePayload_def
  PubRel_DecodePayload_def PubComp_DecodePayload_def UnsubAck_DecodePayload_def PingReq_DecodePayload_def
  PingResp_DecodePayload_def Disconnect_DecodePayload_def

lemma DecodePayload_finishes:
  assumes "io_inv b" and "sint (remainingLength (msg_header m)) \<le> Len b" and "DecodePayload (m, b) = (Inr x, (m', b'))"
  shows "x \<and> io_inv b' \<and> length (unread b') \<le> length (unread b)"
  using assms(3,2)
  by (cases m) (auto elim!: on_msg_E dest!: payload_finishes [THEN finishesD] simp: unimplemented implementMe_def gpanic_def
      intro: assms(1))

text \<open>The remaining length a header decodes to is not negative.\<close>

lemma take_bit_mono_eq:
  fixes v :: "'a::len word"
  assumes "take_bit k v = v" and "k \<le> l"
  shows "take_bit l v = v"
proof -
  have "take_bit l (take_bit k v) = take_bit k v" using assms(2) by (simp only: take_bit_take_bit min_absorb2)
  then show ?thesis by (simp only: assms(1))
qed

lemma digit_take_bit:
  fixes v :: "32 word" and x :: byte
  assumes "take_bit shift v = v"
  shows "take_bit (shift + 7) (v OR push_bit shift (ucast (x AND 0x7f))) = v OR push_bit shift (ucast (x AND 0x7f))"
proof -
  have x: "x AND 0x7f = take_bit 7 x" by (simp add: take_bit_eq_mask mask_eq_exp_minus_1)
  have "take_bit 7 (ucast (take_bit 7 x) :: 32 word) = ucast (take_bit 7 x)"
    by (simp only: unsigned_take_bit_eq [symmetric] take_bit_take_bit) simp
  then have "take_bit (shift + 7) (push_bit shift (ucast (take_bit 7 x)) :: 32 word) = push_bit shift (ucast (take_bit 7 x))"
    by (simp add: take_bit_push_bit)
  with take_bit_mono_eq [OF assms, of "shift + 7"] show ?thesis
    unfolding x by (simp only: take_bit_or)
qed

lemma decodeLength_loop_small:
  assumes "decodeLength_loop k v shift b = (Inr n, b')" and "shift + 7 * k \<le> 28" and "take_bit shift v = v"
  shows "take_bit 28 n = n"
  using assms
proof (induction k arbitrary: v shift b)
  case 0
  then show ?case by (simp add: gpanic_def)
next
  case (Suc k)
  from Suc.prems(1) obtain x b1 where x: "ReadByte b = (Inr x, b1)"
    by (cases "ReadByte b"; cases "fst (ReadByte b)") auto
  let ?v = "v OR push_bit shift (ucast (x AND 0x7f))"
  note t = digit_take_bit [OF Suc.prems(3), of x]
  have t28: "take_bit 28 ?v = ?v" by (rule take_bit_mono_eq [OF t]) (use Suc.prems(2) in simp)
  show ?case
  proof (cases "x AND 0x80 = 0")
    case True
    then have "n = ?v" using Suc.prems(1) x by (simp only: decodeLength_loop.simps prod.case sum.case Let_def if_True) simp
    with t28 show ?thesis by simp
  next
    case False
    then have "decodeLength_loop k ?v (shift + 7) b1 = (Inr n, b')"
      using Suc.prems(1) x by (simp only: decodeLength_loop.simps prod.case sum.case Let_def if_False)
    from Suc.IH [OF this _ t] Suc.prems(2) show ?thesis by simp
  qed
qed

lemma decodeLength_nonneg:
  assumes "decodeLength b = (Inr n, b')"
  shows "0 \<le> sint n"
proof -
  from assms have "decodeLength_loop 4 0 0 b = (Inr n, b')" by (simp add: decodeLength_def split: if_splits)
  from decodeLength_loop_small [OF this] have "take_bit 28 n = n" by simp
  then have "unat (take_bit 28 n) = unat n" by simp
  then have "take_bit 28 (unat n) = unat n" by (simp only: unsigned_take_bit_eq)
  then have "unat n < 2 ^ 28" by (simp only: take_bit_nat_eq_self_iff)
  then have "sint (of_nat (unat n) :: 32 word) = int (unat n)" by (intro sint_of_nat32) simp
  then show ?thesis by simp
qed

lemma reader_decodeLength: "reader_ok decodeLength"
proof -
  have loop: "reader_ok (decodeLength_loop k v shift)" for k v shift
  proof (induction k arbitrary: v shift)
    case 0
    then show ?case by (simp add: reader_ok_def gpanic_def)
  next
    case (Suc k)
    have "decodeLength_loop (Suc k) v shift =
        gbind getUint8 (\<lambda>x. if x AND 0x80 = 0 then gret (v OR push_bit shift (ucast (x AND 0x7f)))
                         else decodeLength_loop k (v OR push_bit shift (ucast (x AND 0x7f))) (shift + 7))"
      by (rule ext) (simp add: gbind_def getUint8_def gret_def Let_def split: prod.splits sum.splits)
    then show ?case using Suc by (auto intro!: reader_bind reader_uint8 reader_gret)
  qed
  show ?thesis using loop [of 4 0 0] unfolding reader_ok_def decodeLength_def by auto
qed

text \<open>The fixed header reads at least one byte and leaves a remaining length that is not negative.\<close>

lemma Header_decode_progress:
  assumes "io_inv b" and "Header_decode (h0, b) = (Inr u, (h, b'))"
  shows "io_inv b'" and "length (unread b') < length (unread b)" and "0 \<le> sint (remainingLength h)"
proof -
  from assms(2) obtain x b1 n where x: "getUint8 b = (Inr x, b1)" and n: "decodeLength b1 = (Inr n, b')"
    and h: "remainingLength h = n"
    by (cases "getUint8 b"; cases "fst (getUint8 b)"; cases "decodeLength (snd (getUint8 b))";
        cases "fst (decodeLength (snd (getUint8 b)))")
      (auto simp: Header_decode_def gbind_def gassign_def gsnd_def gfst_def gget_def gpanic_def split: if_splits)
  have "unread b \<noteq> []" using x assms(1) ReadByte_Nil [of b] by (auto simp: getUint8_def)
  then obtain y d where u: "unread b = y # d" by (cases "unread b") auto
  with getUint8_yields [OF assms(1) u] x have "io_inv b1" "unread b1 = d" by (auto simp: yields_def)
  with reader_okD [OF reader_decodeLength _ n] u
  show "io_inv b'" "length (unread b') < length (unread b)" by auto
  show "0 \<le> sint (remainingLength h)" unfolding h by (rule decodeLength_nonneg [OF n])
qed

lemma NewMessage_header: "NewMessage h = Some m \<Longrightarrow> msg_header m = h"
  by (cases h) (auto simp: NewMessage_def Let_def PacketId.extend_def Header.truncate_def split: if_splits)

lemma DecodeFixedHeader_steady:
  "DecodeFixedHeader (m, b) = (Inr x, (m', b')) \<Longrightarrow> b' = b \<and> remainingLength (msg_header m') = remainingLength (msg_header m)"
  by (cases m) (auto simp: fixed_defs Publish_DecodeFixedHeader_def gbind_def gfst_def)

text \<open>The states from which the loop makes progress: a payload is only read when all of it is there.\<close>

definition ready :: "Codec \<Rightarrow> ioBuffer \<Rightarrow> bool" where
  "ready c b \<longleftrightarrow>
     (case decoderState c of
        ReadFixedHeader \<Rightarrow> True
      | ReadVariableHeader \<Rightarrow>
          (case (header c, msg c) of
             (Some h, Some m) \<Rightarrow> remainingLength (msg_header m) = remainingLength h \<and> 0 \<le> sint (remainingLength h)
           | _ \<Rightarrow> True)
      | ReadPayload \<Rightarrow>
          (case msg c of Some m \<Rightarrow> sint (remainingLength (msg_header m)) \<le> Len b | None \<Rightarrow> True))"

lemma ready_Mark [simp]: "ready c (Mark b) = ready c b"
  unfolding ready_def by (simp only: Mark_simps)

fun state_rank :: "DecoderState \<Rightarrow> nat" where
  "state_rank ReadFixedHeader = 0" | "state_rank ReadVariableHeader = 2" | "state_rank ReadPayload = 1"

definition loop_rank :: "Codec \<Rightarrow> ioBuffer \<Rightarrow> nat" where
  "loop_rank c b = 3 * length (unread b) + state_rank (decoderState c)"

lemma sint_sub_of_nat:
  assumes "0 \<le> sint (r :: 32 word)" and "n < 2147483648"
  shows "sint (r - of_nat n) = sint r - int n"
proof -
  have "sint r < 2147483648" using sint_less [of r] by simp
  then have "signed_take_bit 31 (sint r - int n) = sint r - int n"
    using assms by (intro signed_take_bit_int_eq_self) auto
  moreover have eq: "r - of_nat n = word_of_int (sint r - int n)" by simp
  have "sint (r - of_nat n) = signed_take_bit 31 (sint r - int n)" unfolding eq by (simp only: signed_of_int) simp
  ultimately show ?thesis by simp
qed

lemma finish_case_E:
  assumes "finish_case next x (c, b) = (Inr (Inr ms), (c', b'))"
  obtains "x" and "decoderState c' = ReadFixedHeader" and "b' = b"
  | "\<not> x" and "c' = c\<lparr>decoderState := next\<rparr>" and "b' = b"
  using assms by (auto simp: finish_case_def Let_def split: if_splits)

lemma on_current_E:
  assumes "gbind (on_current f) (finish_case next) (c, b) = (Inr (Inr ms), (c', b'))"
  obtains m x m1 where "msg c = Some m" and "f (m, b) = (Inr x, (m1, b'))"
    and "decoderState c' = ReadFixedHeader \<and> x \<or> \<not> x \<and> c' = c\<lparr>msg := Some m1, decoderState := next\<rparr>"
proof -
  from assms obtain x s1 where 1: "on_current f (c, b) = (Inr x, s1)" "finish_case next x s1 = (Inr (Inr ms), (c', b'))"
    by (rule gbind_Inr_E)
  from 1(1) obtain m m1 where m: "msg c = Some m" "f (m, b) = (Inr x, (m1, snd s1))" "fst s1 = c\<lparr>msg := Some m1\<rparr>"
    by (auto simp: on_current_def split: option.splits prod.splits)
  from 1(2) have "finish_case next x (fst s1, snd s1) = (Inr (Inr ms), (c', b'))" by simp
  then show thesis
    by (rule finish_case_E) (use m that in auto)
qed

lemma read_fixed_progress:
  assumes "io_inv b" and "read_fixed (c, b) = (Inr (Inr ms), (c', b'))"
  shows "io_inv b'" and "length (unread b') < length (unread b)" and "ready c' b'"
proof -
  from assms(2) have "gbind decode_header (\<lambda>_.
     gbind (gfst (\<lambda>c. c\<lparr>msg := (case header c of None \<Rightarrow> None | Some h \<Rightarrow> NewMessage h)\<rparr>)) (\<lambda>_.
     gbind (gget (\<lambda>s. msg (fst s))) (\<lambda>m.
       if m = None then gret (Inl (GoErr ''No matched message ''))
       else gbind (on_current DecodeFixedHeader) (finish_case ReadVariableHeader)))) (c, Mark b) = (Inr (Inr ms), (c', b'))"
    by (simp add: read_fixed_def gbind_def [of "gsnd _"] gsnd_def gmod_def)
  then obtain u s1 where 1: "decode_header (c, Mark b) = (Inr u, s1)"
      "gbind (gfst (\<lambda>c. c\<lparr>msg := (case header c of None \<Rightarrow> None | Some h \<Rightarrow> NewMessage h)\<rparr>)) (\<lambda>_.
     gbind (gget (\<lambda>s. msg (fst s))) (\<lambda>m.
       if m = None then gret (Inl (GoErr ''No matched message ''))
       else gbind (on_current DecodeFixedHeader) (finish_case ReadVariableHeader))) s1 = (Inr (Inr ms), (c', b'))"
    by (rule gbind_Inr_E)
  from 1(1) obtain h b1 where h: "Header_decode (zeroHeader, Mark b) = (Inr u, (h, b1))" "s1 = (c\<lparr>header := Some h\<rparr>, b1)"
    by (auto simp: decode_header_def split: prod.splits)
  note pr = Header_decode_progress [OF _ h(1), simplified, OF assms(1)]
  let ?c = "c\<lparr>header := Some h, msg := NewMessage h\<rparr>"
  from 1(2) h(2) have "NewMessage h \<noteq> None"
      "gbind (on_current DecodeFixedHeader) (finish_case ReadVariableHeader) (?c, b1) = (Inr (Inr ms), (c', b'))"
    by (auto simp: gbind_def [of "gfst _"] gbind_def [of "gget _"] gfst_def gget_def gret_def split: if_splits)
  from this(2) obtain m x m1 where m: "msg ?c = Some m" "DecodeFixedHeader (m, b1) = (Inr x, (m1, b'))"
      "decoderState c' = ReadFixedHeader \<and> x \<or> \<not> x \<and> c' = ?c\<lparr>msg := Some m1, decoderState := ReadVariableHeader\<rparr>"
    by (rule on_current_E)
  from DecodeFixedHeader_steady [OF m(2)] have s: "b' = b1" "remainingLength (msg_header m1) = remainingLength (msg_header m)"
    by simp_all
  with pr show "io_inv b'" "length (unread b') < length (unread b)" by simp_all
  have "msg_header m = h" using m(1) NewMessage_header [of h m] by simp
  with m(3) s pr(3) show "ready c' b'" by (auto simp: ready_def)
qed

lemma read_variable_progress:
  assumes b: "io_inv b" and len: "length (unread b) < 2147483648" and rd: "ready c b"
    and st: "decoderState c = ReadVariableHeader" and r: "read_variable (c, b) = (Inr (Inr ms), (c', b'))"
  shows "io_inv b'" and "length (unread b') \<le> length (unread b)" and "ready c' b'" and "decoderState c' \<noteq> ReadVariableHeader"
proof -
  from r obtain h where h: "header c = Some h" "\<not> sint (word_of_int (Len b) :: 32 word) < sint (remainingLength h)"
      "gbind (on_current DecodeVariableHeader) (finish_case ReadPayload) (c, Mark b) = (Inr (Inr ms), (c', b'))"
    by (auto simp: read_variable_def gbind_def [of "gsnd _"] gsnd_def gmod_def split: option.splits if_splits)
  from h(3) obtain m x m1 where m: "msg c = Some m" "DecodeVariableHeader (m, Mark b) = (Inr x, (m1, b'))"
      "decoderState c' = ReadFixedHeader \<and> x \<or> \<not> x \<and> c' = c\<lparr>msg := Some m1, decoderState := ReadPayload\<rparr>"
    by (rule on_current_E)
  note a = DecodeVariableHeader_account [OF _ m(2), simplified, OF b]
  then show "io_inv b'" "length (unread b') \<le> length (unread b)" by simp_all
  show "decoderState c' \<noteq> ReadVariableHeader" using m(3) by auto
  let ?n = "length (unread b) - length (unread b')"
  have rem: "remainingLength (msg_header m) = remainingLength h" "0 \<le> sint (remainingLength h)"
    using rd st h(1) m(1) by (simp_all add: ready_def)
  have le: "sint (remainingLength h) \<le> int (length (unread b))" using h(2) sint_Len [OF b len] by simp
  from a rem(1) have eq: "remainingLength (msg_header m1) = remainingLength h - of_nat ?n" by (simp only:)
  have "sint (remainingLength (msg_header m1)) = sint (remainingLength h) - int ?n"
    unfolding eq by (rule sint_sub_of_nat [OF rem(2)]) (use len in linarith)
  then have "sint (remainingLength (msg_header m1)) \<le> Len b'"
    using a le Len_unread [of b'] by simp
  with m(3) show "ready c' b'" by (auto simp: ready_def)
qed

lemma read_payload_progress:
  assumes b: "io_inv b" and rd: "ready c b" and st: "decoderState c = ReadPayload"
    and r: "read_payload (c, b) = (Inr (Inr ms), (c', b'))"
  shows "io_inv b'" and "length (unread b') \<le> length (unread b)" and "decoderState c' = ReadFixedHeader"
proof -
  from r have "gbind (on_current DecodePayload) (finish_case ReadPayload) (c, Mark b) = (Inr (Inr ms), (c', b'))"
    by (simp add: read_payload_def gbind_def [of "gsnd _"] gsnd_def gmod_def)
  then obtain m x m1 where m: "msg c = Some m" "DecodePayload (m, Mark b) = (Inr x, (m1, b'))"
      "decoderState c' = ReadFixedHeader \<and> x \<or> \<not> x \<and> c' = c\<lparr>msg := Some m1, decoderState := ReadPayload\<rparr>"
    by (rule on_current_E)
  have "sint (remainingLength (msg_header m)) \<le> Len (Mark b)" using rd st m(1) by (simp add: ready_def)
  from DecodePayload_finishes [OF _ this m(2)] b m(3)
  show "io_inv b'" "length (unread b') \<le> length (unread b)" "decoderState c' = ReadFixedHeader" by auto
qed

lemma decode_step_progress:
  assumes b: "io_inv b" and len: "length (unread b) < 2147483648" and rd: "ready c b"
    and r: "decode_step (c, b) = (Inr (Inr ms), (c', b'))"
  shows "io_inv b' \<and> length (unread b') \<le> length (unread b) \<and> ready c' (Mark b') \<and> loop_rank c' (Mark b') < loop_rank c b"
proof (cases "decoderState c")
  case ReadFixedHeader
  with r have "read_fixed (c, b) = (Inr (Inr ms), (c', b'))" by (simp add: decode_step_def)
  from read_fixed_progress [OF b this] ReadFixedHeader show ?thesis
    by (cases "decoderState c'") (auto simp: loop_rank_def)
next
  case ReadVariableHeader
  with r have "read_variable (c, b) = (Inr (Inr ms), (c', b'))" by (simp add: decode_step_def)
  from read_variable_progress [OF b len rd ReadVariableHeader this] ReadVariableHeader show ?thesis
    by (cases "decoderState c'") (auto simp: loop_rank_def)
next
  case ReadPayload
  with r have "read_payload (c, b) = (Inr (Inr ms), (c', b'))" by (simp add: decode_step_def)
  from read_payload_progress [OF b rd ReadPayload this] ReadPayload show ?thesis
    by (auto simp: loop_rank_def ready_def)
qed

lemma decode_loop_returns:
  assumes "io_inv b" and "length (unread b) < 2147483648" and "ready c b"
  shows "\<exists>r. decode_loop c msgs b = Some r"
  using assms
proof (induction "loop_rank c b" arbitrary: c b msgs rule: less_induct)
  case less
  obtain r c' b' where d: "decode_step (c, b) = (r, (c', b'))" by (cases "decode_step (c, b)") auto
  show ?case
  proof (cases "Len b > 0 \<and> (\<exists>ms. r = Inr (Inr ms))")
    case True
    then obtain ms where ms: "r = Inr (Inr ms)" by blast
    note p = decode_step_progress [OF less.prems d [unfolded ms]]
    have "\<exists>r. decode_loop c' (msgs @ ms) (Mark b') = Some r"
      using less.hyps [of c' "Mark b'" "msgs @ ms"] less.prems(2) p by auto
    then show ?thesis using True d ms by (subst decode_loop.simps) simp
  next
    case False
    then show ?thesis using d by (subst decode_loop.simps) (auto split: sum.splits)
  qed
qed

text \<open>
  C21. Decoding ends: from an idle codec, or one that waits for the body of a message, \<open>doDecode\<close> returns on every
  buffer, whatever its bytes are.
\<close>

theorem doDecode_returns:
  assumes "io_inv b" and "length (unread b) < 2147483648" and "ready c b"
  shows "\<exists>r. doDecode c b = Some r"
  using decode_loop_returns [OF assms, of "[]"] by (auto simp: doDecode_def split: sum.splits)

theorem doDecode_returns_witness:
  "\<exists>r. doDecode NewCodec (bufferOf [0x30, 0xff, 0xff, 0xff, 0xff, 0xff]) = Some r"
  by (rule doDecode_returns) (simp_all add: bufferOf_spec ready_def NewCodec_def)

text \<open>A payload that is not complete is not read, and nothing changes: the loop turns forever.\<close>

lemma read_payload_short:
  assumes st: "decoderState c = ReadPayload" "msg c = Some (MConnect m)" and short: "sint (remainingLength m) > Len b"
  shows "decode_step (c, b) = (Inr (Inr []), (c, Mark b))"
proof -
  have "Connect_DecodePayload (m, Mark b) = (Inr False, (m, Mark b))"
    using short by (simp add: Connect_DecodePayload_def unlessShort_def gret_def)
  moreover have "c\<lparr>msg := Some (MConnect m), decoderState := ReadPayload\<rparr> = c" using st by (cases c) simp
  ultimately show ?thesis using st
    by (simp add: decode_step_def read_payload_def gbind_def gsnd_def gmod_def on_current_def finish_case_def on_msg_def)
qed

lemma decode_loop_stuck:
  assumes st: "decoderState c = ReadPayload" "msg c = Some (MConnect m)" and short: "sint (remainingLength m) > Len b"
    and pos: "Len b > 0"
  shows "decode_loop c msgs b = None"
proof -
  have "\<not> (decoderState c = ReadPayload \<and> msg c = Some (MConnect m) \<and> sint (remainingLength m) > Len b \<and> Len b > 0)"
    if ret: "decode_loop c msgs b = Some r" for r
  proof (rule decode_loop.raw_induct [where P = "\<lambda>c msgs b r.
      \<not> (decoderState c = ReadPayload \<and> msg c = Some (MConnect m) \<and> sint (remainingLength m) > Len b \<and> Len b > 0)", OF _ ret])
    fix f c msgs b r
    assume IH: "\<And>c msgs b r. f c msgs b = Some r \<Longrightarrow>
        \<not> (decoderState c = ReadPayload \<and> msg c = Some (MConnect m) \<and> sint (remainingLength m) > Len b \<and> Len b > 0)"
      and eq: "(if Len b > 0 then
        (case decode_step (c, b) of
           (Inl e, (c', b')) \<Rightarrow> Some (Inl e, msgs, c', b')
         | (Inr (Inl err), (c', b')) \<Rightarrow> Some (Inr (Some err), [], c', b')
         | (Inr (Inr ms), (c', b')) \<Rightarrow> f c' (msgs @ ms) (Mark b'))
      else Some (Inr None, msgs, c, b)) = Some r"
    show "\<not> (decoderState c = ReadPayload \<and> msg c = Some (MConnect m) \<and> sint (remainingLength m) > Len b \<and> Len b > 0)"
    proof
      assume a: "decoderState c = ReadPayload \<and> msg c = Some (MConnect m) \<and> sint (remainingLength m) > Len b \<and> Len b > 0"
      then have "f c msgs (Mark b) = Some r" using eq read_payload_short [of c m b] by simp
      from IH [OF this] a show False by simp
    qed
  qed
  with assms show ?thesis by (cases "decode_loop c msgs b") blast+
qed

subsection \<open>A run into the payload state\<close>

text \<open>PINGREQ, then a CONNECT whose client id is announced longer than the message.\<close>

definition hangBytes :: bytes where
  "hangBytes = [0xc0, 0, 0x10, 13, 0, 4, 77, 81, 84, 84, 4, 2, 0, 60, 0, 5, 97]"

definition hangBuffer :: "nat \<Rightarrow> int \<Rightarrow> ioBuffer" where
  "hangBuffer n k = \<lparr>arr = hangBytes, blen = 17, isnil = False, off = n, offMark = k, refs = 1, eof = False, pooled = False\<rparr>"

definition hangConnect :: "32 word \<Rightarrow> Connect" where
  "hangConnect n = \<lparr>msgType = 1, msgFlag = 0, remainingLength = n, ProtocolName = [77, 81, 84, 84], ProtocolLevel = 4,
      UserNameFlag = False, passwordFlag = False, WillRetain = False, WillQos = 0, WillFlag = False, CleanSession = True,
      KeepAlive = 60, ClientId = [], WillTopic = [], WillMessage = [], Username = [], Password = []\<rparr>"

definition waitCodec :: Codec where
  "waitCodec = \<lparr>header = Some \<lparr>msgType = 1, msgFlag = 0, remainingLength = 13\<rparr>, decoderState = ReadVariableHeader,
     msg = NewMessage \<lparr>msgType = 1, msgFlag = 0, remainingLength = 13\<rparr>\<rparr>"

definition hangCodec :: Codec where
  "hangCodec = \<lparr>header = Some \<lparr>msgType = 1, msgFlag = 0, remainingLength = 13\<rparr>, decoderState = ReadPayload,
     msg = Some (MConnect (hangConnect 3))\<rparr>"

lemma hang_bufferOf: "bufferOf hangBytes = hangBuffer 0 (- 1)"
  by (simp add: bufferOf_def NewIoBufferBytes_def ResetOffMark_def hangBuffer_def hangBytes_def)

lemma decodeLength_loop4: "decodeLength_loop 4 v shift b = (case ReadByte b of
        (Inr x, b') \<Rightarrow>
          (let v' = v OR push_bit shift (ucast (x AND 0x7f)) in
           if x AND 0x80 = 0 then (Inr v', b') else decodeLength_loop 3 v' (shift + 7) b')
      | (Inl e, b') \<Rightarrow> (Inl (PanicErr e), b'))"
  unfolding decodeLength_loop.simps(2) [of 3, simplified] by simp

lemmas read_run = getUint8_def ReadByte_def getUint16_def readExactly_def Read_def getString_def decodeLength_def unread_def Len_def
   BigEndian_Uint16_def decodeLength_loop4 Let_def
lemmas monad_run = gbind_def gsnd_def gfst_def gget_def gmod_def gpanic_def gassign_def gwhen_run metered_def
lemmas step_run = decode_step_def read_fixed_def read_variable_def read_payload_def decode_header_def on_current_def finish_case_def
   Header_decode_def NewMessage_def zeroHeader_def Type_IsValid_def Mark_def waitCodec_def hangCodec_def

lemma hang_step1: "decode_step (NewCodec, hangBuffer 0 k) =
  (Inr (Inr [MPingReq \<lparr>msgType = 12, msgFlag = 0, remainingLength = 0\<rparr>]), (\<lparr>header = Some \<lparr>msgType = 12, msgFlag = 0, remainingLength = 0\<rparr>, decoderState = ReadFixedHeader, msg = None\<rparr>, hangBuffer 2 0))"
  by (simp add: step_run monad_run read_run fixed_defs NewCodec_def hangBuffer_def hangBytes_def)
lemma hang_step2: "decode_step (\<lparr>header = h, decoderState = ReadFixedHeader, msg = None\<rparr>, hangBuffer 2 k) =
  (Inr (Inr []), (waitCodec, hangBuffer 4 2))"
  by (simp add: step_run monad_run read_run fixed_defs NewCodec_def hangBuffer_def hangBytes_def)
lemma hang_step3: "decode_step (waitCodec, hangBuffer 4 k) =
  (Inr (Inr []), (hangCodec, hangBuffer 14 4))"
  by (simp add: step_run monad_run read_run fixed_defs NewCodec_def hangBuffer_def hangBytes_def Connect_DecodeVariableHeader_def
   setConnectFlags_def hangConnect_def)
lemma hang_step4: "decode_step (hangCodec, hangBuffer 14 k) =
  (Inl (PanicErr ErrorInvalidRemainingLength), (hangCodec, hangBuffer 16 14))"
  by (simp add: step_run monad_run read_run fixed_defs NewCodec_def hangBuffer_def hangBytes_def Connect_DecodePayload_def
   unlessShort_def hangConnect_def)
lemma hang_Len: "n < 17 \<Longrightarrow> Len (hangBuffer n k) > 0" "Mark (hangBuffer n k) = hangBuffer n (int n)"
  by (simp_all add: Len_def hangBuffer_def Mark_def)

text \<open>
  C22. A malformed message after a good one makes the decoder hang: the panic of \<open>DecodePayload\<close> is swallowed because a
  message was already decoded, the buffer is not restored, and the codec stays in the payload state with more bytes
  to wait for than are there. The next call does not return.
\<close>

theorem decode_hangs_after_swallowed_panic:
  "\<exists>c b. doDecode NewCodec (bufferOf hangBytes) =
       Some ([MPingReq \<lparr>msgType = 12, msgFlag = 0, remainingLength = 0\<rparr>], None, c, b) \<and>
     unread b = [97] \<and> doDecode c b = None"
proof -
  have "decode_loop NewCodec [] (bufferOf hangBytes) =
      Some (Inl (PanicErr ErrorInvalidRemainingLength), [MPingReq \<lparr>msgType = 12, msgFlag = 0, remainingLength = 0\<rparr>],
        hangCodec, hangBuffer 16 14)"
    by (simp add: hang_bufferOf decode_loop.simps hang_step1 hang_step2 hang_step3 hang_step4 hang_Len)
  then have "doDecode NewCodec (bufferOf hangBytes) =
       Some ([MPingReq \<lparr>msgType = 12, msgFlag = 0, remainingLength = 0\<rparr>], None, hangCodec, hangBuffer 16 14)"
    using hang_Len(1) [of 0 "- 1"] by (simp add: doDecode_def hang_bufferOf)
  moreover have "Len (hangBuffer 16 14) = 1" by (simp add: Len_def hangBuffer_def)
  with decode_loop_stuck [of hangCodec "hangConnect 3" "hangBuffer 16 14" "[]"] have "doDecode hangCodec (hangBuffer 16 14) = None"
    by (simp add: doDecode_def hangCodec_def hangConnect_def)
  moreover have "unread (hangBuffer 16 14) = [97]" by (simp add: unread_def hangBuffer_def hangBytes_def)
  ultimately show ?thesis by blast
qed

lemma read_fixed_cut:
  assumes m: "sendable m" and b: "io_inv b" "unread b = [hd (wire m)]" and c: "idle c"
  obtains c' b' where "decode_step (c, b) = (Inl (PanicErr ErrorInvalidRemainingLength), (c', b'))" and "idle c'"
    and "unread b' = []"
proof -
  let ?x = "hd (wire m)"
  from m have ok: "ok_msg m" "ok_header m" by (auto simp: sendable_def)
  have x: "?x = 16 * type_tag m + wire_flag m" by (simp add: wire_def)
  from getUint8_yields [of "Mark b" ?x "[]"] b obtain b1 where b1: "getUint8 (Mark b) = (Inr ?x, b1)" "io_inv b1" "unread b1 = []"
    by (auto elim: yieldsE)
  have "drop_bit 4 (?x AND 0xf0) = type_tag m"
    unfolding x by (rule nibbles(2) [OF type_tag_valid(2) wire_flag_less [OF ok]])
  moreover have "decodeLength b1 = (Inl (PanicErr ErrorInvalidRemainingLength), b1)"
    using Len_unread [OF b1(2)] b1(3) by (simp add: decodeLength_def)
  ultimately obtain h where "Header_decode (zeroHeader, Mark b) = (Inl (PanicErr ErrorInvalidRemainingLength), (h, b1))"
    using b1(1) type_tag_valid(1) [of m]
    by (simp add: Header_decode_def gbind_def gsnd_def gfst_def gget_def gassign_def)
  then show thesis
    by (intro that [of "c\<lparr>header := Some h\<rparr>" b1])
      (use c b1(3) in \<open>simp_all add: decode_step_def read_fixed_def gbind_def gsnd_def gmod_def decode_header_def idle_def\<close>)
qed

text \<open>
  C23. A fixed header cut after its first byte loses that byte when it follows a complete message: the call returns the
  complete messages and no error, the byte is read and not restored, and the codec is idle.
\<close>

theorem split_header_lost:
  assumes "sendable m" and "list_all sendable ms" and "ms \<noteq> []" and "idle c" and "io_inv b"
    and "unread b = concat (map wire ms) @ [hd (wire m)]" and "length (unread b) < 2147483648"
  shows "\<exists>c' b'. doDecode c b = Some (map received ms, None, c', b') \<and> idle c' \<and> unread b' = []"
proof -
  obtain c1 b1 where 1: "decode_loop c [] b = decode_loop c1 ([] @ map received ms) b1" "idle c1" "io_inv b1"
      "unread b1 = [hd (wire m)]"
    by (rule decode_stream [OF assms(2,4-7)])
  obtain c2 b2 where 2: "decode_step (c1, b1) = (Inl (PanicErr ErrorInvalidRemainingLength), (c2, b2))" "idle c2"
      "unread b2 = []"
    by (rule read_fixed_cut [OF assms(1) 1(3,4,2)])
  have "Len b1 > 0" using Len_pos [OF 1(3)] 1(4) by simp
  with 1(1) 2(1) have "decode_loop c [] b = Some (Inl (PanicErr ErrorInvalidRemainingLength), map received ms, c2, b2)"
    by (subst (asm) decode_loop.simps [of c1]) simp
  then have "doDecode c b = Some (map received ms, None, c2, b2)"
    using doDecode_nonempty [OF assms(5), of c] assms(3,6) by simp
  with 2 show ?thesis by blast
qed

theorem split_header_lost_witness:
  "\<exists>c' b'. doDecode NewCodec (bufferOf [0x40, 2, 0, 7, 0x40]) = Some ([received (MPubAck ackSample)], None, c', b') \<and>
     idle c' \<and> unread b' = []"
  using split_header_lost [of "MPubAck ackSample" "[MPubAck ackSample]" NewCodec "bufferOf [0x40, 2, 0, 7, 0x40]"]
    samples_sendable(2) idle_NewCodec by (simp add: ack_wire bufferOf_spec del: received.simps)

text \<open>
  C24. Delivery: the filter sees the messages in order, none left out or repeated, up to the end or to the first for which it answers
  \<open>Stop\<close>; each of its answers is to the state that the earlier messages left it in. The stream ids grow strictly and are above
  every id drawn before, whatever other users of the global counter draw in between, until the counter has run through its 64 bits.
\<close>

theorem deliver_in_order:
  assumes "deliver onDone others ms g s = (out, g', s')"
    and "unat g + (\<Sum>i < length ms. others i) + length ms < 2 ^ 64"
  shows "map (fst \<circ> snd) out = take (length out) ms \<and> answered onDone out s s' \<and>
     (length out < length ms \<longrightarrow> out \<noteq> [] \<and> snd (snd (last out))) \<and> (\<forall>x \<in> set (butlast out). \<not> snd (snd x)) \<and>
     sorted_wrt (<) (g # map fst out) \<and> g' = last (g # map fst out)"
  using deliver_spec [OF assms] by blast

theorem deliver_in_order_witness:
  "map (fst \<circ> snd) (fst (deliver (\<lambda>i m s. (False, Suc s)) (\<lambda>i. 3) [MPubAck ackSample, MPubAck ackSample] 5 0)) =
     [MPubAck ackSample, MPubAck ackSample] \<and>
   sorted_wrt (<) [5, 9, 13 :: 64 word] \<and>
   map fst (fst (deliver (\<lambda>i m s. (False, Suc s)) (\<lambda>i. 3) [MPubAck ackSample, MPubAck ackSample] 5 0)) = [9, 13]"
proof -
  have d: "deliver (\<lambda>i m s. (False, Suc s)) (\<lambda>i. 3) [MPubAck ackSample, MPubAck ackSample] 5 0 =
      ([(9, MPubAck ackSample, False), (13, MPubAck ackSample, False)], 13, 2)" by simp
  from deliver_in_order [OF d] show ?thesis by simp
qed



text \<open>
  An UNSUBSCRIBE message loses its topics on the wire: whatever topic names it has, the encoder writes the format of the message without
  them, which is not the format of the message.
\<close>

theorem unsubscribe_drops_topics:
  assumes "ok_header (MUnsubscribe m)" and "pool_inv p"
  shows "\<exists>w m'. Encode (MUnsubscribe m) p = Inr (Inr w, m') \<and> content w = wire (MUnsubscribe (m\<lparr>TopicNames := []\<rparr>)) \<and>
     (TopicNames m \<noteq> [] \<longrightarrow> content w \<noteq> wire (MUnsubscribe m))"
proof -
  let ?m = "MUnsubscribe (m\<lparr>TopicNames := []\<rparr>)"
  have "push_bit 4 (msgType m) OR msgFlag m = 16 * type_tag ?m + wire_flag ?m"
    using assms(1) nibbles(1) [OF type_tag_valid(2) [of ?m], of "msgFlag m"] by (simp add: ok_header_def)
  then have "encodes_to (Encode (MUnsubscribe m) p) ?m"
    unfolding Encode.simps Unsubscribe_Encode_def by (intro pid_encodes [OF assms(2)]) simp_all
  then obtain w m' where w: "Encode (MUnsubscribe m) p = Inr (Inr w, m')" "content w = wire ?m" unfolding encodes_to_def by blast
  have "wire ?m \<noteq> wire (MUnsubscribe m)" if t: "TopicNames m \<noteq> []"
  proof -
    have "0 < length (wire_string t)" for t by (simp add: wire_string_def)
    then have d: "0 < length (concat (map wire_string (TopicNames m)))" (is "0 < length ?d") using t by (cases "TopicNames m") auto
    have "0 < length (wire_length n)" for n by (simp add: wire_length.simps [of n])
    then have "0 < length (wire_length (length (wire_body (MUnsubscribe m))))" .
    moreover have "length (wire (MUnsubscribe m)) = 3 + length ?d + length (wire_length (length (wire_body (MUnsubscribe m))))"
      by (simp add: wire_def)
    moreover have "length (wire ?m) = 4" by (simp add: wire_def wire_length.simps [of 2])
    ultimately have "length (wire ?m) < length (wire (MUnsubscribe m))" using d by linarith
    then show ?thesis by auto
  qed
  with w show ?thesis by auto
qed

text \<open>
  A topic, client id or any other string that is empty makes the encoder panic: CONNECT with an empty client id, which the
  protocol allows, cannot be encoded.
\<close>

theorem empty_client_id_panics:
  assumes "ok_string (ProtocolName m)" and "ClientId m = []" and "Qos_IsValid (WillQos m)" and "pool_inv p"
  shows "Encode (MConnect m) p = Inl (PanicErr (GoErr ''Nil utf8 string ''))"
proof -
  have "sink.emits (seq_go [putString (ProtocolName m), WriteByte (ProtocolLevel m), WriteByte (connectFlags m),
         putUint16 (KeepAlive m)]) (concat [wire_string (ProtocolName m), [ProtocolLevel m], [connectFlags m], wire16 (KeepAlive m)])"
    by (rule sink.emits_seq, intro list_all2_Cons [THEN iffD2] conjI emits_rules list_all2_Nil [THEN iffD2])
      (use assms in auto)
  from sink.emits_run [OF this NewIoBuffer_spec(1) [OF assms(4), of 0]] obtain w
    where w: "seq_go [putString (ProtocolName m), WriteByte (ProtocolLevel m), WriteByte (connectFlags m),
         putUint16 (KeepAlive m)] (NewIoBuffer 0 p) = Inr w" "wb_inv w" by blast
  have app: "seq_go (fs @ gs) u = (case seq_go fs u of Inl e \<Rightarrow> Inl e | Inr v \<Rightarrow> seq_go gs v)"
    for fs gs and u :: wbuf by (induction fs arbitrary: u) (auto split: sum.splits)
  let ?gs = "[putString (ClientId m), write_if (WillFlag m) (seq_go [putString (WillTopic m), putString (WillMessage m)]),
         write_if (UserNameFlag m) (putString (Username m)), write_if (passwordFlag m) (putString (Password m))]"
  have "seq_go ([putString (ProtocolName m), WriteByte (ProtocolLevel m), WriteByte (connectFlags m),
         putUint16 (KeepAlive m)] @ ?gs) (NewIoBuffer 0 p) = Inl (PanicErr (GoErr ''Nil utf8 string ''))"
    unfolding app w(1) using putString_empty [OF w(2)] assms(2) by simp
  then show ?thesis using assms(3) by (simp add: Connect_Encode_def finish_def as_msg_def del: seq_go.simps)
qed

theorem empty_client_id_panics_witness:
  "Encode (MConnect ((hangConnect 0)\<lparr>CleanSession := False\<rparr>)) newByteBufferPool = Inl (PanicErr (GoErr ''Nil utf8 string ''))"
  by (rule empty_client_id_panics) (simp_all add: hangConnect_def ok_string_def Qos_IsValid_def pool_inv_new)

end
