(* ===== verification/Bytes_Conv.thy ===== *)
theory Bytes_Conv
  imports Strike_Prelude
begin

text \<open>
  The conversions of \<open>utils/bytesconv.go\<close> (and the decoders of \<open>utils/args.go\<close> they go with): unsigned decimal and
  hexadecimal numbers, IPv4 addresses, HTML and percent escapes, letter case.

  Characters are their ASCII codes: \<open>48\<close> is \<open>'0'\<close>, \<open>37\<close> is \<open>'%'\<close> and so on. A Go \<open>int\<close> is a \<open>64 word\<close> read with
  \<open>sint\<close> where the source multiplies and could overflow, and an \<open>int\<close> where it only divides. The constants
  \<open>maxIntChars\<close> and \<open>maxHexIntChars\<close> are those of the 64-bit build. \<open>ParseUfloat\<close> (IEEE arithmetic) and the HTTP
  dates (the package \<open>time\<close>) are not modelled.
\<close>

unbundle bit_operations_syntax

section \<open>Errors\<close>

text \<open>The errors of the conversions; the formatted ones keep their arguments.\<close>

datatype conv_error =
    ErrEmptyInt | ErrUnexpectedFirstChar | ErrUnexpectedTrailingChar | ErrTooLongInt
  | ErrEmptyHexNum | ErrTooLargeHexNum | ErrRead go_error
  | ErrEmptyIPStr | ErrNoDot bytes | ErrIPPart bytes conv_error | ErrIPPartRange bytes int

section \<open>Unsigned numbers\<close>

definition maxIntChars :: nat where "maxIntChars = 18"
definition maxHexIntChars :: nat where "maxHexIntChars = 15"

text \<open>
  The loop of \<open>ParseUintBuf\<close> from index \<open>i\<close> on, with the bytes from there: the value, the number of bytes used, the
  error.
\<close>

fun parseUint_loop :: "bytes \<Rightarrow> nat \<Rightarrow> 64 word \<Rightarrow> 64 word \<times> nat \<times> conv_error option" where
  "parseUint_loop [] i v = (v, i, None)"
| "parseUint_loop (c # b) i v =
     (let k = c - 48 in
      if k > 9 then (if i = 0 then (- 1, i, Some ErrUnexpectedFirstChar) else (v, i, None))
      else if i \<ge> maxIntChars then (- 1, i, Some ErrTooLongInt)
      else parseUint_loop b (i + 1) (10 * v + ucast k))"

definition ParseUintBuf :: "bytes \<Rightarrow> 64 word \<times> nat \<times> conv_error option" where
  "ParseUintBuf b = (if length b = 0 then (- 1, 0, Some ErrEmptyInt) else parseUint_loop b 0 0)"

definition ParseUint :: "bytes \<Rightarrow> 64 word \<times> conv_error option" where
  "ParseUint buf =
     (case ParseUintBuf buf of (v, n, err) \<Rightarrow>
        if n \<noteq> length buf then (- 1, Some ErrUnexpectedTrailingChar) else (v, err))"

text \<open>
  The loop of \<open>AppendUint\<close> writes digits from the end of a buffer of twenty bytes; an index below zero panics.
\<close>

definition put_digit :: "nat \<Rightarrow> int \<Rightarrow> bytes \<Rightarrow> (nat \<times> bytes) go" where
  "put_digit i d buf = (if i = 0 then Inl (PanicRuntime IndexRange) else Inr (i - 1, buf[i - 1 := 48 + of_int d]))"

function appendUint_loop :: "int \<Rightarrow> nat \<Rightarrow> bytes \<Rightarrow> (int \<times> nat \<times> bytes) go" where
  "appendUint_loop n i buf =
     (if n \<ge> 10 then
        (let q = n div 10 in
         case put_digit i (n - q * 10) buf of Inl e \<Rightarrow> Inl e | Inr (i', buf') \<Rightarrow> appendUint_loop q i' buf')
      else Inr (n, i, buf))"
  by pat_completeness auto
termination
  by (relation "measure (\<lambda>(n, i, buf). nat n)") auto

declare appendUint_loop.simps [simp del]

definition AppendUint :: "bytes \<Rightarrow> int \<Rightarrow> bytes go" where
  "AppendUint dst n =
     (if n < 0 then Inl (PanicValue ''BUG: int must be positive'')
      else case appendUint_loop n 20 (replicate 20 0) of
             Inl e \<Rightarrow> Inl e
           | Inr (n', i, buf) \<Rightarrow>
               (case put_digit i n' buf of Inl e \<Rightarrow> Inl e | Inr (i', buf') \<Rightarrow> Inr (dst @ drop i' buf')))"

section \<open>Hexadecimal\<close>

definition hex2intTable :: "byte \<Rightarrow> byte" where
  "hex2intTable c =
     (if 48 \<le> c \<and> c \<le> 57 then c - 48
      else if 97 \<le> c \<and> c \<le> 102 then c - 97 + 10
      else if 65 \<le> c \<and> c \<le> 70 then c - 65 + 10
      else 16)"

definition int2hexbyte :: "64 word \<Rightarrow> byte" where
  "int2hexbyte n = (if sint n < 10 then 48 + ucast n else 97 + ucast n - 10)"

definition hexCharUpper :: "byte \<Rightarrow> byte" where
  "hexCharUpper c = (if c < 10 then 48 + c else c - 10 + 65)"

text \<open>
  \<open>readHexInt\<close> on a reader that delivers the bytes \<open>r\<close> and then the error \<open>e\<close>: the result and the bytes left. A byte
  that is not a digit is put back.
\<close>

fun readHexInt_loop :: "bytes \<Rightarrow> go_error \<Rightarrow> nat \<Rightarrow> 64 word \<Rightarrow> (conv_error + 64 word) \<times> bytes" where
  "readHexInt_loop [] e i n = (if e = IoEOF \<and> i > 0 then (Inr n, []) else (Inl (ErrRead e), []))"
| "readHexInt_loop (c # r) e i n =
     (let k = hex2intTable c in
      if k = 16 then (if i = 0 then (Inl ErrEmptyHexNum, r) else (Inr n, c # r))
      else if i \<ge> maxHexIntChars then (Inl ErrTooLargeHexNum, r)
      else readHexInt_loop r e (i + 1) (push_bit 4 n OR ucast k))"

definition readHexInt :: "bytes \<Rightarrow> go_error \<Rightarrow> (conv_error + 64 word) \<times> bytes" where
  "readHexInt r e = readHexInt_loop r e 0 0"

text \<open>
  The loop of \<open>WriteHexInt\<close>: a digit is written at index \<open>i\<close> of the pooled buffer, then \<open>i\<close> moves down unless the
  number is used up. The result is the index and the buffer when the loop ends; the bytes from the index on are
  written. An index below zero panics.
\<close>

function writeHexInt_loop :: "64 word \<Rightarrow> int \<Rightarrow> bytes \<Rightarrow> (nat \<times> bytes) go" where
  "writeHexInt_loop n i buf =
     (if i < 0 \<or> int (length buf) \<le> i then Inl (PanicRuntime IndexRange)
      else let buf' = buf[nat i := int2hexbyte (n AND 0xf)]; n' = signed_drop_bit 4 n in
           if n' = 0 then Inr (nat i, buf') else writeHexInt_loop n' (i - 1) buf')"
  by pat_completeness auto
termination
  by (relation "measure (\<lambda>(n, i, buf). nat (i + 1))") auto

declare writeHexInt_loop.simps [simp del]

definition WriteHexInt :: "64 word \<Rightarrow> bytes \<Rightarrow> bytes go" where
  "WriteHexInt n buf =
     (if sint n < 0 then Inl (PanicValue ''BUG: int must be positive'')
      else case writeHexInt_loop n (int (length buf) - 1) buf of
             Inl e \<Rightarrow> Inl e
           | Inr (i, buf') \<Rightarrow> Inr (drop i buf'))"

section \<open>Letter case\<close>

definition ToLowerTable :: "byte \<Rightarrow> byte" where
  "ToLowerTable c = (if 65 \<le> c \<and> c \<le> 90 then c + 32 else c)"

definition ToUpperTable :: "byte \<Rightarrow> byte" where
  "ToUpperTable c = (if 97 \<le> c \<and> c \<le> 122 then c - 32 else c)"

text \<open>\<open>LowercaseBytes\<close> overwrites every element in place, in order.\<close>

function lowercase_from :: "nat \<Rightarrow> bytes \<Rightarrow> bytes" where
  "lowercase_from i b = (if i < length b then lowercase_from (i + 1) (b[i := ToLowerTable (b ! i)]) else b)"
  by pat_completeness auto
termination
  by (relation "measure (\<lambda>(i, b). length b - i)") auto

declare lowercase_from.simps [simp del]

definition LowercaseBytes :: "bytes \<Rightarrow> bytes" where
  "LowercaseBytes b = lowercase_from 0 b"

section \<open>Escapes\<close>

definition html_sub :: "byte \<Rightarrow> bytes" where
  "html_sub c =
     (if c = 60 then [38, 108, 116, 59]
      else if c = 62 then [38, 103, 116, 59]
      else if c = 34 then [38, 113, 117, 111, 116, 59]
      else if c = 39 then [38, 35, 51, 57, 59]
      else [])"

text \<open>The slow path of \<open>AppendHTMLEscape\<close>: \<open>s[prev:i]\<close> is copied when an escape comes, and \<open>s[prev:]\<close> at the end.\<close>

function htmlEscape_loop :: "bytes \<Rightarrow> bytes \<Rightarrow> nat \<Rightarrow> nat \<Rightarrow> bytes" where
  "htmlEscape_loop dst s prev i =
     (if i < length s then
        (let sub = html_sub (s ! i) in
         if length sub > 0 then htmlEscape_loop (dst @ drop prev (take i s) @ sub) s (i + 1) (i + 1)
         else htmlEscape_loop dst s prev (i + 1))
      else dst @ drop prev s)"
  by pat_completeness auto
termination
  by (relation "measure (\<lambda>(dst, s, prev, i). length s - i)") auto

declare htmlEscape_loop.simps [simp del]

definition AppendHTMLEscape :: "bytes \<Rightarrow> bytes \<Rightarrow> bytes" where
  "AppendHTMLEscape dst s =
     (if 60 \<notin> set s \<and> 62 \<notin> set s \<and> 34 \<notin> set s \<and> 39 \<notin> set s then dst @ s
      else htmlEscape_loop dst s 0 0)"

definition AppendHTMLEscapeBytes :: "bytes \<Rightarrow> bytes \<Rightarrow> bytes" where
  "AppendHTMLEscapeBytes dst s = AppendHTMLEscape dst s"

definition is_alnum :: "byte \<Rightarrow> bool" where
  "is_alnum c \<longleftrightarrow> 97 \<le> c \<and> c \<le> 122 \<or> 65 \<le> c \<and> c \<le> 90 \<or> 48 \<le> c \<and> c \<le> 57"

definition percent :: "byte \<Rightarrow> bytes" where
  "percent c = [37, hexCharUpper (drop_bit 4 c), hexCharUpper (c AND 15)]"

definition arg_plain :: "byte \<Rightarrow> bool" where
  "arg_plain c \<longleftrightarrow> is_alnum c \<or> c = 42 \<or> c = 45 \<or> c = 46 \<or> c = 95"

fun AppendQuotedArg :: "bytes \<Rightarrow> bytes \<Rightarrow> bytes" where
  "AppendQuotedArg dst [] = dst"
| "AppendQuotedArg dst (c # src) = AppendQuotedArg (dst @ (if arg_plain c then [c] else percent c)) src"

definition path_plain :: "byte \<Rightarrow> bool" where
  "path_plain c \<longleftrightarrow> is_alnum c \<or> c = 47 \<or> c = 46 \<or> c = 44 \<or> c = 61 \<or> c = 58 \<or> c = 38 \<or> c = 126 \<or> c = 45 \<or> c = 95"

fun AppendQuotedPath :: "bytes \<Rightarrow> bytes \<Rightarrow> bytes" where
  "AppendQuotedPath dst [] = dst"
| "AppendQuotedPath dst (c # src) = AppendQuotedPath (dst @ (if path_plain c then [c] else percent c)) src"

text \<open>
  The slow path of \<open>decodeArgAppend\<close> (\<open>sp\<close> set) and of \<open>DecodeArgAppendNoPlus\<close>, from the byte at the loop index on:
  with fewer than two bytes after a percent sign the rest is copied as it is; a percent sign without two digits stands
  for itself.
\<close>

fun decodeArg_loop :: "bool \<Rightarrow> bytes \<Rightarrow> bytes \<Rightarrow> bytes" where
  "decodeArg_loop sp dst [] = dst"
| "decodeArg_loop sp dst (c # src) =
     (if c = 37 then
        (case src of
           d1 # d2 # rest \<Rightarrow>
             (let x2 = hex2intTable d2; x1 = hex2intTable d1 in
              if x1 = 16 \<or> x2 = 16 then decodeArg_loop sp (dst @ [37]) src
              else decodeArg_loop sp (dst @ [push_bit 4 x1 OR x2]) rest)
         | _ \<Rightarrow> dst @ c # src)
      else if sp \<and> c = 43 then decodeArg_loop sp (dst @ [32]) src
      else decodeArg_loop sp (dst @ [c]) src)"

definition decodeArgAppend :: "bytes \<Rightarrow> bytes \<Rightarrow> bytes" where
  "decodeArgAppend dst src = (if 37 \<notin> set src \<and> 43 \<notin> set src then dst @ src else decodeArg_loop True dst src)"

definition DecodeArgAppendNoPlus :: "bytes \<Rightarrow> bytes \<Rightarrow> bytes" where
  "DecodeArgAppendNoPlus dst src = (if 37 \<notin> set src then dst @ src else decodeArg_loop False dst src)"

definition AppendUnquotedArg :: "bytes \<Rightarrow> bytes \<Rightarrow> bytes" where
  "AppendUnquotedArg dst src = decodeArgAppend dst src"

definition EqualBytesStr :: "bytes \<Rightarrow> bytes \<Rightarrow> bool" where
  "EqualBytesStr b s \<longleftrightarrow> b = s"

definition AppendBytesStr :: "bytes \<Rightarrow> bytes \<Rightarrow> bytes" where
  "AppendBytesStr dst src = dst @ src"

section \<open>IPv4 addresses\<close>

text \<open>\<open>net.IP.To4\<close>: four bytes as they are, or the last four of a mapped sixteen-byte address.\<close>

definition To4 :: "bytes \<Rightarrow> bytes option" where
  "To4 ip =
     (if length ip = 4 then Some ip
      else if length ip = 16 \<and> take 10 ip = replicate 10 0 \<and> ip ! 10 = 0xff \<and> ip ! 11 = 0xff then Some (drop 12 ip)
      else None)"

definition IPv4zero :: bytes where
  "IPv4zero = replicate 10 0 @ [0xff, 0xff] @ replicate 4 0"

text \<open>Panics cannot occur in the digits of a byte; the run is kept in the sum all the same.\<close>

fun appendIP_loop :: "bytes \<Rightarrow> bytes \<Rightarrow> bytes go" where
  "appendIP_loop dst [] = Inr dst"
| "appendIP_loop dst (x # ip) =
     (case AppendUint (dst @ [46]) (uint x) of Inl e \<Rightarrow> Inl e | Inr dst' \<Rightarrow> appendIP_loop dst' ip)"

definition AppendIPv4 :: "bytes \<Rightarrow> bytes \<Rightarrow> bytes go" where
  "AppendIPv4 dst ip =
     (case To4 ip of
        None \<Rightarrow> Inr (dst @ map of_char ''non-v4 ip passed to AppendIPv4'')
      | Some ip4 \<Rightarrow>
          (case AppendUint dst (uint (ip4 ! 0)) of
             Inl e \<Rightarrow> Inl e
           | Inr dst' \<Rightarrow> appendIP_loop dst' (drop 1 ip4)))"

definition parse_part :: "bytes \<Rightarrow> bytes \<Rightarrow> conv_error + byte" where
  "parse_part ipStr b =
     (case ParseUint b of
        (v, Some err) \<Rightarrow> Inl (ErrIPPart ipStr err)
      | (v, None) \<Rightarrow> if sint v > 255 then Inl (ErrIPPartRange ipStr (sint v)) else Inr (ucast v))"

text \<open>
  The loop over the first three parts (\<open>k\<close> are left, \<open>i\<close> is the index of the next), then the last part. The address
  is returned with the error as far as it has been filled.
\<close>

fun parseIP_loop :: "bytes \<Rightarrow> bytes \<Rightarrow> nat \<Rightarrow> bytes \<Rightarrow> nat \<Rightarrow> bytes \<times> conv_error option" where
  "parseIP_loop ipStr b 0 dst i =
     (case parse_part ipStr b of Inl e \<Rightarrow> (dst, Some e) | Inr x \<Rightarrow> (dst[i := x], None))"
| "parseIP_loop ipStr b (Suc k) dst i =
     (if 46 \<notin> set b then (dst, Some (ErrNoDot ipStr))
      else case parse_part ipStr (takeWhile (\<lambda>c. c \<noteq> 46) b) of
             Inl e \<Rightarrow> (dst, Some e)
           | Inr x \<Rightarrow> parseIP_loop ipStr (drop 1 (dropWhile (\<lambda>c. c \<noteq> 46) b)) k (dst[i := x]) (i + 1))"

definition ParseIPv4 :: "bytes \<Rightarrow> bytes \<Rightarrow> (bytes \<times> conv_error option) go" where
  "ParseIPv4 dst ipStr =
     (if length ipStr = 0 then Inr (dst, Some ErrEmptyIPStr)
      else let dst1 = (if length dst < 4 then replicate 4 0 else dst);
               dst2 = go_copy (length dst1) dst1 IPv4zero
           in case To4 dst2 of
                None \<Rightarrow> Inl (PanicValue ''BUG: dst must not be nil'')
              | Some ip \<Rightarrow> Inr (parseIP_loop ipStr ipStr 3 ip 0))"

section \<open>Decimal numbers\<close>

text \<open>The decimal notation, and the value of a run of digits.\<close>

function decimal :: "nat \<Rightarrow> bytes" where
  "decimal n = (if n < 10 then [48 + of_nat n] else decimal (n div 10) @ [48 + of_nat (n mod 10)])"
  by pat_completeness auto
termination
  by (relation "measure id") auto

declare decimal.simps [simp del]

definition is_digit :: "byte \<Rightarrow> bool" where
  "is_digit c \<longleftrightarrow> \<not> c - 48 > 9"

definition digit_value :: "byte \<Rightarrow> nat" where
  "digit_value c = unat (c - 48)"

definition decimal_value :: "bytes \<Rightarrow> nat" where
  "decimal_value b = foldl (\<lambda>v c. 10 * v + digit_value c) 0 b"

lemma decimal_value_append: "foldl (\<lambda>v c. 10 * v + digit_value c) v (b @ [c]) =
    10 * foldl (\<lambda>v c. 10 * v + digit_value c) v b + digit_value c"
  by simp

lemma digit_byte:
  assumes "k < 10"
  shows "is_digit (48 + of_nat k)" and "digit_value (48 + of_nat k) = k"
proof -
  have k: "unat (of_nat k :: byte) = k" using assms by (simp add: unat_of_nat)
  then show "is_digit (48 + of_nat k)" using assms by (simp add: is_digit_def word_less_nat_alt not_less)
  show "digit_value (48 + of_nat k) = k" using k by (simp add: digit_value_def)
qed

lemma digit_value_less: "is_digit c \<Longrightarrow> digit_value c < 10"
  by (simp add: is_digit_def digit_value_def word_less_nat_alt not_less)

lemma decimal_digits: "list_all is_digit (decimal n)"
proof (induction n rule: decimal.induct)
  case (1 n)
  then show ?case by (cases "n < 10") (simp_all add: decimal.simps [of n] digit_byte)
qed

lemma decimal_value_decimal: "decimal_value (decimal n) = n"
proof (induction n rule: decimal.induct)
  case (1 n)
  then show ?case
    by (cases "n < 10") (simp_all add: decimal.simps [of n] decimal_value_def digit_byte)
qed

lemma decimal_not_Nil [simp]: "decimal n \<noteq> []"
  by (simp add: decimal.simps [of n])

lemma length_decimal: "n < 10 ^ Suc k \<Longrightarrow> length (decimal n) \<le> Suc k"
proof (induction k arbitrary: n)
  case 0
  then show ?case by (simp add: decimal.simps [of n])
next
  case (Suc k)
  show ?case
  proof (cases "n < 10")
    case True
    then show ?thesis by (simp add: decimal.simps [of n])
  next
    case False
    have "n div 10 < 10 ^ Suc k" using Suc.prems by (simp add: div_less_iff_less_mult mult.commute)
    from Suc.IH [OF this] False show ?thesis by (simp add: decimal.simps [of n])
  qed
qed

text \<open>The buffer of \<open>AppendUint\<close> holds the digits written so far at its end.\<close>

lemma appendUint_loop_spec:
  assumes "0 \<le> n" and "length (decimal (nat n)) \<le> i" and "i \<le> length buf"
  shows "\<exists>n' j buf'. appendUint_loop n i buf = Inr (n', Suc j, buf') \<and> 0 \<le> n' \<and> n' < 10 \<and> Suc j \<le> length buf' \<and>
     drop j (buf'[j := 48 + of_int n']) = decimal (nat n) @ drop i buf"
  using assms
proof (induction n i buf rule: appendUint_loop.induct)
  case (1 n i buf)
  show ?case
  proof (cases "n \<ge> 10")
    case False
    then have "i \<noteq> 0" using 1(3) decimal_not_Nil [of "nat n"] by (cases i) auto
    then obtain j where j: "i = Suc j" by (cases i) auto
    have "nat n < 10" "(of_nat (nat n) :: byte) = of_int n" using False 1(2) by simp_all
    then have "decimal (nat n) = [48 + of_int n]" by (simp add: decimal.simps [of "nat n"])
    moreover have "drop j (buf[j := 48 + of_int n]) = (48 + of_int n) # drop (Suc j) buf"
      using 1(4) j by (simp add: drop_update_swap [symmetric] Cons_nth_drop_Suc [symmetric])
    ultimately show ?thesis using False j 1(2,4) by (simp add: appendUint_loop.simps [of n])
  next
    case True
    let ?q = "n div 10"
    let ?d = "n - ?q * 10"
    have q: "nat ?q = nat n div 10" "0 \<le> ?q" using True by (simp_all add: nat_div_distrib)
    have d: "?d = int (nat n mod 10)" using True by (simp add: minus_div_mult_eq_mod zmod_int)
    have dec: "decimal (nat n) = decimal (nat ?q) @ [48 + of_int ?d]"
      using True q d by (simp add: decimal.simps [of "nat n"])
    then have i: "i \<noteq> 0" "length (decimal (nat ?q)) \<le> i - 1" using 1(3) by auto
    then obtain j where j: "i = Suc j" by (cases i) auto
    let ?buf = "buf[j := 48 + of_int ?d]"
    have put: "put_digit i ?d buf = Inr (j, ?buf)" using j by (simp add: put_digit_def)
    have "\<exists>n' k buf'. appendUint_loop ?q j ?buf = Inr (n', Suc k, buf') \<and> 0 \<le> n' \<and> n' < 10 \<and> Suc k \<le> length buf' \<and>
      drop k (buf'[k := 48 + of_int n']) = decimal (nat ?q) @ drop j ?buf"
      using 1(1) [OF True refl put refl] q i j 1(4) by simp
    moreover have "drop j ?buf = (48 + of_int ?d) # drop i buf"
      using 1(4) j by (simp add: drop_update_swap [symmetric] Cons_nth_drop_Suc [symmetric])
    ultimately show ?thesis using True put dec by (simp add: appendUint_loop.simps [of n] Let_def)
  qed
qed

lemma AppendUint_decimal:
  assumes "0 \<le> n" and "n < 2 ^ 63"
  shows "AppendUint dst n = Inr (dst @ decimal (nat n))"
proof -
  have "nat n < 10 ^ Suc 18" using assms by simp
  from length_decimal [OF this] have "length (decimal (nat n)) \<le> 20" by simp
  from appendUint_loop_spec [OF assms(1) this, of "replicate 20 0"] obtain n' j buf'
    where "appendUint_loop n 20 (replicate 20 0) = Inr (n', Suc j, buf')"
      "drop j (buf'[j := 48 + of_int n']) = decimal (nat n)" by auto
  then show ?thesis using assms(1) by (simp add: AppendUint_def put_digit_def)
qed

subsection \<open>Parsing\<close>

text \<open>
  With at most eighteen digits the 64-bit value cannot wrap: the loop computes the exact decimal value, stops at the
  first byte that is not a digit, and reports a nineteenth digit.
\<close>

abbreviation dfold :: "nat \<Rightarrow> bytes \<Rightarrow> nat" where
  "dfold v b \<equiv> foldl (\<lambda>v c. 10 * v + digit_value c) v b"

lemma dfold_less: "list_all is_digit b \<Longrightarrow> v < 10 ^ i \<Longrightarrow> dfold v b < 10 ^ (i + length b)"
proof (induction b arbitrary: v i)
  case Nil
  then show ?case by simp
next
  case (Cons c b)
  from Cons.prems have "10 * v + digit_value c < 10 ^ Suc i" using digit_value_less [of c] by simp
  from Cons.IH [OF _ this] Cons.prems show ?case by simp
qed

lemma decimal_value_less: "list_all is_digit b \<Longrightarrow> decimal_value b < 10 ^ length b"
  using dfold_less [of b 0 0] by (simp add: decimal_value_def)

lemma parseUint_loop_spec:
  assumes "parseUint_loop b i (of_nat v) = (w, n, None)" and "i \<le> maxIntChars"
  obtains k where "k \<le> length b" and "n = i + k" and "n \<le> maxIntChars" and "list_all is_digit (take k b)"
    and "k < length b \<Longrightarrow> \<not> is_digit (b ! k) \<and> n \<noteq> 0" and "w = of_nat (dfold v (take k b))"
  using assms
proof (induction b arbitrary: i v thesis)
  case Nil
  then show ?case by (intro Nil.prems(1) [of 0]) auto
next
  case (Cons c b)
  show ?case
  proof (cases "c - 48 > 9")
    case True
    then show ?thesis using Cons.prems by (intro Cons.prems(1) [of 0]) (auto simp: is_digit_def split: if_splits)
  next
    case False
    then have i: "i < maxIntChars" and r: "parseUint_loop b (i + 1) (10 * of_nat v + ucast (c - 48)) = (w, n, None)"
      using Cons.prems(2) by (auto simp: Let_def split: if_splits)
    have "(10 * of_nat v + ucast (c - 48) :: 64 word) = of_nat (10 * v + digit_value c)"
      by (simp add: digit_value_def)
    with r have "parseUint_loop b (i + 1) (of_nat (10 * v + digit_value c)) = (w, n, None)" by simp
    from Cons.IH [OF _ this] i obtain k where k: "k \<le> length b" "n = i + 1 + k" "n \<le> maxIntChars"
        "list_all is_digit (take k b)" "k < length b \<Longrightarrow> \<not> is_digit (b ! k) \<and> n \<noteq> 0"
        "w = of_nat (dfold (10 * v + digit_value c) (take k b))" by auto
    have "is_digit c" using False by (simp add: is_digit_def)
    then show ?thesis by (intro Cons.prems(1) [of "Suc k"]) (use k in auto)
  qed
qed

lemma parseUint_loop_digits:
  assumes "list_all is_digit b" and "i + length b \<le> maxIntChars"
  shows "parseUint_loop (b @ d) i (of_nat v) = parseUint_loop d (i + length b) (of_nat (dfold v b))"
  using assms
proof (induction b arbitrary: i v)
  case Nil
  then show ?case by simp
next
  case (Cons c b)
  have "(10 * of_nat v + ucast (c - 48) :: 64 word) = of_nat (10 * v + digit_value c)"
    by (simp add: digit_value_def)
  with Cons.IH [of "i + 1" "10 * v + digit_value c"] Cons.prems show ?case
    by (simp add: is_digit_def)
qed

lemma ParseUintBuf_digits:
  assumes "list_all is_digit b" and "b \<noteq> []" and "length b \<le> maxIntChars" and "d = [] \<or> \<not> is_digit (hd d)"
  shows "ParseUintBuf (b @ d) = (of_nat (decimal_value b), length b, None)"
proof -
  have "parseUint_loop (b @ d) 0 (of_nat 0) = parseUint_loop d (length b) (of_nat (decimal_value b))"
    using parseUint_loop_digits [of b 0 d 0] assms by (simp add: decimal_value_def)
  also have "\<dots> = (of_nat (decimal_value b), length b, None)"
    using assms by (cases d) (auto simp: is_digit_def Let_def)
  finally show ?thesis using assms(2) by (simp add: ParseUintBuf_def)
qed

lemma ParseUint_digits:
  "list_all is_digit b \<Longrightarrow> b \<noteq> [] \<Longrightarrow> length b \<le> maxIntChars \<Longrightarrow> ParseUint b = (of_nat (decimal_value b), None)"
  using ParseUintBuf_digits [of b "[]"] by (simp add: ParseUint_def)

lemma sint_of_nat64: "m < 9223372036854775808 \<Longrightarrow> sint (of_nat m :: 64 word) = int m"
  by (simp add: signed_of_nat signed_take_bit_int_eq_self)

section \<open>Percent escapes\<close>

lemma concat_AppendQuotedArg: "AppendQuotedArg dst s = dst @ concat (map (\<lambda>c. if arg_plain c then [c] else percent c) s)"
  by (induction dst s rule: AppendQuotedArg.induct) auto

lemma concat_AppendQuotedPath: "AppendQuotedPath dst s = dst @ concat (map (\<lambda>c. if path_plain c then [c] else percent c) s)"
  by (induction dst s rule: AppendQuotedPath.induct) auto

lemma hex_nibble_all:
  "list_all (\<lambda>k. hex2intTable (hexCharUpper (of_nat k)) = of_nat k) [0 ..< 16]"
  by code_simp

lemma hex_nibble:
  assumes "x < 16"
  shows "hex2intTable (hexCharUpper x) = x" and "hex2intTable (hexCharUpper x) \<noteq> 16"
proof -
  have "unat x \<in> set [0 ..< 16]" using assms by (simp only: set_upt atLeastLessThan_iff word_less_nat_alt) simp
  with hex_nibble_all have "hex2intTable (hexCharUpper (of_nat (unat x))) = of_nat (unat x)"
    unfolding list_all_iff by (rule bspec)
  then show "hex2intTable (hexCharUpper x) = x" by simp
  then show "hex2intTable (hexCharUpper x) \<noteq> 16" using assms by auto
qed

lemma byte_nibbles: "drop_bit 4 (c :: byte) < 16" "c AND 15 < 16" "push_bit 4 (drop_bit 4 c) OR (c AND 15) = c"
proof -
  have "unat (drop_bit 4 c) < 16"
    unfolding unsigned_drop_bit_eq using unat_byte_less [of c] by (simp add: drop_bit_eq_div take_bit_nat_eq_self)
  then show "drop_bit 4 c < 16" by (simp add: word_less_nat_alt)
  have m: "c AND 15 = take_bit 4 c" by (simp add: take_bit_eq_mask mask_eq_exp_minus_1)
  have "unat (take_bit 4 c) < 16" unfolding unsigned_take_bit_eq by (simp add: take_bit_eq_mod)
  then show "c AND 15 < 16" unfolding m by (simp add: word_less_nat_alt)
  show "push_bit 4 (drop_bit 4 c) OR (c AND 15) = c"
    unfolding m by (rule bit_word_eqI) (auto simp: bit_simps)
qed

lemma decode_percent: "decodeArg_loop sp dst (percent c @ d) = decodeArg_loop sp (dst @ [c]) d"
proof -
  note h = hex_nibble [OF byte_nibbles(1) [of c]] hex_nibble [OF byte_nibbles(2) [of c]]
  have "decodeArg_loop sp dst (percent c @ d) =
      (let x2 = hex2intTable (hexCharUpper (c AND 15)); x1 = hex2intTable (hexCharUpper (drop_bit 4 c)) in
       if x1 = 16 \<or> x2 = 16
       then decodeArg_loop sp (dst @ [37]) (hexCharUpper (drop_bit 4 c) # hexCharUpper (c AND 15) # d)
       else decodeArg_loop sp (dst @ [push_bit 4 x1 OR x2]) d)"
    unfolding percent_def append_Cons append_Nil by (subst decodeArg_loop.simps(2)) (simp only: list.case if_True simp_thms)
  also have "\<dots> = decodeArg_loop sp (dst @ [c]) d"
    by (simp only: Let_def h(2,4) if_False simp_thms) (simp only: h(1,3) byte_nibbles(3))
  finally show ?thesis .
qed

text \<open>Decoding undoes any encoding that leaves neither a percent sign nor (for arguments) a plus sign as it is.\<close>

lemma decode_encode:
  assumes "\<And>c. plain c \<Longrightarrow> c \<noteq> 37 \<and> (sp \<longrightarrow> c \<noteq> 43)"
  shows "decodeArg_loop sp dst (concat (map (\<lambda>c. if plain c then [c] else percent c) s)) = dst @ s"
proof (induction s arbitrary: dst)
  case Nil
  then show ?case by simp
next
  case (Cons c s)
  show ?case
  proof (cases "plain c")
    case True
    with assms [OF True] have "decodeArg_loop sp dst (c # d) = decodeArg_loop sp (dst @ [c]) d" for d
      by (subst decodeArg_loop.simps(2)) auto
    with True Cons.IH [of "dst @ [c]"] show ?thesis by simp
  next
    case False
    with Cons.IH [of "dst @ [c]"] show ?thesis by (simp only: list.map concat.simps if_False decode_percent) simp
  qed
qed

lemma encode_fast:
  "37 \<notin> set (concat (map (\<lambda>c. if plain c then [c] else percent c) s)) \<Longrightarrow>
   concat (map (\<lambda>c. if plain c then [c] else percent c) s) = s"
  by (induction s) (auto simp: percent_def split: if_splits)

lemma arg_plain_not_special: "arg_plain c \<Longrightarrow> c \<noteq> 37 \<and> (True \<longrightarrow> c \<noteq> 43)"
  by (auto simp: arg_plain_def is_alnum_def)

lemma path_plain_not_special: "path_plain c \<Longrightarrow> c \<noteq> 37 \<and> (False \<longrightarrow> c \<noteq> 43)"
  by (auto simp: path_plain_def is_alnum_def)

lemma decode_quoted_arg: "decodeArgAppend dst (AppendQuotedArg [] s) = dst @ s"
  unfolding decodeArgAppend_def concat_AppendQuotedArg
  using decode_encode [of arg_plain True dst s, OF arg_plain_not_special] encode_fast [of arg_plain s]
  by auto

lemma decode_quoted_path: "DecodeArgAppendNoPlus dst (AppendQuotedPath [] s) = dst @ s"
  unfolding DecodeArgAppendNoPlus_def concat_AppendQuotedPath
  using decode_encode [of path_plain False dst s, OF path_plain_not_special] encode_fast [of path_plain s]
  by auto

section \<open>HTML escapes\<close>

definition html_escaped :: "byte \<Rightarrow> bytes" where
  "html_escaped c = (if html_sub c = [] then [c] else html_sub c)"

lemma html_escaped_plain: "c \<noteq> 60 \<Longrightarrow> c \<noteq> 62 \<Longrightarrow> c \<noteq> 34 \<Longrightarrow> c \<noteq> 39 \<Longrightarrow> html_escaped c = [c]"
  by (simp add: html_escaped_def html_sub_def)

lemma htmlEscape_loop_spec:
  assumes "prev \<le> i" and "i \<le> length s" and "\<forall>c \<in> set (drop prev (take i s)). html_sub c = []"
  shows "htmlEscape_loop dst s prev i = dst @ concat (map html_escaped (drop prev s))"
  using assms
proof (induction dst s prev i rule: htmlEscape_loop.induct)
  case (1 dst s prev i)
  have plain: "concat (map html_escaped xs) = xs" if "\<forall>c \<in> set xs. html_sub c = []" for xs
    using that by (induction xs) (auto simp: html_escaped_def)
  show ?case
  proof (cases "i < length s")
    case False
    then show ?thesis using 1(5) plain [of "drop prev s"] by (simp add: htmlEscape_loop.simps [of dst])
  next
    case True
    have split: "drop prev s = drop prev (take i s) @ s ! i # drop (Suc i) s"
      using True 1(3) by (metis append_take_drop_id drop_append Cons_nth_drop_Suc length_take min.absorb2 diff_is_0_eq drop0 less_imp_le)
    show ?thesis
    proof (cases "html_sub (s ! i) = []")
      case False
      have "htmlEscape_loop dst s prev i = htmlEscape_loop (dst @ drop prev (take i s) @ html_sub (s ! i)) s (i + 1) (i + 1)"
        using True False by (subst htmlEscape_loop.simps) (simp add: Let_def)
      also have "\<dots> = (dst @ drop prev (take i s) @ html_sub (s ! i)) @ concat (map html_escaped (drop (i + 1) s))"
        using True False by (intro 1(1)) auto
      also have "\<dots> = dst @ concat (map html_escaped (drop prev s))"
        unfolding split using False plain [OF 1(5)] by (simp add: html_escaped_def)
      finally show ?thesis .
    next
      case nil: True
      have "htmlEscape_loop dst s prev i = htmlEscape_loop dst s prev (i + 1)"
        using True nil by (subst htmlEscape_loop.simps) (simp add: Let_def)
      moreover have "\<forall>c \<in> set (drop prev (take (i + 1) s)). html_sub c = []"
        using True 1(3,5) nil by (auto simp: take_Suc_conv_app_nth)
      ultimately show ?thesis using 1(2) [OF True refl] True nil 1(3) by simp
    qed
  qed
qed

lemma AppendHTMLEscape_spec: "AppendHTMLEscape dst s = dst @ concat (map html_escaped s)"
proof (cases "60 \<notin> set s \<and> 62 \<notin> set s \<and> 34 \<notin> set s \<and> 39 \<notin> set s")
  case True
  then have "concat (map html_escaped s) = s" by (induction s) (auto simp: html_escaped_plain)
  with True show ?thesis by (simp add: AppendHTMLEscape_def)
next
  case False
  then show ?thesis using htmlEscape_loop_spec [of 0 0 s dst] unfolding AppendHTMLEscape_def if_not_P [OF False] by simp
qed

lemma LowercaseBytes_map: "LowercaseBytes b = map ToLowerTable b"
proof -
  have "lowercase_from i b = take i b @ map ToLowerTable (drop i b)" if "i \<le> length b" for i b
    using that
  proof (induction i b rule: lowercase_from.induct)
    case (1 i b)
    then show ?case
      by (cases "i < length b")
        (auto simp: lowercase_from.simps [of i b] lowercase_from.simps [of "length b" b] take_Suc_conv_app_nth Cons_nth_drop_Suc [symmetric] drop_update_swap)
  qed
  from this [of 0 b] show ?thesis by (simp add: LowercaseBytes_def)
qed

section \<open>Hexadecimal numbers\<close>

function hexadecimal :: "nat \<Rightarrow> bytes" where
  "hexadecimal n =
     (if n < 16 then [int2hexbyte (of_nat n)] else hexadecimal (n div 16) @ [int2hexbyte (of_nat (n mod 16))])"
  by pat_completeness auto
termination
  by (relation "measure id") auto

declare hexadecimal.simps [simp del]

lemma hexadecimal_not_Nil [simp]: "hexadecimal n \<noteq> []"
  by (simp add: hexadecimal.simps [of n])

lemma length_hexadecimal: "n < 16 ^ Suc k \<Longrightarrow> length (hexadecimal n) \<le> Suc k"
proof (induction k arbitrary: n)
  case 0
  then show ?case by (simp add: hexadecimal.simps [of n])
next
  case (Suc k)
  show ?case
  proof (cases "n < 16")
    case False
    have "n div 16 < 16 ^ Suc k" using Suc.prems by (simp add: div_less_iff_less_mult mult.commute)
    from Suc.IH [OF this] False show ?thesis by (simp add: hexadecimal.simps [of n])
  qed (simp add: hexadecimal.simps [of n])
qed

lemma low_nibble: "(of_nat m :: 64 word) AND 0xf = of_nat (m mod 16)"
proof -
  have "(of_nat m :: 64 word) AND mask 4 = of_nat (m mod 16)"
    by (simp only: take_bit_eq_mask [symmetric] take_bit_of_nat) (simp add: take_bit_eq_mod)
  then show ?thesis by (simp add: mask_eq_exp_minus_1)
qed

lemma shift_nibble:
  assumes "m < 9223372036854775808"
  shows "signed_drop_bit 4 (of_nat m :: 64 word) = of_nat (m div 16)"
proof (rule signed_word_eqI)
  have "sint (signed_drop_bit 4 (of_nat m :: 64 word)) = int (m div 16)"
    using assms by (simp add: sint_signed_drop_bit_eq sint_of_nat64 drop_bit_eq_div zdiv_int)
  also have "\<dots> = sint (of_nat (m div 16) :: 64 word)"
    using assms by (subst sint_of_nat64) auto
  finally show "sint (signed_drop_bit 4 (of_nat m :: 64 word)) = sint (of_nat (m div 16) :: 64 word)" .
qed

lemma drop_last_update: "i < length buf \<Longrightarrow> drop i (buf[i := x]) = x # drop (Suc i) buf"
  by (simp add: drop_update_swap [symmetric] Cons_nth_drop_Suc [symmetric])

lemma writeHexInt_loop_spec:
  assumes "m < 9223372036854775808" and "length (hexadecimal m) \<le> Suc i" and "i < length buf"
  shows "\<exists>j buf'. writeHexInt_loop (of_nat m) (int i) buf = Inr (j, buf') \<and> drop j buf' = hexadecimal m @ drop (Suc i) buf"
  using assms
proof (induction m arbitrary: i buf rule: less_induct)
  case (less m)
  let ?buf = "buf[i := int2hexbyte (of_nat (m mod 16))]"
  have nz: "(of_nat (m div 16) :: 64 word) = 0 \<longleftrightarrow> m div 16 = 0"
    using sint_of_nat64 [of "m div 16"] less.prems(1) by auto
  have step: "writeHexInt_loop (of_nat m) (int i) buf =
      (if m div 16 = 0 then Inr (i, ?buf) else writeHexInt_loop (of_nat (m div 16)) (int i - 1) ?buf)"
    using less.prems(3)
    by (subst writeHexInt_loop.simps)
      (simp only: low_nibble shift_nibble [OF less.prems(1)] nz nat_int Let_def, simp)
  show ?case
  proof (cases "m div 16 = 0")
    case True
    then have "hexadecimal m = [int2hexbyte (of_nat (m mod 16))]" by (simp add: hexadecimal.simps [of m] div_eq_0_iff)
    with True step less.prems(3) show ?thesis by (simp add: drop_last_update)
  next
    case False
    then have m: "\<not> m < 16" "m div 16 < m" "m div 16 < 9223372036854775808" using less.prems(1) by auto
    then have h: "hexadecimal m = hexadecimal (m div 16) @ [int2hexbyte (of_nat (m mod 16))]"
      by (simp add: hexadecimal.simps [of m])
    obtain k where k: "i = Suc k" using h less.prems(2) by (cases i) auto
    from less.IH [OF m(2,3), of k ?buf] h k less.prems
    have "\<exists>j buf'. writeHexInt_loop (of_nat (m div 16)) (int k) ?buf = Inr (j, buf') \<and>
            drop j buf' = hexadecimal (m div 16) @ drop (Suc k) ?buf" by simp
    with False step h k less.prems(3) show ?thesis by (simp add: drop_last_update)
  qed
qed

text \<open>Reading back.\<close>

lemma hexdigit_all:
  "list_all (\<lambda>k. hex2intTable (int2hexbyte (of_nat k)) = of_nat k \<and> hex2intTable (int2hexbyte (of_nat k)) \<noteq> 16) [0 ..< 16]"
  by code_simp

lemma hexdigit:
  assumes "k < 16"
  shows "hex2intTable (int2hexbyte (of_nat k)) = of_nat k" and "hex2intTable (int2hexbyte (of_nat k)) \<noteq> 16"
proof -
  have "k \<in> set [0 ..< 16]" using assms by simp
  with hexdigit_all show "hex2intTable (int2hexbyte (of_nat k)) = of_nat k" "hex2intTable (int2hexbyte (of_nat k)) \<noteq> 16"
    unfolding list_all_iff by blast+
qed

lemma shift_in_nibble:
  assumes "k < 16"
  shows "push_bit 4 (of_nat v) OR ucast (of_nat k :: byte) = (of_nat (16 * v + k) :: 64 word)"
proof -
  have k: "(ucast (of_nat k :: byte) :: 64 word) = of_nat k" using assms by (simp add: unsigned_of_nat take_bit_nat_eq_self)
  have "(of_nat k :: 64 word) = take_bit 4 (of_nat k)" using assms by (simp add: take_bit_of_nat take_bit_nat_eq_self)
  then have "push_bit 4 (of_nat v) + (of_nat k :: 64 word) = push_bit 4 (of_nat v) OR of_nat k"
    by (intro disjunctive_add) (metis bit_push_bit_iff bit_take_bit_iff leD)
  then show ?thesis unfolding k by (simp add: push_bit_eq_mult mult.commute)
qed

lemma readHexInt_digits:
  "length (hexadecimal m) + i \<le> maxHexIntChars \<Longrightarrow>
   readHexInt_loop (hexadecimal m @ r) e i (of_nat v) =
     readHexInt_loop r e (i + length (hexadecimal m)) (of_nat (16 ^ length (hexadecimal m) * v + m))"
proof (induction m arbitrary: i v r rule: less_induct)
  case (less m)
  have one: "readHexInt_loop (int2hexbyte (of_nat k) # r) e i (of_nat v) = readHexInt_loop r e (i + 1) (of_nat (16 * v + k))"
    if "k < 16" "i < maxHexIntChars" for k i v r
    using that hexdigit [OF that(1)] shift_in_nibble [OF that(1), of v]
    by (subst readHexInt_loop.simps) (simp only: Let_def if_False, simp)
  show ?case
  proof (cases "m < 16")
    case True
    then have "hexadecimal m = [int2hexbyte (of_nat m)]" by (simp add: hexadecimal.simps [of m])
    with one [OF True] less.prems show ?thesis by simp
  next
    case False
    then have h: "hexadecimal m = hexadecimal (m div 16) @ [int2hexbyte (of_nat (m mod 16))]" "m div 16 < m"
      by (simp_all add: hexadecimal.simps [of m])
    let ?l = "length (hexadecimal (m div 16))"
    have "readHexInt_loop (hexadecimal m @ r) e i (of_nat v) =
        readHexInt_loop (int2hexbyte (of_nat (m mod 16)) # r) e (i + ?l) (of_nat (16 ^ ?l * v + m div 16))"
      using less.IH [OF h(2), of i "int2hexbyte (of_nat (m mod 16)) # r" v] h(1) less.prems by simp
    also have "\<dots> = readHexInt_loop r e (i + ?l + 1) (of_nat (16 * (16 ^ ?l * v + m div 16) + m mod 16))"
      using less.prems h(1) by (intro one) auto
    also have "16 * (16 ^ ?l * v + m div 16) + m mod 16 = 16 ^ Suc ?l * v + m" by simp
    finally show ?thesis using h(1) by simp
  qed
qed

section \<open>IPv4 addresses\<close>

lemma not_digit_dot: "is_digit c \<Longrightarrow> c \<noteq> 46"
  by (auto simp: is_digit_def)

lemma parse_part_decimal: "parse_part ipStr (decimal (unat x)) = Inr x"
proof -
  have x: "unat x < 256" by (rule unat_byte_less)
  then have "length (decimal (unat x)) \<le> 3" using length_decimal [of "unat x" 2] by simp
  then have "ParseUint (decimal (unat x)) = (of_nat (unat x), None)"
    using ParseUint_digits [OF decimal_digits, of "unat x"] by (simp add: decimal_value_decimal maxIntChars_def)
  moreover have "sint (of_nat (unat x) :: 64 word) = int (unat x)" using x by (intro sint_of_nat64) simp
  moreover have "(ucast (of_nat (unat x) :: 64 word) :: byte) = x"
    by (simp only: unsigned_of_nat) (use x in \<open>simp add: take_bit_nat_eq_self\<close>)
  moreover have "uint x \<le> 255" using uint_lt2p [of x] by simp
  ultimately show ?thesis by (simp add: parse_part_def)
qed

lemma decimal_dot:
  "takeWhile (\<lambda>c. c \<noteq> 46) (decimal n @ 46 # r) = decimal n"
  "dropWhile (\<lambda>c. c \<noteq> 46) (decimal n @ 46 # r) = 46 # r"
proof -
  have "\<forall>c \<in> set (decimal n). c \<noteq> 46" using decimal_digits [of n] not_digit_dot by (auto simp: list_all_iff)
  then show "takeWhile (\<lambda>c. c \<noteq> 46) (decimal n @ 46 # r) = decimal n"
    "dropWhile (\<lambda>c. c \<noteq> 46) (decimal n @ 46 # r) = 46 # r" by (simp_all add: takeWhile_append2 dropWhile_append2)
qed

definition dotted :: "byte \<Rightarrow> byte \<Rightarrow> byte \<Rightarrow> byte \<Rightarrow> bytes" where
  "dotted a b c d = decimal (unat a) @ 46 # decimal (unat b) @ 46 # decimal (unat c) @ 46 # decimal (unat d)"

lemma AppendUint_byte: "AppendUint dst (uint (x :: byte)) = Inr (dst @ decimal (unat x))"
proof -
  have "uint x < 2 ^ 63" using uint_lt2p [of x] by simp
  then show ?thesis using AppendUint_decimal [of "uint x" dst] by simp
qed

lemma AppendIPv4_dotted: "AppendIPv4 dst [a, b, c, d] = Inr (dst @ dotted a b c d)"
  by (simp add: AppendIPv4_def To4_def AppendUint_byte dotted_def)

lemma parseIP_dotted: "length dst = 4 \<Longrightarrow> parseIP_loop s (dotted a b c d) 3 dst 0 = ([a, b, c, d], None)"
proof -
  assume "length dst = 4"
  then obtain w x y z where "dst = [w, x, y, z]" by (auto simp: length_Suc_conv eval_nat_numeral)
  then show ?thesis
    unfolding dotted_def numeral_3_eq_3
    by (simp only: parseIP_loop.simps decimal_dot drop_Suc_Cons drop0 One_nat_def parse_part_decimal sum.case)
      (simp add: parse_part_decimal)
qed

lemma dotted_not_Nil: "dotted a b c d \<noteq> []"
  by (simp add: dotted_def)

lemma ParseUintBuf_exact:
  assumes "ParseUintBuf b = (v, n, None)"
  shows "0 < n \<and> n \<le> length b \<and> n \<le> 18 \<and> list_all is_digit (take n b) \<and> (n < length b \<longrightarrow> \<not> is_digit (b ! n)) \<and>
     sint v = int (decimal_value (take n b)) \<and> sint v < 10 ^ 18"
proof -
  from assms have ne: "b \<noteq> []" and r: "parseUint_loop b 0 (of_nat 0) = (v, n, None)"
    by (auto simp: ParseUintBuf_def split: if_splits)
  from r obtain k where k: "k \<le> length b" "n = 0 + k" "n \<le> maxIntChars" "list_all is_digit (take k b)"
      "k < length b \<Longrightarrow> \<not> is_digit (b ! k) \<and> n \<noteq> 0" "v = of_nat (dfold 0 (take k b))"
    by (rule parseUint_loop_spec) (simp, rule that)
  have "decimal_value (take n b) < 10 ^ length (take n b)" using k by (intro decimal_value_less) simp
  moreover have "(10 :: nat) ^ length (take n b) \<le> 10 ^ 18" using k by (intro power_increasing) (auto simp: maxIntChars_def)
  ultimately have lt: "decimal_value (take n b) < 10 ^ 18" by linarith
  then have "sint v = int (decimal_value (take n b))"
    using k sint_of_nat64 [of "decimal_value (take n b)"] by (simp add: decimal_value_def)
  moreover have "0 < n" using k ne by (cases "n = length b") auto
  ultimately show ?thesis using k lt by (auto simp: maxIntChars_def)
qed

lemma ParseUintBuf_iff:
  "ParseUintBuf b = (v, n, None) \<longleftrightarrow>
     0 < n \<and> n \<le> length b \<and> n \<le> 18 \<and> list_all is_digit (take n b) \<and> (n < length b \<longrightarrow> \<not> is_digit (b ! n)) \<and>
     sint v = int (decimal_value (take n b))" (is "?l \<longleftrightarrow> ?r")
proof
  show "?l \<Longrightarrow> ?r" using ParseUintBuf_exact by blast
  assume r: ?r
  have "drop n b = [] \<or> \<not> is_digit (hd (drop n b))" using r by (cases "n < length b") (auto simp: hd_drop_conv_nth)
  then have p: "ParseUintBuf (take n b @ drop n b) = (of_nat (decimal_value (take n b)), length (take n b), None)"
    using r by (intro ParseUintBuf_digits) (auto simp: maxIntChars_def)
  then have "ParseUintBuf b = (of_nat (decimal_value (take n b)), n, None)" using r by simp
  moreover from this have "sint (of_nat (decimal_value (take n b)) :: 64 word) = sint v"
    using ParseUintBuf_exact r by fastforce
  then have "of_nat (decimal_value (take n b)) = v" by (rule signed_word_eqI)
  ultimately show ?l by simp
qed

section \<open>Properties\<close>

text \<open>
  C27. Decimal round trip: \<open>AppendUint\<close> never runs out of its buffer of twenty bytes, and what it appends for a number of
  at most eighteen digits is parsed back to that number.
\<close>

theorem uint_roundtrip:
  assumes "0 \<le> n" and "n < 10 ^ 18"
  shows "\<exists>d. AppendUint dst n = Inr (dst @ d) \<and> ParseUint d = (word_of_int n, None)"
proof -
  have "AppendUint dst n = Inr (dst @ decimal (nat n))" using assms by (intro AppendUint_decimal) simp_all
  moreover have "nat n < 10 ^ Suc 17" using assms by simp
  then have "length (decimal (nat n)) \<le> maxIntChars" using length_decimal [of "nat n" 17] by (simp add: maxIntChars_def)
  then have "ParseUint (decimal (nat n)) = (of_nat (nat n), None)"
    using ParseUint_digits [OF decimal_digits, of "nat n"] by (simp add: decimal_value_decimal)
  moreover have "(of_nat (nat n) :: 64 word) = word_of_int n" using assms(1) by simp
  ultimately show ?thesis by auto
qed

theorem uint_roundtrip_witness: "\<exists>d. AppendUint [7] 20250 = Inr ([7] @ d) \<and> ParseUint d = (word_of_int 20250, None)"
  by (rule uint_roundtrip) simp_all

text \<open>
  C12. Exactness: \<open>ParseUint\<close> reports no error for exactly the strings of one to eighteen decimal digits, and the 64-bit value is
  then their decimal value, without overflow. \<open>ParseUintBuf\<close> reports no error exactly when the input begins with one to
  eighteen digits that end at the end of the input or at another byte, and returns their value and number.
\<close>

theorem parse_uint_exact:
  "(ParseUint b = (v, None) \<longleftrightarrow>
      b \<noteq> [] \<and> length b \<le> 18 \<and> list_all is_digit b \<and> sint v = int (decimal_value b)) \<and>
   (ParseUintBuf b = (v, n, None) \<longleftrightarrow>
      0 < n \<and> n \<le> length b \<and> n \<le> 18 \<and> list_all is_digit (take n b) \<and> (n < length b \<longrightarrow> \<not> is_digit (b ! n)) \<and>
      sint v = int (decimal_value (take n b)))"
proof
  show "ParseUint b = (v, None) \<longleftrightarrow>
      b \<noteq> [] \<and> length b \<le> 18 \<and> list_all is_digit b \<and> sint v = int (decimal_value b)"
    using ParseUintBuf_iff [of b v "length b"] by (auto simp: ParseUint_def split: prod.splits)
  show "ParseUintBuf b = (v, n, None) \<longleftrightarrow>
      0 < n \<and> n \<le> length b \<and> n \<le> 18 \<and> list_all is_digit (take n b) \<and> (n < length b \<longrightarrow> \<not> is_digit (b ! n)) \<and>
      sint v = int (decimal_value (take n b))"
    by (rule ParseUintBuf_iff)
qed

theorem parse_uint_exact_witness:
  "ParseUint [52, 50] = (42, None) \<and> ParseUintBuf [52, 50, 32] = (42, 2, None) \<and> (\<nexists>v. ParseUint (replicate 19 57) = (v, None))"
proof -
  have d: "decimal_value [52, 50] = 42" "take 2 [52, 50, 32 :: byte] = [52, 50]"
    by (simp_all add: decimal_value_def digit_value_def)
  have "ParseUint [52, 50] = (42, None)"
    using parse_uint_exact [of "[52, 50]" 42] d by (simp add: is_digit_def)
  moreover have "ParseUintBuf [52, 50, 32] = (42, 2, None)"
    using parse_uint_exact [of "[52, 50, 32]" 42 2] d by (simp add: is_digit_def)
  moreover have "ParseUint (replicate 19 57) \<noteq> (v, None)" for v using parse_uint_exact [of "replicate 19 57" v] by simp
  ultimately show ?thesis by blast
qed

text \<open>
  C26. Escapes round trip: decoding what \<open>AppendQuotedArg\<close> wrote gives the bytes back, whatever they are, on the fast path and
  on the slow one; the same for paths, whose decoder leaves plus signs alone.
\<close>

theorem quoted_roundtrip:
  "decodeArgAppend dst (AppendQuotedArg [] s) = dst @ s \<and> DecodeArgAppendNoPlus dst (AppendQuotedPath [] s) = dst @ s"
  by (simp add: decode_quoted_arg decode_quoted_path)

text \<open>
  \<open>AppendHTMLEscape\<close>, which scans for special characters first and then copies runs between them, is the map that
  replaces each special character by its entity.
\<close>

theorem html_escape_is_map:
  "AppendHTMLEscape dst s = dst @ concat (map (\<lambda>c. if html_sub c = [] then [c] else html_sub c) s)"
  using AppendHTMLEscape_spec [of dst s] by (simp add: html_escaped_def [abs_def])

text \<open>
  C29. Address round trip: parsing what \<open>AppendIPv4\<close> wrote for any four bytes gives the four bytes, without an error or a panic,
  into any destination of at most four bytes.
\<close>

theorem ipv4_roundtrip:
  assumes "length dst \<le> 4"
  shows "\<exists>s. AppendIPv4 [] [a, b, c, d] = Inr s \<and> ParseIPv4 dst s = Inr ([a, b, c, d], None)"
proof -
  let ?d = "if length dst < 4 then replicate 4 0 else dst"
  have l: "length ?d = 4" using assms by simp
  have c: "go_copy (length ?d) ?d IPv4zero = [0, 0, 0, 0]"
    unfolding l using l by (simp add: go_copy_def IPv4zero_def eval_nat_numeral)
  have "ParseIPv4 dst (dotted a b c d) = Inr (parseIP_loop (dotted a b c d) (dotted a b c d) 3 [0, 0, 0, 0] 0)"
    unfolding ParseIPv4_def Let_def c using dotted_not_Nil [of a b c d] by (simp add: To4_def)
  then show ?thesis using AppendIPv4_dotted [of "[]" a b c d] parseIP_dotted [of "[0, 0, 0, 0]"] by simp
qed

theorem ipv4_roundtrip_witness:
  "\<exists>s. AppendIPv4 [] [127, 0, 0, 1] = Inr s \<and> ParseIPv4 [] s = Inr ([127, 0, 0, 1], None)"
  by (rule ipv4_roundtrip) simp

text \<open>
  C28. Chunk sizes round trip: what \<open>WriteHexInt\<close> writes for a number of at most fifteen hexadecimal digits, whatever the
  pooled buffer held before, is read back by \<open>readHexInt\<close>, which leaves the bytes that follow it.
\<close>

theorem hexint_roundtrip:
  assumes "m < 16 ^ 15" and "length buf = maxHexIntChars + 1"
    and "r = [] \<and> e = IoEOF \<or> r \<noteq> [] \<and> hex2intTable (hd r) = 16"
  shows "\<exists>d. WriteHexInt (of_nat m) buf = Inr d \<and> readHexInt (d @ r) e = (Inr (of_nat m), r)"
proof -
  have m: "m < 9223372036854775808" "length (hexadecimal m) \<le> 15"
    using assms(1) length_hexadecimal [of m 14] by simp_all
  have b: "length buf = 16" using assms(2) by (simp add: maxHexIntChars_def)
  from writeHexInt_loop_spec [OF m(1), of 15 buf] m(2) b obtain j buf'
    where "writeHexInt_loop (of_nat m) (int 15) buf = Inr (j, buf')" "drop j buf' = hexadecimal m" by auto
  then have "WriteHexInt (of_nat m) buf = Inr (hexadecimal m)"
    using b sint_of_nat64 [OF m(1)] by (simp add: WriteHexInt_def)
  moreover have "readHexInt (hexadecimal m @ r) e = readHexInt_loop r e (length (hexadecimal m)) (of_nat m)"
    using readHexInt_digits [of m 0 r e 0] m(2) by (simp add: readHexInt_def maxHexIntChars_def)
  then have "readHexInt (hexadecimal m @ r) e = (Inr (of_nat m), r)"
    using assms(3) by (cases r) (auto simp: Let_def)
  ultimately show ?thesis by blast
qed

theorem hexint_roundtrip_witness:
  "\<exists>d. WriteHexInt (of_nat 4096) (replicate 16 9) = Inr d \<and> readHexInt (d @ [13, 10]) IoEOF = (Inr (of_nat 4096), [13, 10])"
  by (rule hexint_roundtrip) (simp_all add: maxHexIntChars_def hex2intTable_def)

end
