(* ===== verification/Args.thy ===== *)
theory Args
  imports Bytes_Conv
begin

text \<open>
  Query arguments, \<open>utils/args.go\<close>: an ordered list of key-value pairs kept in a slice whose spare capacity holds
  pairs released earlier.

  The record \<open>kvs\<close> is such a slice: \<open>live\<close> are the elements up to its length and \<open>spare\<close> those between its length and
  its capacity, with whatever they held before. When the capacity is used up \<open>append\<close> allocates zero pairs; they are
  not distinguished from capacity that is not there yet. A key or value is a byte list; the source reuses the arrays of
  a pair by \<open>append(kv.Key[:0], ...)\<close>, which replaces the contents. \<open>PeekArg\<close> returns \<open>None\<close> for nil.
\<close>

record ArgsKV =
  Key :: bytes
  Value :: bytes

record kvs =
  live :: "ArgsKV list"
  spare :: "ArgsKV list"

definition zeroKV :: ArgsKV where
  "zeroKV = \<lparr>Key = [], Value = []\<rparr>"

section \<open>The slice of pairs\<close>

text \<open>\<open>AllocArg\<close> extends the slice by one element, with its old contents, and returns a pointer to it: its index.\<close>

definition AllocArg :: "kvs \<Rightarrow> kvs \<times> nat" where
  "AllocArg h =
     (case spare h of
        x # xs \<Rightarrow> (h\<lparr>live := live h @ [x], spare := xs\<rparr>, length (live h))
      | [] \<Rightarrow> (h\<lparr>live := live h @ [zeroKV]\<rparr>, length (live h)))"

definition ReleaseArg :: "kvs \<Rightarrow> kvs go" where
  "ReleaseArg h =
     (if live h = [] then Inl (PanicRuntime SliceBounds)
      else Inr (h\<lparr>live := butlast (live h), spare := last (live h) # spare h\<rparr>))"

definition AppendArg :: "kvs \<Rightarrow> bytes \<Rightarrow> bytes \<Rightarrow> kvs" where
  "AppendArg args k v =
     (case AllocArg args of (h, i) \<Rightarrow> h\<lparr>live := (live h)[i := \<lparr>Key = k, Value = v\<rparr>]\<rparr>)"

definition AppendArgBytes :: "kvs \<Rightarrow> bytes \<Rightarrow> bytes \<Rightarrow> kvs" where
  "AppendArgBytes h k v = AppendArg h k v"

text \<open>The loop of \<open>SetArg\<close>: the first pair with the key gets the value.\<close>

fun setArg_loop :: "ArgsKV list \<Rightarrow> bytes \<Rightarrow> bytes \<Rightarrow> ArgsKV list option" where
  "setArg_loop [] k v = None"
| "setArg_loop (kv # h) k v =
     (if k = Key kv then Some (kv\<lparr>Value := v\<rparr> # h)
      else (case setArg_loop h k v of None \<Rightarrow> None | Some h' \<Rightarrow> Some (kv # h')))"

definition SetArg :: "kvs \<Rightarrow> bytes \<Rightarrow> bytes \<Rightarrow> kvs" where
  "SetArg h k v = (case setArg_loop (live h) k v of Some l \<Rightarrow> h\<lparr>live := l\<rparr> | None \<Rightarrow> AppendArg h k v)"

definition SetArgBytes :: "kvs \<Rightarrow> bytes \<Rightarrow> bytes \<Rightarrow> kvs" where
  "SetArgBytes h k v = SetArg h k v"

text \<open>
  \<open>None\<close> is the \<open>return nil\<close> after the loop. An empty value that is found is \<open>Some []\<close>: as a Go slice it is nil when nothing was
  ever stored in its slot, which the contents do not tell. The methods of the arguments and of the request header look only at
  the length of what they find; the one caller that compares with nil, the cookie of a response, takes the answer as a
  parameter.
\<close>

fun PeekArgStr :: "ArgsKV list \<Rightarrow> bytes \<Rightarrow> bytes option" where
  "PeekArgStr [] k = None"
| "PeekArgStr (kv # h) k = (if Key kv = k then Some (Value kv) else PeekArgStr h k)"

fun PeekArgBytes :: "ArgsKV list \<Rightarrow> bytes \<Rightarrow> bytes option" where
  "PeekArgBytes [] k = None"
| "PeekArgBytes (kv # h) k = (if Key kv = k then Some (Value kv) else PeekArgBytes h k)"

fun hasArg :: "ArgsKV list \<Rightarrow> bytes \<Rightarrow> bool" where
  "hasArg [] k = False"
| "hasArg (kv # h) k = (if k = Key kv then True else hasArg h k)"

text \<open>
  \<open>DelAllArgs\<close>: the pair at \<open>i\<close> is moved behind the end when its key matches, the later ones move up, and the loop goes on
  with \<open>i + 1\<close>.
\<close>

function delAll_loop :: "kvs \<Rightarrow> bytes \<Rightarrow> nat \<Rightarrow> kvs" where
  "delAll_loop args k i =
     (if i < length (live args) then
        (if k = Key (live args ! i) then
           delAll_loop (args\<lparr>live := take i (live args) @ drop (i + 1) (live args),
                             spare := live args ! i # spare args\<rparr>) k (i + 1)
         else delAll_loop args k (i + 1))
      else args)"
  by pat_completeness auto
termination
  by (relation "measure (\<lambda>(args, k, i). length (live args) - i)") auto

declare delAll_loop.simps [simp del]

definition DelAllArgs :: "kvs \<Rightarrow> bytes \<Rightarrow> kvs" where
  "DelAllArgs args k = delAll_loop args k 0"

definition DelAllArgsBytes :: "kvs \<Rightarrow> bytes \<Rightarrow> kvs" where
  "DelAllArgsBytes args k = DelAllArgs args k"

text \<open>
  \<open>CopyArgs\<close>: the destination is replaced by a longer slice when its capacity does not suffice, resliced to the length of
  the source, and every pair is overwritten.
\<close>

definition CopyArgs :: "kvs \<Rightarrow> ArgsKV list \<Rightarrow> kvs" where
  "CopyArgs dst src =
     (let cells = (if length (live dst @ spare dst) < length src
                   then go_copy (length src) (replicate (length src) zeroKV) (live dst)
                   else live dst @ spare dst)
      in \<lparr>live = map (\<lambda>(d, s). d\<lparr>Key := Key s, Value := Value s\<rparr>) (zip (take (length src) cells) src),
          spare = drop (length src) cells\<rparr>)"

text \<open>\<open>VisitArgs\<close> with a function that changes a state.\<close>

definition VisitArgs :: "ArgsKV list \<Rightarrow> (bytes \<Rightarrow> bytes \<Rightarrow> 's \<Rightarrow> 's) \<Rightarrow> 's \<Rightarrow> 's" where
  "VisitArgs args f s = foldl (\<lambda>s kv. f (Key kv) (Value kv) s) s args"

section \<open>Parsing\<close>

text \<open>
  \<open>argsScanner.next\<close> on the bytes \<open>b\<close> it has left. The scan of \<open>s.b\<close> from index \<open>i\<close> on, with \<open>isKey\<close>, the start \<open>k\<close> of the
  value, and the pair so far: the pair and the bytes left.
\<close>

function scan_loop :: "bytes \<Rightarrow> nat \<Rightarrow> bool \<Rightarrow> nat \<Rightarrow> ArgsKV \<Rightarrow> ArgsKV \<times> bytes" where
  "scan_loop b i isKey k kv =
     (if i < length b then
        (if b ! i = 61 then
           (if isKey then scan_loop b (i + 1) False (i + 1) (kv\<lparr>Key := decodeArgAppend [] (take i b)\<rparr>)
            else scan_loop b (i + 1) isKey k kv)
         else if b ! i = 38 then
           ((if isKey then kv\<lparr>Key := decodeArgAppend [] (take i b), Value := []\<rparr>
             else kv\<lparr>Value := decodeArgAppend [] (drop k (take i b))\<rparr>), drop (i + 1) b)
         else scan_loop b (i + 1) isKey k kv)
      else ((if isKey then kv\<lparr>Key := decodeArgAppend [] b, Value := []\<rparr>
             else kv\<lparr>Value := decodeArgAppend [] (drop k b)\<rparr>), []))"
  by pat_completeness auto
termination
  by (relation "measure (\<lambda>(b, i, isKey, k, kv). length b - i)") auto

declare scan_loop.simps [simp del]

definition scanner_next :: "bytes \<Rightarrow> ArgsKV \<Rightarrow> (ArgsKV \<times> bytes) option" where
  "scanner_next b kv = (if length b = 0 then None else Some (scan_loop b 0 True 0 kv))"

lemma scan_loop_shrinks: "scan_loop b i isKey k kv = (kv', b') \<Longrightarrow> b \<noteq> [] \<Longrightarrow> length b' < length b"
proof (induction b i isKey k kv rule: scan_loop.induct)
  case (1 b i isKey k kv)
  then show ?case by (subst (asm) (3) scan_loop.simps) (auto split: if_splits)
qed

lemma scanner_next_shrinks: "scanner_next b kv = Some (kv', b') \<Longrightarrow> length b' < length b"
  by (auto simp: scanner_next_def split: if_splits intro: scan_loop_shrinks)

text \<open>
  The loop of \<open>ParseBytes\<close>: \<open>kv\<close> points to the last live pair, which is written by the scanner and kept when it is not
  empty.
\<close>

definition write_last :: "kvs \<Rightarrow> ArgsKV \<Rightarrow> kvs" where
  "write_last h kv = h\<lparr>live := (live h)[length (live h) - 1 := kv]\<rparr>"

function parse_loop :: "kvs \<Rightarrow> bytes \<Rightarrow> kvs" where
  "parse_loop h b =
     (case scanner_next b (last (live h)) of
        None \<Rightarrow> h
      | Some (kv, b') \<Rightarrow>
          (let h1 = write_last h kv in
           parse_loop (if length (Key kv) > 0 \<or> length (Value kv) > 0 then fst (AllocArg h1) else h1) b'))"
  by pat_completeness auto
termination
  by (relation "measure (\<lambda>(h, b). length b)") (auto dest: scanner_next_shrinks)

declare parse_loop.simps [simp del]

record Args =
  argv :: kvs
  qbuf :: bytes

text \<open>\<open>Reset\<close> keeps the capacity: the pairs become spare.\<close>

definition resetArgs :: "kvs \<Rightarrow> kvs" where
  "resetArgs h = \<lparr>live = [], spare = live h @ spare h\<rparr>"

definition Args_Reset :: "Args \<Rightarrow> Args" where
  "Args_Reset a = a\<lparr>argv := resetArgs (argv a)\<rparr>"

definition ParseBytes :: "Args \<Rightarrow> bytes \<Rightarrow> Args go" where
  "ParseBytes a b =
     (let h = fst (AllocArg (argv (Args_Reset a))) in
      case ReleaseArg (parse_loop h b) of Inl e \<Rightarrow> Inl e | Inr h' \<Rightarrow> Inr ((Args_Reset a)\<lparr>argv := h'\<rparr>))"

definition Args_Parse :: "Args \<Rightarrow> bytes \<Rightarrow> Args go" where
  "Args_Parse a s = ParseBytes (a\<lparr>qbuf := s\<rparr>) s"

section \<open>Printing\<close>

text \<open>The loop of \<open>AppendBytes\<close> over the pairs that are left.\<close>

fun appendBytes_loop :: "bytes \<Rightarrow> ArgsKV list \<Rightarrow> bytes" where
  "appendBytes_loop dst [] = dst"
| "appendBytes_loop dst (kv # h) =
     (let dst1 = AppendQuotedArg dst (Key kv);
          dst2 = (if length (Value kv) > 0 then AppendQuotedArg (dst1 @ [61]) (Value kv) else dst1);
          dst3 = (if h \<noteq> [] then dst2 @ [38] else dst2)
      in appendBytes_loop dst3 h)"

definition Args_AppendBytes :: "Args \<Rightarrow> bytes \<Rightarrow> bytes" where
  "Args_AppendBytes a dst = appendBytes_loop dst (live (argv a))"

definition QueryString :: "Args \<Rightarrow> bytes \<times> Args" where
  "QueryString a = (let b = Args_AppendBytes a [] in (b, a\<lparr>qbuf := b\<rparr>))"

definition Args_String :: "Args \<Rightarrow> bytes \<times> Args" where
  "Args_String a = QueryString a"

text \<open>\<open>WriteTo\<close> hands the query string to the writer, whose answer (the bytes taken and an error) is a parameter.\<close>

definition Args_WriteTo :: "(bytes \<Rightarrow> nat \<times> go_error option) \<Rightarrow> Args \<Rightarrow> (nat \<times> go_error option) \<times> Args" where
  "Args_WriteTo w a = (case QueryString a of (b, a') \<Rightarrow> (w b, a'))"

section \<open>The methods\<close>

definition Args_Len :: "Args \<Rightarrow> nat" where "Args_Len a = length (live (argv a))"

definition Args_CopyTo :: "Args \<Rightarrow> Args \<Rightarrow> Args" where
  "Args_CopyTo a dst = (let d = Args_Reset dst in d\<lparr>argv := CopyArgs (argv d) (live (argv a))\<rparr>)"

definition Args_VisitAll :: "Args \<Rightarrow> (bytes \<Rightarrow> bytes \<Rightarrow> 's \<Rightarrow> 's) \<Rightarrow> 's \<Rightarrow> 's" where
  "Args_VisitAll a f s = VisitArgs (live (argv a)) f s"

definition Args_Del :: "Args \<Rightarrow> bytes \<Rightarrow> Args" where
  "Args_Del a k = a\<lparr>argv := DelAllArgs (argv a) k\<rparr>"
definition Args_DelBytes :: "Args \<Rightarrow> bytes \<Rightarrow> Args" where
  "Args_DelBytes a k = a\<lparr>argv := DelAllArgs (argv a) k\<rparr>"
definition Args_Add :: "Args \<Rightarrow> bytes \<Rightarrow> bytes \<Rightarrow> Args" where
  "Args_Add a k v = a\<lparr>argv := AppendArg (argv a) k v\<rparr>"
definition Args_AddBytesK :: "Args \<Rightarrow> bytes \<Rightarrow> bytes \<Rightarrow> Args" where
  "Args_AddBytesK a k v = a\<lparr>argv := AppendArg (argv a) k v\<rparr>"
definition Args_AddBytesV :: "Args \<Rightarrow> bytes \<Rightarrow> bytes \<Rightarrow> Args" where
  "Args_AddBytesV a k v = a\<lparr>argv := AppendArg (argv a) k v\<rparr>"
definition Args_AddBytesKV :: "Args \<Rightarrow> bytes \<Rightarrow> bytes \<Rightarrow> Args" where
  "Args_AddBytesKV a k v = a\<lparr>argv := AppendArg (argv a) k v\<rparr>"
definition Args_Set :: "Args \<Rightarrow> bytes \<Rightarrow> bytes \<Rightarrow> Args" where
  "Args_Set a k v = a\<lparr>argv := SetArg (argv a) k v\<rparr>"
definition Args_SetBytesK :: "Args \<Rightarrow> bytes \<Rightarrow> bytes \<Rightarrow> Args" where
  "Args_SetBytesK a k v = a\<lparr>argv := SetArg (argv a) k v\<rparr>"
definition Args_SetBytesV :: "Args \<Rightarrow> bytes \<Rightarrow> bytes \<Rightarrow> Args" where
  "Args_SetBytesV a k v = a\<lparr>argv := SetArg (argv a) k v\<rparr>"
definition Args_SetBytesKV :: "Args \<Rightarrow> bytes \<Rightarrow> bytes \<Rightarrow> Args" where
  "Args_SetBytesKV a k v = a\<lparr>argv := SetArgBytes (argv a) k v\<rparr>"
definition Args_Peek :: "Args \<Rightarrow> bytes \<Rightarrow> bytes option" where
  "Args_Peek a k = PeekArgStr (live (argv a)) k"
definition Args_PeekBytes :: "Args \<Rightarrow> bytes \<Rightarrow> bytes option" where
  "Args_PeekBytes a k = PeekArgBytes (live (argv a)) k"

definition Args_PeekMulti :: "Args \<Rightarrow> bytes \<Rightarrow> bytes list" where
  "Args_PeekMulti a key = Args_VisitAll a (\<lambda>k v values. if k = key then values @ [v] else values) []"
definition Args_PeekMultiBytes :: "Args \<Rightarrow> bytes \<Rightarrow> bytes list" where
  "Args_PeekMultiBytes a key = Args_PeekMulti a key"

definition Args_Has :: "Args \<Rightarrow> bytes \<Rightarrow> bool" where "Args_Has a k = hasArg (live (argv a)) k"
definition Args_HasBytes :: "Args \<Rightarrow> bytes \<Rightarrow> bool" where "Args_HasBytes a k = hasArg (live (argv a)) k"

datatype get_error = ErrNoArgValue | ErrConv conv_error

text \<open>The length of a nil slice is zero.\<close>

definition GetUint :: "Args \<Rightarrow> bytes \<Rightarrow> 64 word \<times> get_error option" where
  "GetUint a k =
     (case Args_Peek a k of
        None \<Rightarrow> (- 1, Some ErrNoArgValue)
      | Some v \<Rightarrow>
          if length v = 0 then (- 1, Some ErrNoArgValue)
          else (case ParseUint v of (n, e) \<Rightarrow> (n, map_option ErrConv e)))"

definition GetUintOrZero :: "Args \<Rightarrow> bytes \<Rightarrow> 64 word" where
  "GetUintOrZero a k = (case GetUint a k of (n, None) \<Rightarrow> n | (n, Some e) \<Rightarrow> 0)"

text \<open>\<open>"1"\<close>, \<open>"y"\<close>, \<open>"yes"\<close>.\<close>

definition GetBool :: "Args \<Rightarrow> bytes \<Rightarrow> bool" where
  "GetBool a k =
     (let v = (case Args_Peek a k of None \<Rightarrow> [] | Some v \<Rightarrow> v) in v = [49] \<or> v = [121] \<or> v = [121, 101, 115])"

section \<open>Pooled values\<close>

text \<open>\<open>sync.Pool\<close>: a released value may come back; \<open>Get\<close> makes a new one when the pool is empty.\<close>

definition AcquireArgs :: "Args list \<Rightarrow> Args \<times> Args list" where
  "AcquireArgs pool =
     (case pool of [] \<Rightarrow> (\<lparr>argv = \<lparr>live = [], spare = []\<rparr>, qbuf = []\<rparr>, []) | a # pool' \<Rightarrow> (a, pool'))"

definition ReleaseArgs :: "Args \<Rightarrow> Args list \<Rightarrow> Args list" where
  "ReleaseArgs a pool = Args_Reset a # pool"

section \<open>The scanner reads segments\<close>

text \<open>The pair a segment between ampersands stands for, and the segments of a query string.\<close>

definition parse_pair :: "bytes \<Rightarrow> ArgsKV" where
  "parse_pair seg =
     (if 61 \<in> set seg
      then \<lparr>Key = decodeArgAppend [] (takeWhile (\<lambda>c. c \<noteq> 61) seg),
            Value = decodeArgAppend [] (drop 1 (dropWhile (\<lambda>c. c \<noteq> 61) seg))\<rparr>
      else \<lparr>Key = decodeArgAppend [] seg, Value = []\<rparr>)"

abbreviation seg :: "bytes \<Rightarrow> bytes" where
  "seg b \<equiv> takeWhile (\<lambda>c. c \<noteq> 38) b"

abbreviation after_seg :: "bytes \<Rightarrow> bytes" where
  "after_seg b \<equiv> drop 1 (dropWhile (\<lambda>c. c \<noteq> 38) b)"

lemma takeWhile_eq_all: "\<forall>x \<in> set xs. P x \<Longrightarrow> takeWhile P xs = xs \<and> dropWhile P xs = []"
  by (simp add: takeWhile_eq_all_conv dropWhile_eq_Nil_conv)

text \<open>Once the key is found, the rest of the segment is the value.\<close>

lemma scan_value:
  assumes "k \<le> i" and "i \<le> length b" and "\<forall>c \<in> set (drop k (take i b)). c \<noteq> 38"
  shows "scan_loop b i False k kv = (kv\<lparr>Value := decodeArgAppend [] (seg (drop k b))\<rparr>, after_seg (drop k b))"
  using assms
proof (induction "length b - i" arbitrary: i)
  case 0
  then have i: "i = length b" by simp
  then have "\<forall>c \<in> set (drop k b). c \<noteq> 38" using 0 by simp
  from takeWhile_eq_all [OF this] have e: "seg (drop k b) = drop k b" "dropWhile (\<lambda>c. c \<noteq> 38) (drop k b) = []"
    by blast+
  show ?case unfolding e i by (subst scan_loop.simps) simp
next
  case (Suc n)
  then have i: "i < length b" by simp
  have split: "drop k b = drop k (take i b) @ b ! i # drop (Suc i) b"
    using i Suc.prems(1) by (metis append_take_drop_id drop_append Cons_nth_drop_Suc length_take min.absorb2 diff_is_0_eq drop0 less_imp_le)
  show ?case
  proof (cases "b ! i = 38")
    case True
    have "seg (drop k b) = drop k (take i b)" "dropWhile (\<lambda>c. c \<noteq> 38) (drop k b) = 38 # drop (Suc i) b"
      unfolding split using True Suc.prems(3) by (simp_all add: takeWhile_append2 dropWhile_append2)
    with True i show ?thesis by (simp add: scan_loop.simps [of b i])
  next
    case False
    have "scan_loop b i False k kv = scan_loop b (i + 1) False k kv"
      using False i by (subst scan_loop.simps) simp
    moreover have "\<forall>c \<in> set (drop k (take (i + 1) b)). c \<noteq> 38"
      using i Suc.prems(1,3) False by (auto simp: take_Suc_conv_app_nth)
    ultimately show ?thesis using Suc.hyps(1) [of "i + 1"] Suc.hyps(2) Suc.prems(1) i by simp
  qed
qed

lemma scan_key:
  assumes "i \<le> length b" and "\<forall>c \<in> set (take i b). c \<noteq> 38 \<and> c \<noteq> 61"
  shows "scan_loop b i True k kv = (parse_pair (seg b), after_seg b)"
  using assms
proof (induction "length b - i" arbitrary: i)
  case 0
  then have i: "i = length b" "\<forall>c \<in> set b. c \<noteq> 38" "61 \<notin> set b" by auto
  from takeWhile_eq_all [OF i(2)] have e: "seg b = b" "dropWhile (\<lambda>c. c \<noteq> 38) b = []" by blast+
  show ?case unfolding e i(1) using i(3) by (subst scan_loop.simps) (cases kv, simp add: parse_pair_def)
next
  case (Suc n)
  then have i: "i < length b" by simp
  have split: "b = take i b @ b ! i # drop (Suc i) b" using i by (simp add: Cons_nth_drop_Suc)
  have no: "\<forall>c \<in> set (take i b). c \<noteq> 38" "\<forall>c \<in> set (take i b). c \<noteq> 61" using Suc.prems(2) by auto
  consider (eq) "b ! i = 61" | (amp) "b ! i = 38" | (other) "b ! i \<noteq> 61" "b ! i \<noteq> 38" by blast
  then show ?case
  proof cases
    case eq
    have t: "seg b = take i b @ 61 # seg (drop (Suc i) b)"
      by (subst split) (use no eq in \<open>simp add: takeWhile_append2\<close>)
    have d: "after_seg b = after_seg (drop (Suc i) b)"
      by (subst split) (use no eq in \<open>simp add: dropWhile_append2\<close>)
    have p: "parse_pair (seg b) = \<lparr>Key = decodeArgAppend [] (take i b), Value = decodeArgAppend [] (seg (drop (Suc i) b))\<rparr>"
      unfolding t using no by (simp add: parse_pair_def takeWhile_append2 dropWhile_append2)
    have "scan_loop b i True k kv = scan_loop b (i + 1) False (i + 1) (kv\<lparr>Key := decodeArgAppend [] (take i b)\<rparr>)"
      using eq i by (subst scan_loop.simps) simp
    also have "\<dots> = (kv\<lparr>Key := decodeArgAppend [] (take i b), Value := decodeArgAppend [] (seg (drop (i + 1) b))\<rparr>,
          after_seg (drop (i + 1) b))"
      using i by (subst scan_value) auto
    finally show ?thesis using p d by (cases kv) simp
  next
    case amp
    have "seg b = take i b" "dropWhile (\<lambda>c. c \<noteq> 38) b = 38 # drop (Suc i) b"
      by (subst split, use no amp in \<open>simp add: takeWhile_append2 dropWhile_append2\<close>)+
    moreover have "61 \<notin> set (take i b)" using no by auto
    ultimately show ?thesis using amp i by (subst scan_loop.simps) (cases kv, simp add: parse_pair_def)
  next
    case other
    have "scan_loop b i True k kv = scan_loop b (i + 1) True k kv"
      using other i by (subst scan_loop.simps) simp
    moreover have "\<forall>c \<in> set (take (i + 1) b). c \<noteq> 38 \<and> c \<noteq> 61"
      using i Suc.prems(2) other by (auto simp: take_Suc_conv_app_nth)
    ultimately show ?thesis using Suc.hyps(1) [of "i + 1"] Suc.hyps(2) i by simp
  qed
qed

text \<open>The result does not depend on what the pair held before.\<close>

lemma scanner_next_spec: "b \<noteq> [] \<Longrightarrow> scanner_next b kv = Some (parse_pair (seg b), after_seg b)"
  using scan_key [of 0 b 0 kv] by (simp add: scanner_next_def)

lemma after_seg_shrinks: "b \<noteq> [] \<Longrightarrow> length (after_seg b) < length b"
proof -
  assume "b \<noteq> []"
  then have "0 < length b" by simp
  moreover have "length (after_seg b) = length (dropWhile (\<lambda>c. c \<noteq> 38) b) - 1" by (simp only: length_drop)
  ultimately show ?thesis using length_dropWhile_le [of "\<lambda>c. c \<noteq> 38" b] by linarith
qed

function segments :: "bytes \<Rightarrow> bytes list" where
  "segments b = (if b = [] then [] else seg b # segments (after_seg b))"
  by pat_completeness auto
termination
  by (relation "measure length") (auto dest: after_seg_shrinks)

declare segments.simps [simp del]

definition nonempty :: "ArgsKV \<Rightarrow> bool" where
  "nonempty kv \<longleftrightarrow> Key kv \<noteq> [] \<or> Value kv \<noteq> []"

lemma AllocArg_live: "\<exists>x. live (fst (AllocArg h)) = live h @ [x]"
  by (cases "spare h") (simp_all add: AllocArg_def)

lemma parse_loop_spec:
  assumes "live h = l @ [x]"
  shows "\<exists>y. live (parse_loop h b) = l @ filter nonempty (map parse_pair (segments b)) @ [y]"
  using assms
proof (induction b arbitrary: h l x rule: segments.induct)
  case (1 b)
  show ?case
  proof (cases "b = []")
    case True
    with 1(2) show ?thesis by (simp add: parse_loop.simps [of h] scanner_next_def segments.simps [of "[]"])
  next
    case False
    let ?kv = "parse_pair (seg b)"
    let ?h = "write_last h ?kv"
    have w: "live ?h = l @ [?kv]" using 1(2) by (simp add: write_last_def)
    have step: "parse_loop h b = parse_loop (if nonempty ?kv then fst (AllocArg ?h) else ?h) (after_seg b)"
      using scanner_next_spec [OF False, of "last (live h)"]
      by (subst parse_loop.simps) (simp add: Let_def nonempty_def)
    show ?thesis
    proof (cases "nonempty ?kv")
      case True
      obtain z where "live (fst (AllocArg ?h)) = (l @ [?kv]) @ [z]" using AllocArg_live [of ?h] w by auto
      from 1(1) [OF False this] True step show ?thesis by (simp add: segments.simps [of b] False)
    next
      case nf: False
      from 1(1) [OF False w] nf step show ?thesis by (simp add: segments.simps [of b] False)
    qed
  qed
qed

lemma ParseBytes_spec:
  "\<exists>a'. ParseBytes a b = Inr a' \<and> live (argv a') = filter nonempty (map parse_pair (segments b)) \<and> qbuf a' = qbuf a"
proof -
  let ?h = "fst (AllocArg (argv (Args_Reset a)))"
  have "live (argv (Args_Reset a)) = []" by (simp add: Args_Reset_def resetArgs_def)
  then obtain x where "live ?h = [] @ [x]" using AllocArg_live [of "argv (Args_Reset a)"] by auto
  from parse_loop_spec [OF this, of b] obtain y
    where "live (parse_loop ?h b) = filter nonempty (map parse_pair (segments b)) @ [y]" by auto
  then show ?thesis by (simp add: ParseBytes_def ReleaseArg_def Let_def Args_Reset_def)
qed

section \<open>Printing produces segments\<close>

definition print_pair :: "ArgsKV \<Rightarrow> bytes" where
  "print_pair kv = AppendQuotedArg [] (Key kv) @ (if Value kv = [] then [] else 61 # AppendQuotedArg [] (Value kv))"

fun print_pairs :: "ArgsKV list \<Rightarrow> bytes" where
  "print_pairs [] = []"
| "print_pairs [kv] = print_pair kv"
| "print_pairs (kv # h) = print_pair kv @ 38 # print_pairs h"

lemma AppendQuotedArg_dst: "AppendQuotedArg dst s = dst @ AppendQuotedArg [] s"
  by (simp add: concat_AppendQuotedArg)

lemma appendBytes_spec: "appendBytes_loop dst h = dst @ print_pairs h"
proof (induction h arbitrary: dst rule: print_pairs.induct)
  case 1
  then show ?case by simp
next
  case (2 kv)
  show ?case
    using AppendQuotedArg_dst [of dst] AppendQuotedArg_dst [of "dst @ AppendQuotedArg [] (Key kv) @ [61]"]
    by (simp add: print_pair_def Let_def)
next
  case (3 kv kv' h)
  show ?case
    using AppendQuotedArg_dst [of dst] AppendQuotedArg_dst [of "dst @ AppendQuotedArg [] (Key kv) @ [61]"] 3
    by (simp add: print_pair_def Let_def)
qed

lemma hexCharUpper_all: "list_all (\<lambda>k. hexCharUpper (of_nat k) \<notin> {61, 38}) [0 ..< 16]"
  by code_simp

lemma hexCharUpper_plain:
  assumes "x < 16"
  shows "hexCharUpper x \<noteq> 61" and "hexCharUpper x \<noteq> 38"
proof -
  have "unat x \<in> set [0 ..< 16]" using assms by (simp only: set_upt atLeastLessThan_iff word_less_nat_alt) simp
  with hexCharUpper_all have "hexCharUpper (of_nat (unat x)) \<notin> {61, 38}" unfolding list_all_iff by (rule bspec)
  then show "hexCharUpper x \<noteq> 61" "hexCharUpper x \<noteq> 38" by simp_all
qed

lemma arg_plain_amp: "arg_plain c \<Longrightarrow> c \<noteq> 61 \<and> c \<noteq> 38"
  by (auto simp: arg_plain_def is_alnum_def)

lemma percent_amp: "c \<in> set (percent x) \<Longrightarrow> c \<noteq> 61 \<and> c \<noteq> 38"
  using hexCharUpper_plain [OF byte_nibbles(1), of x] hexCharUpper_plain [OF byte_nibbles(2), of x]
  unfolding percent_def by (simp only: list.set insert_iff empty_iff) (elim disjE; simp)

text \<open>A quoted argument has neither an equals sign nor an ampersand.\<close>

lemma quoted_plain: "c \<in> set (AppendQuotedArg [] s) \<Longrightarrow> c \<noteq> 61 \<and> c \<noteq> 38"
proof -
  assume "c \<in> set (AppendQuotedArg [] s)"
  then obtain x where "c \<in> set (if arg_plain x then [x] else percent x)"
    unfolding concat_AppendQuotedArg append_Nil set_concat set_map by blast
  then show ?thesis using arg_plain_amp [of c] percent_amp [of c x] by (cases "arg_plain x") auto
qed

lemma parse_print_pair: "parse_pair (print_pair kv) = kv"
proof -
  have q: "\<forall>c \<in> set (AppendQuotedArg [] (Key kv)). c \<noteq> 61" using quoted_plain by blast
  show ?thesis
  proof (cases "Value kv = []")
    case True
    with q have "61 \<notin> set (print_pair kv)" by (auto simp: print_pair_def)
    with True decode_quoted_arg [of "[]" "Key kv"] show ?thesis by (cases kv) (simp add: parse_pair_def print_pair_def)
  next
    case False
    then have p: "print_pair kv = AppendQuotedArg [] (Key kv) @ 61 # AppendQuotedArg [] (Value kv)"
      by (simp add: print_pair_def)
    have "takeWhile (\<lambda>c. c \<noteq> 61) (print_pair kv) = AppendQuotedArg [] (Key kv)"
      "dropWhile (\<lambda>c. c \<noteq> 61) (print_pair kv) = 61 # AppendQuotedArg [] (Value kv)" "61 \<in> set (print_pair kv)"
      unfolding p using q by (simp_all add: takeWhile_append2 dropWhile_append2)
    then show ?thesis using decode_quoted_arg [of "[]"] by (cases kv) (simp add: parse_pair_def)
  qed
qed

lemma print_pair_no_amp: "\<forall>c \<in> set (print_pair kv). c \<noteq> 38"
  using quoted_plain by (auto simp: print_pair_def)

lemma segments_single: "\<forall>c \<in> set b. c \<noteq> 38 \<Longrightarrow> segments b = (if b = [] then [] else [b])"
proof -
  assume "\<forall>c \<in> set b. c \<noteq> 38"
  from takeWhile_eq_all [OF this] have e: "seg b = b" "dropWhile (\<lambda>c. c \<noteq> 38) b = []" by blast+
  show ?thesis by (subst segments.simps) (simp only: e, simp add: segments.simps [of "[]"])
qed

lemma segments_amp: "\<forall>c \<in> set b. c \<noteq> 38 \<Longrightarrow> segments (b @ 38 # d) = b # segments d"
  by (subst segments.simps) (simp add: takeWhile_append2 dropWhile_append2)

lemma parse_print_pairs: "filter nonempty (map parse_pair (segments (print_pairs h))) = filter nonempty h"
proof (induction h rule: print_pairs.induct)
  case 1
  then show ?case by (simp add: segments.simps)
next
  case (2 kv)
  have "\<not> nonempty kv" if "print_pair kv = []"
  proof -
    have "kv = parse_pair []" using parse_print_pair [of kv] that by simp
    then show ?thesis by (simp add: nonempty_def parse_pair_def decodeArgAppend_def)
  qed
  then show ?case
    by (simp add: segments_single [OF print_pair_no_amp] parse_print_pair)
next
  case (3 kv kv' h)
  then show ?case by (simp add: segments_amp [OF print_pair_no_amp] parse_print_pair)
qed

section \<open>The pairs as a map\<close>

text \<open>
  The contract of a store of keyed values: what a lookup gives after an update. Its clients see a run of updates as a
  map in which later values win.
\<close>

locale kv_store =
  fixes put :: "'h \<Rightarrow> 'k \<Rightarrow> 'v \<Rightarrow> 'h"
    and get :: "'h \<Rightarrow> 'k \<Rightarrow> 'v option"
  assumes get_put: "get (put h k v) k = Some v"
    and get_put_other: "k \<noteq> k' \<Longrightarrow> get (put h k v) k' = get h k'"
begin

lemma get_put_if: "get (put h k v) k' = (if k = k' then Some v else get h k')"
  by (simp add: get_put get_put_other)

lemma get_puts:
  "get (foldl (\<lambda>h (k, v). put h k v) h kvs) k = (case map_of (rev kvs) k of Some v \<Rightarrow> Some v | None \<Rightarrow> get h k)"
proof (induction kvs rule: rev_induct)
  case Nil
  then show ?case by simp
next
  case (snoc kv kvs)
  then show ?case by (cases kv) (simp add: get_put_if)
qed

lemma put_put: "get (put (put h k v) k w) = get (put h k w)"
  by (rule ext) (simp add: get_put_if)

lemma put_swap: "k \<noteq> k' \<Longrightarrow> get (put (put h k v) k' w) = get (put (put h k' w) k v)"
  by (rule ext) (auto simp: get_put_if)

end

lemma AppendArg_live: "live (AppendArg h k v) = live h @ [\<lparr>Key = k, Value = v\<rparr>]"
  by (cases "spare h") (simp_all add: AppendArg_def AllocArg_def)

lemma Peek_append: "PeekArgStr (l @ l') k = (case PeekArgStr l k of None \<Rightarrow> PeekArgStr l' k | Some v \<Rightarrow> Some v)"
  by (induction l) auto

lemma setArg_loop_None: "setArg_loop l k v = None \<longleftrightarrow> PeekArgStr l k = None"
  by (induction l) (auto split: option.splits)

lemma setArg_loop_Some:
  "setArg_loop l k v = Some l' \<Longrightarrow> PeekArgStr l' k' = (if k = k' then Some v else PeekArgStr l k')"
  by (induction l arbitrary: l') (auto split: if_splits option.splits)

lemma Peek_SetArg: "PeekArgStr (live (SetArg h k v)) k' = (if k = k' then Some v else PeekArgStr (live h) k')"
  using setArg_loop_None [of "live h" k v] setArg_loop_Some [of "live h" k v _ k']
  by (auto simp: SetArg_def AppendArg_live Peek_append split: option.splits)

interpretation argmap: kv_store SetArg "\<lambda>h. PeekArgStr (live h)"
  by unfold_locales (simp_all add: Peek_SetArg)

lemma hasArg_iff: "hasArg l k \<longleftrightarrow> PeekArgStr l k \<noteq> None"
  by (induction l) auto

lemma PeekArgBytes_eq: "PeekArgBytes l k = PeekArgStr l k"
  by (induction l) auto

section \<open>Deletion\<close>

text \<open>What the loop of \<open>DelAllArgs\<close> does to the pairs: after a deletion the next pair is not looked at.\<close>

fun del_skip :: "bytes \<Rightarrow> ArgsKV list \<Rightarrow> ArgsKV list" where
  "del_skip k [] = []"
| "del_skip k [x] = (if k = Key x then [] else [x])"
| "del_skip k (x # y # l) = (if k = Key x then y # del_skip k l else x # del_skip k (y # l))"

lemma delAll_loop_spec:
  assumes "i \<le> length (live h)"
  shows "live (delAll_loop h k i) = take i (live h) @ del_skip k (drop i (live h))"
  using assms
proof (induction h k i rule: delAll_loop.induct)
  case (1 h k i)
  show ?case
  proof (cases "i < length (live h)")
    case False
    with 1(3) show ?thesis by (simp add: delAll_loop.simps [of h])
  next
    case True
    let ?x = "live h ! i"
    have d: "drop i (live h) = ?x # drop (Suc i) (live h)" using True by (simp add: Cons_nth_drop_Suc)
    have t: "take (i + 1) (live h) = take i (live h) @ [?x]" using True by (simp add: take_Suc_conv_app_nth)
    show ?thesis
    proof (cases "k = Key ?x")
      case False
      have "live (delAll_loop h k i) = take (i + 1) (live h) @ del_skip k (drop (i + 1) (live h))"
        using 1(2) [OF True False] True False by (subst delAll_loop.simps) simp
      also have "\<dots> = take i (live h) @ del_skip k (drop i (live h))"
        unfolding t d using False by (cases "drop (Suc i) (live h)") simp_all
      finally show ?thesis .
    next
      case eq: True
      let ?h = "h\<lparr>live := take i (live h) @ drop (i + 1) (live h), spare := ?x # spare h\<rparr>"
      have step: "delAll_loop h k i = delAll_loop ?h k (i + 1)" using True eq by (subst delAll_loop.simps) simp
      show ?thesis
      proof (cases "drop (Suc i) (live h)")
        case Nil
        then have "live ?h = take i (live h)" "\<not> i + 1 < length (live ?h)" using True by simp_all
        moreover from this(2) have "delAll_loop ?h k (i + 1) = ?h" by (subst delAll_loop.simps) (simp only: if_False)
        ultimately show ?thesis using step d eq Nil by simp
      next
        case (Cons y l)
        then have l: "live ?h = take i (live h) @ y # l" and le: "i + 1 \<le> length (live ?h)" using True by simp_all
        have "live (delAll_loop h k i) = take (i + 1) (live ?h) @ del_skip k (drop (i + 1) (live ?h))"
          unfolding step by (rule 1(1) [OF True eq le])
        moreover have "take (i + 1) (live ?h) = take i (live h) @ [y]" "drop (i + 1) (live ?h) = l"
          unfolding l using True by simp_all
        ultimately have "live (delAll_loop h k i) = take i (live h) @ y # del_skip k l" by (simp only: append.simps append_assoc)
        then show ?thesis unfolding d Cons using eq by simp
      qed
    qed
  qed
qed

lemma DelAllArgs_spec: "live (DelAllArgs h k) = del_skip k (live h)"
  using delAll_loop_spec [of 0 h k] by (simp add: DelAllArgs_def)

text \<open>No two pairs with the key in a row.\<close>

fun no_run :: "bytes \<Rightarrow> ArgsKV list \<Rightarrow> bool" where
  "no_run k (x # y # l) \<longleftrightarrow> \<not> (Key x = k \<and> Key y = k) \<and> no_run k (y # l)"
| "no_run k _ \<longleftrightarrow> True"

lemma del_skip_filter: "no_run k l \<Longrightarrow> del_skip k l = filter (\<lambda>x. Key x \<noteq> k) l"
proof (induction k l rule: del_skip.induct)
  case (3 k x y l)
  then show ?case by (cases l) auto
qed auto

section \<open>Properties\<close>

text \<open>
  C30. Query strings round trip: parsing the query string of any list of arguments, into any reused \<open>Args\<close> value, gives exactly
  the pairs whose key or value is not empty, in order; nothing of the pairs the value held before shows through.
\<close>

theorem args_roundtrip:
  "\<exists>a'. ParseBytes a (fst (QueryString a0)) = Inr a' \<and> live (argv a') = filter nonempty (live (argv a0))"
  using ParseBytes_spec [of a "fst (QueryString a0)"]
  by (auto simp: QueryString_def Args_AppendBytes_def appendBytes_spec Let_def parse_print_pairs)

text \<open>
  C13. The list of pairs refines a map: after any sequence of \<open>SetArg\<close> calls a lookup finds the value set last for the key, or
  what was there before.
\<close>

theorem set_refines_map:
  "PeekArgStr (live (foldl (\<lambda>h (k, v). SetArg h k v) h kvs)) k =
     (case map_of (rev kvs) k of Some v \<Rightarrow> Some v | None \<Rightarrow> PeekArgStr (live h) k)"
  by (rule argmap.get_puts)

text \<open>
  C31. \<open>DelAllArgs\<close> deletes every pair with the key only when no two of them are neighbours: a pair that follows a deleted one is
  kept without being looked at.
\<close>

theorem del_all_args:
  "(no_run k (live h) \<longrightarrow> live (DelAllArgs h k) = filter (\<lambda>x. Key x \<noteq> k) (live h)) \<and>
   live (DelAllArgs (h\<lparr>live := \<lparr>Key = k, Value = v\<rparr> # y # l\<rparr>) k) = y # del_skip k l"
  by (simp add: DelAllArgs_spec del_skip_filter)

theorem del_all_args_witness:
  "live (DelAllArgs \<lparr>live = [\<lparr>Key = [97], Value = [49]\<rparr>, \<lparr>Key = [98], Value = [50]\<rparr>, \<lparr>Key = [97], Value = [51]\<rparr>], spare = []\<rparr> [97]) =
     [\<lparr>Key = [98], Value = [50]\<rparr>] \<and>
   live (DelAllArgs (\<lparr>live = [], spare = []\<rparr>\<lparr>live := [\<lparr>Key = [97], Value = [49]\<rparr>, \<lparr>Key = [97], Value = [50]\<rparr>]\<rparr>) [97]) =
     [\<lparr>Key = [97], Value = [50]\<rparr>]"
  using del_all_args [of "[97]" "\<lparr>live = [\<lparr>Key = [97], Value = [49]\<rparr>, \<lparr>Key = [98], Value = [50]\<rparr>, \<lparr>Key = [97], Value = [51]\<rparr>], spare = []\<rparr>"]
    del_all_args [of "[97]" "\<lparr>live = [], spare = []\<rparr>" "[49]" "\<lparr>Key = [97], Value = [50]\<rparr>" "[]"]
  by simp

end
