(* ===== verification/Go_Bytes.thy ===== *)
theory Go_Bytes
  imports Strike_Prelude "HOL-Library.Sublist"
begin

text \<open>
  The searching functions of Go's package \<open>bytes\<close> that the HTTP code calls, \<open>None\<close> standing for -1, and what they find:
  the place of the first or last occurrence, with nothing before or behind it.
\<close>

section \<open>Searching\<close>

fun bytes_Index :: "bytes \<Rightarrow> bytes \<Rightarrow> nat option" where
  "bytes_Index [] sep = (if sep = [] then Some 0 else None)"
| "bytes_Index (c # s) sep = (if prefix sep (c # s) then Some 0 else map_option Suc (bytes_Index s sep))"

fun bytes_IndexByte :: "bytes \<Rightarrow> byte \<Rightarrow> nat option" where
  "bytes_IndexByte [] c = None"
| "bytes_IndexByte (x # s) c = (if x = c then Some 0 else map_option Suc (bytes_IndexByte s c))"

definition bytes_LastIndexByte :: "bytes \<Rightarrow> byte \<Rightarrow> nat option" where
  "bytes_LastIndexByte s c = map_option (\<lambda>i. length s - Suc i) (bytes_IndexByte (rev s) c)"

definition bytes_LastIndex :: "bytes \<Rightarrow> bytes \<Rightarrow> nat option" where
  "bytes_LastIndex s sep = map_option (\<lambda>i. length s - length sep - i) (bytes_Index (rev s) (rev sep))"

section \<open>What they find\<close>

lemma Index_None: "bytes_Index s sep = None \<longleftrightarrow> \<not> sublist sep s"
  by (induction s) (auto simp: sublist_Cons_right)

lemma Index_Some:
  assumes "bytes_Index s sep = Some n"
  obtains u v where "s = u @ sep @ v" "length u = n"
proof -
  have "\<exists>u v. s = u @ sep @ v \<and> length u = n"
    using assms
  proof (induction s arbitrary: n)
    case Nil
    then show ?case by (auto split: if_splits)
  next
    case (Cons c s)
    show ?case
    proof (cases "prefix sep (c # s)")
      case True
      then show ?thesis using Cons.prems by (auto simp: prefix_def)
    next
      case False
      then obtain k where "n = Suc k" "bytes_Index s sep = Some k" using Cons.prems by auto
      then show ?thesis using Cons.IH by (metis append_Cons length_Cons)
    qed
  qed
  then show thesis using that by blast
qed

lemma Index_first:
  "bytes_Index s sep = Some n \<Longrightarrow> sep \<noteq> [] \<Longrightarrow> \<not> sublist sep (take (n + length sep - 1) s)"
proof (induction s arbitrary: n)
  case (Cons c s)
  show ?case
  proof (cases "prefix sep (c # s)")
    case True
    then have n: "n = 0" using Cons.prems by simp
    have "length (take (n + length sep - 1) (c # s)) < length sep"
      using Cons.prems(2) n by (cases sep) auto
    then show ?thesis using sublist_length_le leD by blast
  next
    case False
    then obtain k where k: "n = Suc k" "bytes_Index s sep = Some k" using Cons.prems by auto
    obtain j where j: "k + length sep = Suc j" using Cons.prems(2) by (cases sep) auto
    have ih: "\<not> sublist sep (take j s)" using Cons.IH [OF k(2) Cons.prems(2)] j by simp
    have np: "\<not> prefix sep (c # take j s)"
    proof
      assume "prefix sep (c # take j s)"
      moreover have "prefix (c # take j s) (c # s)" by (simp add: take_is_prefix)
      ultimately show False using False prefix_order.trans by blast
    qed
    have "take (n + length sep - 1) (c # s) = c # take j s" using k(1) j by simp
    then show ?thesis using ih np by (simp add: sublist_Cons_right)
  qed
qed (auto split: if_splits)

lemma IndexByte_None: "bytes_IndexByte s c = None \<longleftrightarrow> c \<notin> set s"
  by (induction s) auto

lemma IndexByte_Some: "bytes_IndexByte s c = Some n \<longleftrightarrow> (\<exists>u v. s = u @ c # v \<and> length u = n \<and> c \<notin> set u)"
proof (induction s arbitrary: n)
  case (Cons x s)
  show ?case
  proof (cases "x = c")
    case True
    then show ?thesis by (auto simp: Cons_eq_append_conv)
  next
    case False
    have "(\<exists>u v. x # s = u @ c # v \<and> length u = n \<and> c \<notin> set u) \<longleftrightarrow>
          (\<exists>k. n = Suc k \<and> (\<exists>u v. s = u @ c # v \<and> length u = k \<and> c \<notin> set u))"
      using False by (auto simp: Cons_eq_append_conv) (metis length_Cons set_ConsD append_Cons)+
    then show ?thesis using False Cons.IH by auto
  qed
qed simp

lemma IndexByte_append [simp]: "c \<notin> set u \<Longrightarrow> bytes_IndexByte (u @ c # v) c = Some (length u)"
  by (auto simp: IndexByte_Some)

lemma LastIndexByte_None: "bytes_LastIndexByte s c = None \<longleftrightarrow> c \<notin> set s"
  by (simp add: bytes_LastIndexByte_def IndexByte_None)

lemma LastIndexByte_Some:
  assumes "bytes_LastIndexByte s c = Some n"
  obtains u v where "s = u @ c # v" "length u = n" "c \<notin> set v"
proof -
  obtain i where i: "bytes_IndexByte (rev s) c = Some i" "n = length s - Suc i"
    using assms by (auto simp: bytes_LastIndexByte_def)
  then obtain u v where uv: "rev s = u @ c # v" "length u = i" "c \<notin> set u" by (auto simp: IndexByte_Some)
  then have "s = rev v @ c # rev u" by (metis rev_append rev_rev_ident rev.simps(2) append_assoc append_Cons append_Nil)
  then show thesis using that [of "rev v" "rev u"] i(2) uv by simp
qed

lemma LastIndex_at_end:
  assumes "sep \<noteq> []"
  shows "(\<exists>n. bytes_LastIndex s sep = Some n \<and> n + length sep = length s) \<longleftrightarrow> suffix sep s"
proof
  assume "suffix sep s"
  then have "prefix (rev sep) (rev s)" by (simp add: suffix_to_prefix)
  then have "bytes_Index (rev s) (rev sep) = Some 0" by (cases "rev s") auto
  then show "\<exists>n. bytes_LastIndex s sep = Some n \<and> n + length sep = length s"
    using \<open>suffix sep s\<close> by (auto simp: bytes_LastIndex_def dest: suffix_length_le)
next
  assume "\<exists>n. bytes_LastIndex s sep = Some n \<and> n + length sep = length s"
  then obtain i where i: "bytes_Index (rev s) (rev sep) = Some i" "length s - length sep - i + length sep = length s"
    by (auto simp: bytes_LastIndex_def)
  obtain u v where uv: "rev s = u @ rev sep @ v" "length u = i" using Index_Some [OF i(1)] by blast
  have "length s = i + length sep + length v" using uv by (metis length_append length_rev add.assoc)
  then have "i = 0" using i(2) by simp
  then show "suffix sep s" using uv by (simp add: suffix_to_prefix)
qed

text \<open>Cutting at the first occurrence of an element.\<close>

lemma cut_at [simp]:
  assumes "c \<notin> set u"
  shows "takeWhile (\<lambda>x. x \<noteq> c) (u @ c # v) = u" "dropWhile (\<lambda>x. x \<noteq> c) (u @ c # v) = c # v"
    "takeWhile (\<lambda>x. x \<noteq> c) u = u" "dropWhile (\<lambda>x. x \<noteq> c) u = []"
proof -
  have a: "\<forall>x \<in> set u. x \<noteq> c" using assms by auto
  show "takeWhile (\<lambda>x. x \<noteq> c) (u @ c # v) = u" by (subst takeWhile_append2) (use a in auto)
  show "dropWhile (\<lambda>x. x \<noteq> c) (u @ c # v) = c # v" by (subst dropWhile_append2) (use a in auto)
  show "takeWhile (\<lambda>x. x \<noteq> c) u = u" using a by (simp add: takeWhile_eq_all_conv)
  show "dropWhile (\<lambda>x. x \<noteq> c) u = []" using a by (simp add: dropWhile_eq_Nil_conv)
qed

text \<open>An occurrence in a list that is cut at an element lies on one side of the cut.\<close>

lemma sublist2_cut: "sublist [x, y] (u @ c # v) \<Longrightarrow> sublist [x, y] (u @ [c]) \<or> sublist [x, y] (c # v)"
proof (induction u)
  case (Cons a u)
  then show ?case by (cases u) (auto simp: sublist_Cons_right)
qed simp

lemma sublist3_cut:
  "sublist [x, y, z] (u @ c # v) \<Longrightarrow> y \<noteq> c \<Longrightarrow> sublist [x, y, z] (u @ [c]) \<or> sublist [x, y, z] (c # v)"
proof (induction u)
  case (Cons a u)
  show ?case
  proof (cases "prefix [x, y, z] (a # u @ c # v)")
    case True
    then show ?thesis using Cons.prems(2) by (cases u; cases "tl u") (auto simp: sublist_Cons_right)
  next
    case False
    then have "sublist [x, y, z] (u @ c # v)" using Cons.prems(1) by (auto simp: sublist_Cons_right)
    then show ?thesis using Cons.IH Cons.prems(2) by (auto simp: sublist_Cons_right)
  qed
qed simp

lemma sublist_infix: "sublist p ys \<Longrightarrow> sublist p (xs @ ys @ zs)"
  unfolding sublist_def by (metis append_assoc)

end
