(* ===== verification/Http_Uri.thy ===== *)
theory Http_Uri
  imports Args Go_Bytes
begin

text \<open>
  The URI of an HTTP request, \<open>pkg/protocol/http/v1/uri.go\<close> with \<open>uri_unix.go\<close> and the constants of \<open>strings.go\<close>.

  The record \<open>URI\<close> has the fields of the struct. A byte slice is its contents: \<open>append(x[:0], ...)\<close> replaces them. The
  field \<open>hdr\<close> is the pointer \<open>h\<close> to the request header the URI was parsed with, an address; what the \<open>Host\<close> method of the
  header there returns is the parameter \<open>hosts\<close> of the operations that follow the pointer.
\<close>

section \<open>Constants\<close>

definition StrSlash :: bytes where "StrSlash = [47]"
definition StrSlashSlash :: bytes where "StrSlashSlash = [47, 47]"
definition StrSlashDotDot :: bytes where "StrSlashDotDot = [47, 46, 46]"
definition StrSlashDotSlash :: bytes where "StrSlashDotSlash = [47, 46, 47]"
definition StrSlashDotDotSlash :: bytes where "StrSlashDotDotSlash = [47, 46, 46, 47]"
definition StrHTTP :: bytes where "StrHTTP = [104, 116, 116, 112]"
definition StrHTTPS :: bytes where "StrHTTPS = [104, 116, 116, 112, 115]"
definition StrColonSlashSlash :: bytes where "StrColonSlashSlash = [58, 47, 47]"

section \<open>Normalisation of a path\<close>

definition addLeadingSlash :: "bytes \<Rightarrow> bytes \<Rightarrow> bytes" where
  "addLeadingSlash dst src = (if src = [] \<or> hd src \<noteq> 47 then dst @ [47] else dst)"

text \<open>
  The three loops move the rest of the array forward over what they remove. The first one goes on from the place of the
  removal, so \<open>pre\<close> is what it has behind it in \<open>dst\<close>; the other two search from the start again.
\<close>

lemma Index_slash_slash: "bytes_Index b StrSlashSlash = Some n \<Longrightarrow> n + 2 \<le> length b"
  by (erule Index_Some) (auto simp: StrSlashSlash_def)

lemma Index_slash_dot: "bytes_Index b StrSlashDotSlash = Some n \<Longrightarrow> n + 3 \<le> length b"
  by (erule Index_Some) (auto simp: StrSlashDotSlash_def)

lemma Index_slash_dot_dot: "bytes_Index b StrSlashDotDotSlash = Some n \<Longrightarrow> n + 4 \<le> length b"
  by (erule Index_Some) (auto simp: StrSlashDotDotSlash_def)

lemma Str_lengths [simp]:
  "length StrSlashSlash = 2" "length StrSlashDotDot = 3" "length StrSlashDotSlash = 3" "length StrSlashDotDotSlash = 4"
  by (simp_all add: StrSlashSlash_def StrSlashDotDot_def StrSlashDotSlash_def StrSlashDotDotSlash_def)

lemma LastIndexByte_less: "bytes_LastIndexByte s c = Some n \<Longrightarrow> n < length s"
  by (erule LastIndexByte_Some) auto

function removeDupSlashes :: "bytes \<Rightarrow> bytes \<Rightarrow> bytes" where
  "removeDupSlashes pre b =
     (case bytes_Index b StrSlashSlash of
        None \<Rightarrow> pre @ b
      | Some n \<Rightarrow> removeDupSlashes (pre @ take n b) (drop (n + 1) b))"
  by pat_completeness auto
termination
  by (relation "measure (\<lambda>(pre, b). length b)") (auto dest: Index_slash_slash)

function removeDots :: "bytes \<Rightarrow> bytes" where
  "removeDots b =
     (case bytes_Index b StrSlashDotSlash of
        None \<Rightarrow> b
      | Some n \<Rightarrow> let nn = n + length StrSlashDotSlash - 1 in removeDots (take n b @ drop nn b))"
  by pat_completeness auto
termination
  by (relation "measure length") (auto dest!: Index_slash_dot)

function removeDotDots :: "bytes \<Rightarrow> bytes" where
  "removeDotDots b =
     (case bytes_Index b StrSlashDotDotSlash of
        None \<Rightarrow> b
      | Some n \<Rightarrow>
          let nn = (case bytes_LastIndexByte (take n b) 47 of None \<Rightarrow> 0 | Some nn \<Rightarrow> nn);
              n' = n + length StrSlashDotDotSlash - 1
          in removeDotDots (take nn b @ drop n' b))"
  by pat_completeness auto
termination
  by (relation "measure length")
    (auto dest!: Index_slash_dot_dot LastIndexByte_less split: option.splits)

text \<open>
  Without an earlier slash the source returns the package's slice \<open>StrSlash\<close> itself; here the result is its value. Paths are
  compared and printed by value, and what is written over such a path later begins with a slash again.
\<close>

definition removeTrailing :: "bytes \<Rightarrow> bytes" where
  "removeTrailing b =
     (case bytes_LastIndex b StrSlashDotDot of
        Some n \<Rightarrow>
          if n + length StrSlashDotDot = length b
          then (case bytes_LastIndexByte (take n b) 47 of None \<Rightarrow> StrSlash | Some nn \<Rightarrow> take (nn + 1) b)
          else b
      | None \<Rightarrow> b)"

definition normalizePath :: "bytes \<Rightarrow> bytes \<Rightarrow> bytes" where
  "normalizePath dst src =
     (let dst = addLeadingSlash (take 0 dst) src;
          dst = DecodeArgAppendNoPlus dst src;
          dst = removeDupSlashes [] dst;
          b = removeDots dst;
          b = removeDotDots b
      in removeTrailing b)"

section \<open>The URI\<close>

record URI =
  pathOriginal :: bytes
  scheme :: bytes
  path :: bytes
  queryString :: bytes
  hash :: bytes
  host :: bytes
  queryArgs :: Args
  parsedQueryArgs :: bool
  fullURI :: bytes
  requestURI :: bytes
  hdr :: "nat option"

definition zeroURI :: URI where
  "zeroURI = \<lparr>pathOriginal = [], scheme = [], path = [], queryString = [], hash = [], host = [],
     queryArgs = \<lparr>argv = \<lparr>live = [], spare = []\<rparr>, qbuf = []\<rparr>, parsedQueryArgs = False, fullURI = [], requestURI = [],
     hdr = None\<rparr>"

definition URI_Reset :: "URI \<Rightarrow> URI" where
  "URI_Reset u = u\<lparr>pathOriginal := [], scheme := [], path := [], queryString := [], hash := [], host := [],
     queryArgs := Args_Reset (queryArgs u), parsedQueryArgs := False, hdr := None\<rparr>"

text \<open>The pool: a value released earlier, or a zero value.\<close>

definition AcquireURI :: "URI list \<Rightarrow> URI \<times> URI list" where
  "AcquireURI pool = (case pool of [] \<Rightarrow> (zeroURI, []) | u # pool' \<Rightarrow> (u, pool'))"

definition ReleaseURI :: "URI \<Rightarrow> URI list \<Rightarrow> URI list" where
  "ReleaseURI u pool = URI_Reset u # pool"

definition URI_CopyTo :: "URI \<Rightarrow> URI \<Rightarrow> URI" where
  "URI_CopyTo u dst =
     (let dst = URI_Reset dst in
      dst\<lparr>pathOriginal := pathOriginal u, scheme := scheme u, path := path u, queryString := queryString u, hash := hash u,
        host := host u, queryArgs := Args_CopyTo (queryArgs u) (queryArgs dst), parsedQueryArgs := parsedQueryArgs u,
        hdr := hdr u\<rparr>)"

definition SetHash :: "bytes \<Rightarrow> URI \<Rightarrow> URI" where "SetHash v u = u\<lparr>hash := v\<rparr>"
definition SetHashBytes :: "bytes \<Rightarrow> URI \<Rightarrow> URI" where "SetHashBytes v u = u\<lparr>hash := v\<rparr>"
definition SetQueryString :: "bytes \<Rightarrow> URI \<Rightarrow> URI" where
  "SetQueryString v u = u\<lparr>queryString := v, parsedQueryArgs := False\<rparr>"
definition SetQueryStringBytes :: "bytes \<Rightarrow> URI \<Rightarrow> URI" where
  "SetQueryStringBytes v u = u\<lparr>queryString := v, parsedQueryArgs := False\<rparr>"

definition Path :: "URI \<Rightarrow> bytes" where "Path u = (if path u = [] then StrSlash else path u)"
definition SetPath :: "bytes \<Rightarrow> URI \<Rightarrow> URI" where
  "SetPath p u = u\<lparr>pathOriginal := p, path := normalizePath (path u) p\<rparr>"
definition SetPathBytes :: "bytes \<Rightarrow> URI \<Rightarrow> URI" where
  "SetPathBytes p u = u\<lparr>pathOriginal := p, path := normalizePath (path u) p\<rparr>"

definition Scheme :: "URI \<Rightarrow> bytes" where "Scheme u = (if scheme u = [] then StrHTTP else scheme u)"
definition SetScheme :: "bytes \<Rightarrow> URI \<Rightarrow> URI" where "SetScheme s u = u\<lparr>scheme := LowercaseBytes s\<rparr>"
definition SetSchemeBytes :: "bytes \<Rightarrow> URI \<Rightarrow> URI" where "SetSchemeBytes s u = u\<lparr>scheme := LowercaseBytes s\<rparr>"

definition Host :: "(nat \<Rightarrow> bytes) \<Rightarrow> URI \<Rightarrow> bytes \<times> URI" where
  "Host hosts u =
     (let u' = (case hdr u of
                  Some h \<Rightarrow> if host u = [] then u\<lparr>host := LowercaseBytes (hosts h), hdr := None\<rparr> else u
                | None \<Rightarrow> u)
      in (host u', u'))"
definition SetHost :: "bytes \<Rightarrow> URI \<Rightarrow> URI" where "SetHost s u = u\<lparr>host := LowercaseBytes s\<rparr>"
definition SetHostBytes :: "bytes \<Rightarrow> URI \<Rightarrow> URI" where "SetHostBytes s u = u\<lparr>host := LowercaseBytes s\<rparr>"

section \<open>Parsing\<close>

definition splitHostURI :: "bytes \<Rightarrow> bytes \<Rightarrow> bytes \<times> bytes \<times> bytes" where
  "splitHostURI hst uri =
     (case bytes_Index uri StrSlashSlash of
        None \<Rightarrow> (StrHTTP, hst, uri)
      | Some n \<Rightarrow>
          let sch = take n uri in
          if bytes_IndexByte sch 47 \<noteq> None then (StrHTTP, hst, uri)
          else
            let sch = (if sch \<noteq> [] \<and> last sch = 58 then butlast sch else sch);
                uri = drop (n + length StrSlashSlash) uri
            in case bytes_IndexByte uri 47 of
                 None \<Rightarrow>
                   (case bytes_IndexByte uri 63 of
                      Some n \<Rightarrow> (sch, take n uri, drop n uri)
                    | None \<Rightarrow> (sch, uri, StrSlash))
               | Some n \<Rightarrow> (sch, take n uri, drop n uri))"

definition URI_parse :: "bytes \<Rightarrow> bytes \<Rightarrow> nat option \<Rightarrow> URI \<Rightarrow> URI" where
  "URI_parse hst uri h u =
     (let u = (URI_Reset u)\<lparr>hdr := h\<rparr> in
      case splitHostURI hst uri of (sch, hst, b) \<Rightarrow>
        let u = u\<lparr>scheme := LowercaseBytes sch, host := LowercaseBytes hst\<rparr>;
            fragmentIndex = bytes_IndexByte b 35;
            queryIndex = (case (bytes_IndexByte b 63, fragmentIndex) of
                            (Some q, Some f) \<Rightarrow> if f < q then None else Some q
                          | (q, _) \<Rightarrow> q)
        in case queryIndex of
             Some q \<Rightarrow>
               let u = u\<lparr>pathOriginal := take q b, path := normalizePath (path u) (take q b)\<rparr> in
               (case fragmentIndex of
                  None \<Rightarrow> u\<lparr>queryString := drop (q + 1) b\<rparr>
                | Some f \<Rightarrow> u\<lparr>queryString := drop (q + 1) (take f b), hash := drop (f + 1) b\<rparr>)
           | None \<Rightarrow>
               (case fragmentIndex of
                  None \<Rightarrow> u\<lparr>pathOriginal := b, path := normalizePath (path u) b\<rparr>
                | Some f \<Rightarrow>
                    u\<lparr>pathOriginal := take f b, path := normalizePath (path u) (take f b), hash := drop (f + 1) b\<rparr>))"

definition URI_Parse :: "bytes \<Rightarrow> bytes \<Rightarrow> URI \<Rightarrow> URI" where "URI_Parse hst uri u = URI_parse hst uri None u"

definition parseQuick :: "bytes \<Rightarrow> nat option \<Rightarrow> bool \<Rightarrow> URI \<Rightarrow> URI" where
  "parseQuick uri h isTLS u = (let u = URI_parse [] uri h u in if isTLS then u\<lparr>scheme := StrHTTPS\<rparr> else u)"

section \<open>Printing\<close>

definition RequestURI :: "URI \<Rightarrow> bytes \<times> URI" where
  "RequestURI u =
     (let dst = AppendQuotedPath [] (Path u);
          dst = (if Args_Len (queryArgs u) > 0 then Args_AppendBytes (queryArgs u) (dst @ [63])
                 else if queryString u \<noteq> [] then dst @ [63] @ queryString u
                 else dst);
          dst = (if hash u \<noteq> [] then dst @ [35] @ hash u else dst)
      in (dst, u\<lparr>requestURI := dst\<rparr>))"

definition LastPathSegment :: "URI \<Rightarrow> bytes" where
  "LastPathSegment u =
     (case bytes_LastIndexByte (Path u) 47 of None \<Rightarrow> Path u | Some n \<Rightarrow> drop (n + 1) (Path u))"

definition appendSchemeHost :: "(nat \<Rightarrow> bytes) \<Rightarrow> bytes \<Rightarrow> URI \<Rightarrow> bytes \<times> URI" where
  "appendSchemeHost hosts dst u =
     (let dst = dst @ Scheme u @ StrColonSlashSlash in case Host hosts u of (hst, u) \<Rightarrow> (dst @ hst, u))"

definition URI_AppendBytes :: "(nat \<Rightarrow> bytes) \<Rightarrow> bytes \<Rightarrow> URI \<Rightarrow> bytes \<times> URI" where
  "URI_AppendBytes hosts dst u =
     (case appendSchemeHost hosts dst u of (dst, u) \<Rightarrow> case RequestURI u of (r, u) \<Rightarrow> (dst @ r, u))"

definition FullURI :: "(nat \<Rightarrow> bytes) \<Rightarrow> URI \<Rightarrow> bytes \<times> URI" where
  "FullURI hosts u = (case URI_AppendBytes hosts [] u of (b, u) \<Rightarrow> (b, u\<lparr>fullURI := b\<rparr>))"

definition URI_String :: "(nat \<Rightarrow> bytes) \<Rightarrow> URI \<Rightarrow> bytes \<times> URI" where "URI_String hosts u = FullURI hosts u"

text \<open>\<open>w\<close> is the \<open>Write\<close> method of the writer.\<close>

definition URI_WriteTo ::
  "(bytes \<Rightarrow> nat \<times> go_error option) \<Rightarrow> (nat \<Rightarrow> bytes) \<Rightarrow> URI \<Rightarrow> (nat \<times> go_error option) \<times> URI" where
  "URI_WriteTo w hosts u = (case FullURI hosts u of (b, u') \<Rightarrow> (w b, u'))"

section \<open>Updating by a reference\<close>

definition updateBytes :: "(nat \<Rightarrow> bytes) \<Rightarrow> bytes \<Rightarrow> bytes \<Rightarrow> URI \<Rightarrow> (bytes \<times> URI) go" where
  "updateBytes hosts newURI buf u =
     (if newURI = [] then Inr (buf, u)
      else if bytes_Index newURI StrSlashSlash \<noteq> None
      then
        let schemeOriginal = scheme u;
            u = URI_Parse [] newURI u;
            u = (if schemeOriginal \<noteq> [] \<and> scheme u = [] then u\<lparr>scheme := schemeOriginal\<rparr> else u)
        in Inr (buf, u)
      else if hd newURI = 47
      then (case appendSchemeHost hosts [] u of (buf, u) \<Rightarrow>
              let buf = buf @ newURI in Inr (buf, URI_Parse [] buf u))
      else if hd newURI = 63
      then (case FullURI hosts (SetQueryStringBytes (tl newURI) u) of (b, u) \<Rightarrow> Inr (b, u))
      else if hd newURI = 35
      then (case FullURI hosts (SetHashBytes (tl newURI) u) of (b, u) \<Rightarrow> Inr (b, u))
      else (case bytes_LastIndexByte (Path u) 47 of
              None \<Rightarrow> Inl (PanicValue ''BUG: path must contain at least one slash'')
            | Some n \<Rightarrow>
                let p = Path u in
                case appendSchemeHost hosts [] u of (buf, u) \<Rightarrow>
                let buf = AppendQuotedPath buf (take (n + 1) p) @ newURI in Inr (buf, URI_Parse [] buf u)))"

definition UpdateBytes :: "(nat \<Rightarrow> bytes) \<Rightarrow> bytes \<Rightarrow> URI \<Rightarrow> URI go" where
  "UpdateBytes hosts newURI u =
     (case updateBytes hosts newURI (requestURI u) u of Inl e \<Rightarrow> Inl e | Inr (b, u') \<Rightarrow> Inr (u'\<lparr>requestURI := b\<rparr>))"

definition Update :: "(nat \<Rightarrow> bytes) \<Rightarrow> bytes \<Rightarrow> URI \<Rightarrow> URI go" where
  "Update hosts newURI u = UpdateBytes hosts newURI u"

section \<open>Query arguments\<close>

definition parseQueryArgs :: "URI \<Rightarrow> URI go" where
  "parseQueryArgs u =
     (if parsedQueryArgs u then Inr u
      else case ParseBytes (queryArgs u) (queryString u) of
             Inl e \<Rightarrow> Inl e
           | Inr a \<Rightarrow> Inr (u\<lparr>queryArgs := a, parsedQueryArgs := True\<rparr>))"

definition QueryArgs :: "URI \<Rightarrow> (Args \<times> URI) go" where
  "QueryArgs u = (case parseQueryArgs u of Inl e \<Rightarrow> Inl e | Inr u' \<Rightarrow> Inr (queryArgs u', u'))"

declare removeDupSlashes.simps [simp del] removeDots.simps [simp del] removeDotDots.simps [simp del]

section \<open>Normal paths\<close>

text \<open>An absolute path without empty, \<open>.\<close> or \<open>..\<close> segments before its last slash, and not ending in \<open>/..\<close>.\<close>

definition rooted :: "bytes \<Rightarrow> bool" where "rooted p \<longleftrightarrow> p \<noteq> [] \<and> hd p = 47"

definition normal :: "bytes \<Rightarrow> bool" where
  "normal p \<longleftrightarrow> rooted p \<and> \<not> sublist StrSlashSlash p \<and> \<not> sublist StrSlashDotSlash p \<and> \<not> sublist StrSlashDotDotSlash p \<and>
     \<not> suffix StrSlashDotDot p"

lemma dup_cut:
  assumes "\<not> sublist StrSlashSlash (u @ [c])" "\<not> sublist StrSlashSlash (c # v)"
  shows "\<not> sublist StrSlashSlash (u @ c # v)"
  using assms sublist2_cut [of 47 47 u c v] unfolding StrSlashSlash_def by blast

lemma dot_cut:
  assumes "\<not> sublist StrSlashDotSlash (u @ [47])" "\<not> sublist StrSlashDotSlash (47 # v)"
  shows "\<not> sublist StrSlashDotSlash (u @ 47 # v)"
  using assms sublist3_cut [of 47 46 47 u 47 v] unfolding StrSlashDotSlash_def by auto

lemma removeDupSlashes_no_dup:
  "\<not> sublist StrSlashSlash (pre @ take 1 b) \<Longrightarrow> \<not> sublist StrSlashSlash (removeDupSlashes pre b)"
proof (induction pre b rule: removeDupSlashes.induct)
  case (1 pre b)
  show ?case
  proof (cases "bytes_Index b StrSlashSlash")
    case None
    then have "\<not> sublist StrSlashSlash b" by (simp add: Index_None)
    then have "\<not> sublist StrSlashSlash (pre @ b)" using 1(2) dup_cut by (cases b) auto
    then show ?thesis by (simp add: removeDupSlashes.simps [of pre b] None)
  next
    case (Some n)
    obtain u v where uv: "b = u @ StrSlashSlash @ v" "length u = n" using Index_Some [OF Some] by blast
    have fst_: "\<not> sublist StrSlashSlash (u @ [47])"
      using Index_first [OF Some] uv by (simp add: StrSlashSlash_def)
    have "\<not> sublist StrSlashSlash (pre @ u @ [47])"
    proof (cases u)
      case Nil
      then show ?thesis using 1(2) uv by (simp add: StrSlashSlash_def)
    next
      case (Cons c u')
      then show ?thesis using dup_cut [of pre c "u' @ [47]"] 1(2) uv fst_ by simp
    qed
    moreover have "take n b = u" "drop (n + 1) b = 47 # v" using uv by (simp_all add: StrSlashSlash_def)
    ultimately show ?thesis using 1(1) [OF Some] by (simp add: removeDupSlashes.simps [of pre b] Some)
  qed
qed

lemma removeDupSlashes_rooted: "rooted (pre @ b) \<Longrightarrow> rooted (removeDupSlashes pre b)"
proof (induction pre b rule: removeDupSlashes.induct)
  case (1 pre b)
  show ?case
  proof (cases "bytes_Index b StrSlashSlash")
    case None
    then show ?thesis using 1(2) by (simp add: removeDupSlashes.simps [of pre b])
  next
    case (Some n)
    obtain u v where uv: "b = u @ StrSlashSlash @ v" "length u = n" using Index_Some [OF Some] by blast
    then have d: "take n b = u" "drop (n + 1) b = 47 # v" by (simp_all add: StrSlashSlash_def)
    have "rooted ((pre @ u) @ 47 # v)" using 1(2) uv by (cases pre; cases u) (auto simp: rooted_def StrSlashSlash_def)
    then show ?thesis using 1(1) [OF Some] d by (simp add: removeDupSlashes.simps [of pre b] Some)
  qed
qed

lemma removeDots_step:
  assumes "bytes_Index b StrSlashDotSlash = Some n"
  obtains u v where "b = u @ 47 # 46 # 47 # v" "take n b @ drop (n + length StrSlashDotSlash - 1) b = u @ 47 # v"
proof -
  obtain u v where uv: "b = u @ StrSlashDotSlash @ v" "length u = n" using Index_Some [OF assms] by blast
  then show thesis using that [of u v] by (simp add: StrSlashDotSlash_def)
qed

lemma removeDots_no_dot: "\<not> sublist StrSlashDotSlash (removeDots b)"
proof (induction b rule: removeDots.induct)
  case (1 b)
  then show ?case
    using Index_None [of b StrSlashDotSlash]
    by (cases "bytes_Index b StrSlashDotSlash") (simp_all add: removeDots.simps [of b])
qed

lemma removeDots_keeps:
  "rooted b \<Longrightarrow> \<not> sublist StrSlashSlash b \<Longrightarrow> rooted (removeDots b) \<and> \<not> sublist StrSlashSlash (removeDots b)"
proof (induction b rule: removeDots.induct)
  case (1 b)
  show ?case
  proof (cases "bytes_Index b StrSlashDotSlash")
    case None
    then show ?thesis using 1 by (simp add: removeDots.simps [of b])
  next
    case (Some n)
    obtain u v where b: "b = u @ 47 # 46 # 47 # v"
      and step: "take n b @ drop (n + length StrSlashDotSlash - 1) b = u @ 47 # v"
      using removeDots_step [OF Some] by blast
    have "rooted (u @ 47 # v)" using 1(2) b by (cases u) (auto simp: rooted_def)
    moreover have "\<not> sublist StrSlashSlash (u @ 47 # v)"
    proof (rule dup_cut)
      show "\<not> sublist StrSlashSlash (u @ [47])" using 1(3) b sublist_infix [of StrSlashSlash "u @ [47]" "[]" "46 # 47 # v"] by auto
      show "\<not> sublist StrSlashSlash (47 # v)" using 1(3) b sublist_infix [of StrSlashSlash "47 # v" "u @ [47, 46]" "[]"] by auto
    qed
    ultimately show ?thesis using 1(1) [OF Some refl] step by (simp add: removeDots.simps [of b] Some)
  qed
qed

lemma removeDotDots_no_dot_dot: "\<not> sublist StrSlashDotDotSlash (removeDotDots b)"
proof (induction b rule: removeDotDots.induct)
  case (1 b)
  then show ?case
    using Index_None [of b StrSlashDotDotSlash]
    by (cases "bytes_Index b StrSlashDotDotSlash") (simp_all add: removeDotDots.simps [of b])
qed

text \<open>A step removes what lies between two slashes, or everything before one.\<close>

lemma removeDotDots_step:
  assumes "bytes_Index b StrSlashDotDotSlash = Some n"
    and nn: "nn = (case bytes_LastIndexByte (take n b) 47 of None \<Rightarrow> 0 | Some nn \<Rightarrow> nn)"
  obtains u w v where "b = u @ w @ 47 # v" "u = [] \<or> hd w = 47" "w \<noteq> []"
    "take nn b @ drop (n + length StrSlashDotDotSlash - 1) b = u @ 47 # v"
proof -
  obtain x v where xv: "b = x @ StrSlashDotDotSlash @ v" "length x = n" using Index_Some [OF assms(1)] by blast
  then have t: "take n b = x" "drop (n + length StrSlashDotDotSlash - 1) b = 47 # v"
    by (simp_all add: StrSlashDotDotSlash_def)
  show thesis
  proof (cases "bytes_LastIndexByte x 47")
    case None
    then show ?thesis using that [of "[]" "x @ [47, 46, 46]" v] xv t nn by (simp add: StrSlashDotDotSlash_def)
  next
    case (Some k)
    obtain p q where pq: "x = p @ 47 # q" "length p = k" using LastIndexByte_Some [OF Some] by blast
    then show ?thesis using that [of p "47 # q @ [47, 46, 46]" v] xv t nn Some by (simp add: StrSlashDotDotSlash_def)
  qed
qed

lemma removeDotDots_keeps:
  "rooted b \<Longrightarrow> \<not> sublist StrSlashSlash b \<Longrightarrow> \<not> sublist StrSlashDotSlash b \<Longrightarrow>
   rooted (removeDotDots b) \<and> \<not> sublist StrSlashSlash (removeDotDots b) \<and> \<not> sublist StrSlashDotSlash (removeDotDots b)"
proof (induction b rule: removeDotDots.induct)
  case (1 b)
  show ?case
  proof (cases "bytes_Index b StrSlashDotDotSlash")
    case None
    then show ?thesis using 1 by (simp add: removeDotDots.simps [of b])
  next
    case (Some n)
    define nn where "nn = (case bytes_LastIndexByte (take n b) 47 of None \<Rightarrow> 0 | Some nn \<Rightarrow> nn)"
    obtain u w v where b: "b = u @ w @ 47 # v" "u = [] \<or> hd w = 47" "w \<noteq> []"
      and step: "take nn b @ drop (n + length StrSlashDotDotSlash - 1) b = u @ 47 # v"
      using removeDotDots_step [OF Some nn_def] by blast
    have suf: "\<not> sublist p (47 # v)" if "\<not> sublist p b" for p
      using that b(1) sublist_infix [of p "47 # v" "u @ w" "[]"] by auto
    have pre: "\<not> sublist p (u @ [47])" if nb: "\<not> sublist p b" and ne: "u \<noteq> []" for p
    proof -
      obtain w' where "w = 47 # w'" using b ne by (cases w) auto
      then show ?thesis using nb b(1) sublist_infix [of p "u @ [47]" "[]" "w' @ 47 # v"] by auto
    qed
    have "rooted (u @ 47 # v)" using 1(2) b by (cases u) (auto simp: rooted_def)
    moreover have "\<not> sublist StrSlashSlash (u @ 47 # v)"
      using suf [OF 1(3)] pre [OF 1(3)] dup_cut [of u 47 v] by (cases "u = []") auto
    moreover have "\<not> sublist StrSlashDotSlash (u @ 47 # v)"
      using suf [OF 1(4)] pre [OF 1(4)] dot_cut [of u v] by (cases "u = []") auto
    ultimately show ?thesis using 1(1) [OF Some nn_def refl] step
      by (simp add: removeDotDots.simps [of b] Some nn_def [symmetric])
  qed
qed

lemma Str_nonempty: "StrSlashDotDot \<noteq> []"
  by (simp add: StrSlashDotDot_def)

lemma removeTrailing_eq:
  "removeTrailing b =
     (if suffix StrSlashDotDot b
      then (case bytes_LastIndexByte (take (length b - 3) b) 47 of None \<Rightarrow> StrSlash | Some nn \<Rightarrow> take (nn + 1) b) else b)"
proof (cases "suffix StrSlashDotDot b")
  case True
  then obtain n where "bytes_LastIndex b StrSlashDotDot = Some n" "n + 3 = length b"
    using LastIndex_at_end [OF Str_nonempty, of b] by auto
  moreover from this have "n = length b - 3" by simp
  ultimately show ?thesis using True by (simp add: removeTrailing_def)
next
  case False
  then have "\<not> (\<exists>n. bytes_LastIndex b StrSlashDotDot = Some n \<and> n + 3 = length b)"
    using LastIndex_at_end [OF Str_nonempty, of b] by auto
  then show ?thesis using False by (auto simp: removeTrailing_def split: option.splits)
qed

lemma normal_StrSlash: "normal StrSlash"
  by (auto simp: normal_def rooted_def StrSlash_def StrSlashSlash_def StrSlashDotSlash_def StrSlashDotDotSlash_def
      StrSlashDotDot_def sublist_Cons_right suffix_def Cons_eq_append_conv)

lemma removeTrailing_normal:
  assumes "rooted b" "\<not> sublist StrSlashSlash b" "\<not> sublist StrSlashDotSlash b" "\<not> sublist StrSlashDotDotSlash b"
  shows "normal (removeTrailing b)"
proof (cases "suffix StrSlashDotDot b")
  case False
  then show ?thesis using assms by (simp add: removeTrailing_eq normal_def)
next
  case True
  show ?thesis
  proof (cases "bytes_LastIndexByte (take (length b - 3) b) 47")
    case None
    then show ?thesis using True normal_StrSlash by (simp add: removeTrailing_eq)
  next
    case (Some k)
    obtain p q where pq: "take (length b - 3) b = p @ 47 # q" "length p = k" using LastIndexByte_Some [OF Some] by blast
    then obtain d where b: "b = p @ 47 # q @ d" by (metis append_take_drop_id append_assoc append_Cons)
    have t: "removeTrailing b = p @ [47]" 
      using True Some pq b by (simp add: removeTrailing_eq)
    have "\<not> sublist x (p @ [47])" if "\<not> sublist x b" for x
      using that sublist_infix [of x "p @ [47]" "[]" "q @ d"] b by auto
    moreover have "rooted (p @ [47])" using assms(1) b by (cases p) (auto simp: rooted_def)
    moreover have "\<not> suffix StrSlashDotDot (p @ [47])" by (auto simp: suffix_def StrSlashDotDot_def)
    ultimately show ?thesis using assms t by (simp add: normal_def)
  qed
qed

lemma decodeArg_loop_append: "decodeArg_loop sp (a @ dst) src = a @ decodeArg_loop sp dst src"
proof (induction sp dst src rule: decodeArg_loop.induct)
  case (2 sp dst c src)
  show ?case
  proof (cases "c = 37")
    case True
    then show ?thesis using 2(1,2) [OF True] by (auto simp: Let_def split: list.split)
  next
    case False
    then show ?thesis using 2(3,4) by simp
  qed
qed simp

lemma DecodeNoPlus_append: "\<exists>d. DecodeArgAppendNoPlus dst src = dst @ d \<and> (src \<noteq> [] \<and> hd src = 47 \<longrightarrow> d \<noteq> [] \<and> hd d = 47)"
proof (cases "37 \<in> set src")
  case True
  have "decodeArg_loop False [] (47 # s) = 47 # decodeArg_loop False [] s" for s
    using decodeArg_loop_append [of False "[47]" "[]" s] by simp
  then show ?thesis using True decodeArg_loop_append [of False dst "[]" src] by (cases src) (auto simp: DecodeArgAppendNoPlus_def)
qed (simp add: DecodeArgAppendNoPlus_def)

lemma normalizePath_normal: "normal (normalizePath dst src)"
proof -
  define d where "d = DecodeArgAppendNoPlus (addLeadingSlash (take 0 dst) src) src"
  have r: "rooted d"
    using DecodeNoPlus_append [of "addLeadingSlash [] src" src] by (auto simp: d_def addLeadingSlash_def rooted_def)
  have "\<not> sublist StrSlashSlash ([] @ take 1 d)"
    using sublist_length_le [of StrSlashSlash "take 1 d"] by auto
  then have 1: "\<not> sublist StrSlashSlash (removeDupSlashes [] d)" by (rule removeDupSlashes_no_dup)
  have 2: "rooted (removeDupSlashes [] d)" by (rule removeDupSlashes_rooted) (simp add: r)
  note 3 = removeDots_keeps [OF 2 1]
  note 4 = removeDotDots_keeps [OF conjunct1 [OF 3] conjunct2 [OF 3] removeDots_no_dot]
  show ?thesis
    unfolding normalizePath_def Let_def d_def [symmetric]
    using 4 removeDotDots_no_dot_dot by (intro removeTrailing_normal) auto
qed

section \<open>Reachable values\<close>

definition lower :: "bytes \<Rightarrow> bool" where "lower s \<longleftrightarrow> LowercaseBytes s = s"

definition uri_ok :: "URI \<Rightarrow> bool" where
  "uri_ok u \<longleftrightarrow> (path u = [] \<or> normal (path u)) \<and> lower (scheme u) \<and> lower (host u)"

text \<open>
  The values a program can make of the zero value by the operations of the package, in any order. \<open>QueryArgs\<close> hands out a
  pointer to the arguments, so they may become anything.
\<close>

inductive uri_reach :: "URI \<Rightarrow> bool" where
  reach_zero: "uri_reach zeroURI"
| reach_Reset: "uri_reach u \<Longrightarrow> uri_reach (URI_Reset u)"
| reach_CopyTo: "uri_reach u \<Longrightarrow> uri_reach d \<Longrightarrow> uri_reach (URI_CopyTo u d)"
| reach_SetHash: "uri_reach u \<Longrightarrow> uri_reach (SetHash v u)"
| reach_SetQueryString: "uri_reach u \<Longrightarrow> uri_reach (SetQueryString v u)"
| reach_SetPath: "uri_reach u \<Longrightarrow> uri_reach (SetPath v u)"
| reach_SetScheme: "uri_reach u \<Longrightarrow> uri_reach (SetScheme v u)"
| reach_SetHost: "uri_reach u \<Longrightarrow> uri_reach (SetHost v u)"
| reach_Host: "uri_reach u \<Longrightarrow> uri_reach (snd (Host hosts u))"
| reach_Parse: "uri_reach u \<Longrightarrow> uri_reach (URI_Parse hst uri u)"
| reach_parseQuick: "uri_reach u \<Longrightarrow> uri_reach (parseQuick uri h isTLS u)"
| reach_RequestURI: "uri_reach u \<Longrightarrow> uri_reach (snd (RequestURI u))"
| reach_FullURI: "uri_reach u \<Longrightarrow> uri_reach (snd (FullURI hosts u))"
| reach_AppendBytes: "uri_reach u \<Longrightarrow> uri_reach (snd (URI_AppendBytes hosts dst u))"
| reach_Update: "uri_reach u \<Longrightarrow> UpdateBytes hosts newURI u = Inr u' \<Longrightarrow> uri_reach u'"
| reach_QueryArgs: "uri_reach u \<Longrightarrow> QueryArgs u = Inr (a, u') \<Longrightarrow> uri_reach u'"
| reach_args: "uri_reach u \<Longrightarrow> uri_reach (u\<lparr>queryArgs := a\<rparr>)"

named_theorems uri_ok_intros \<open>the operations keep the invariant\<close>

lemma lower_LowercaseBytes [simp]: "lower (LowercaseBytes s)"
proof -
  have "ToLowerTable (ToLowerTable c) = ToLowerTable c" for c
  proof -
    have "\<not> (65 \<le> c + 32 \<and> c + 32 \<le> 90)" if "65 \<le> c" "c \<le> 90"
      using that by (simp add: word_le_nat_alt unat_word_ariths)
    then show ?thesis by (auto simp: ToLowerTable_def)
  qed
  then show ?thesis by (simp add: lower_def LowercaseBytes_map)
qed

lemma lower_simps [simp]: "lower []" "lower StrHTTPS" "lower StrHTTP"
  by (simp_all add: lower_def LowercaseBytes_map StrHTTP_def StrHTTPS_def ToLowerTable_def)

lemma uri_ok_parse [uri_ok_intros]: "uri_ok (URI_parse hst uri h u)"
  by (auto simp: uri_ok_def URI_parse_def Let_def normalizePath_normal split: prod.split option.split)

lemma uri_ok_Parse [uri_ok_intros]: "uri_ok (URI_Parse hst uri u)"
  by (simp add: URI_Parse_def uri_ok_parse)

lemma uri_ok_scheme: "uri_ok u \<Longrightarrow> lower s \<Longrightarrow> uri_ok (u\<lparr>scheme := s\<rparr>)"
  by (simp add: uri_ok_def)

lemma uri_ok_parseQuick [uri_ok_intros]: "uri_ok (parseQuick uri h isTLS u)"
  by (auto simp: parseQuick_def Let_def intro: uri_ok_parse uri_ok_scheme)

lemma uri_ok_setters [uri_ok_intros]:
  "uri_ok zeroURI"
  "uri_ok (URI_Reset u)"
  "uri_ok u \<Longrightarrow> uri_ok (URI_CopyTo u d)"
  "uri_ok u \<Longrightarrow> uri_ok (SetHash v u)"
  "uri_ok u \<Longrightarrow> uri_ok (SetHashBytes v u)"
  "uri_ok u \<Longrightarrow> uri_ok (SetQueryString v u)"
  "uri_ok u \<Longrightarrow> uri_ok (SetQueryStringBytes v u)"
  "uri_ok u \<Longrightarrow> uri_ok (SetPath v u)"
  "uri_ok u \<Longrightarrow> uri_ok (SetScheme v u)"
  "uri_ok u \<Longrightarrow> uri_ok (SetHost v u)"
  "uri_ok u \<Longrightarrow> uri_ok (u\<lparr>requestURI := b\<rparr>)"
  "uri_ok u \<Longrightarrow> uri_ok (u\<lparr>queryArgs := a\<rparr>)"
  by (simp_all add: uri_ok_def zeroURI_def URI_Reset_def URI_CopyTo_def Let_def SetHash_def SetHashBytes_def
      SetQueryString_def SetQueryStringBytes_def SetPath_def SetScheme_def SetHost_def normalizePath_normal)

lemma uri_ok_Host [uri_ok_intros]: "uri_ok u \<Longrightarrow> uri_ok (snd (Host hosts u))"
  by (simp add: Host_def Let_def uri_ok_def split: option.split)

lemma lower_Host: "uri_ok u \<Longrightarrow> lower (fst (Host hosts u))"
  by (auto simp: Host_def Let_def uri_ok_def split: option.split)

lemma uri_ok_RequestURI [uri_ok_intros]: "uri_ok u \<Longrightarrow> uri_ok (snd (RequestURI u))"
  by (simp add: RequestURI_def Let_def uri_ok_def)

lemma appendSchemeHost_eq:
  "appendSchemeHost hosts dst u = (dst @ Scheme u @ StrColonSlashSlash @ fst (Host hosts u), snd (Host hosts u))"
  by (simp add: appendSchemeHost_def Let_def split_beta)

lemma URI_AppendBytes_eq:
  "URI_AppendBytes hosts dst u =
     (dst @ Scheme u @ StrColonSlashSlash @ fst (Host hosts u) @ fst (RequestURI (snd (Host hosts u))),
      snd (RequestURI (snd (Host hosts u))))"
  by (simp add: URI_AppendBytes_def appendSchemeHost_eq split_beta)

lemma uri_ok_AppendBytes [uri_ok_intros]: "uri_ok u \<Longrightarrow> uri_ok (snd (URI_AppendBytes hosts dst u))"
  by (simp add: URI_AppendBytes_eq uri_ok_Host uri_ok_RequestURI)

lemma uri_ok_FullURI [uri_ok_intros]: "uri_ok u \<Longrightarrow> uri_ok (snd (FullURI hosts u))"
  using uri_ok_AppendBytes [of u hosts "[]"] by (simp add: FullURI_def split_beta uri_ok_def)

lemma FullURI_ok: "uri_ok u \<Longrightarrow> \<exists>b u'. FullURI hosts u = (b, u') \<and> uri_ok u'"
  by (metis uri_ok_FullURI prod.collapse)

lemma normal_Path: "uri_ok u \<Longrightarrow> normal (Path u)"
  by (auto simp: uri_ok_def Path_def normal_StrSlash)

lemma Path_has_slash: "uri_ok u \<Longrightarrow> bytes_LastIndexByte (Path u) 47 \<noteq> None"
  using normal_Path [of u] by (cases "Path u") (auto simp: LastIndexByte_None normal_def rooted_def)

lemma updateBytes_ok:
  assumes "uri_ok u"
  shows "\<exists>b u'. updateBytes hosts newURI buf u = Inr (b, u') \<and> uri_ok u'"
proof -
  obtain n where n: "bytes_LastIndexByte (Path u) 47 = Some n" using Path_has_slash [OF assms] by auto
  have s: "lower (scheme u)" using assms by (simp add: uri_ok_def)
  show ?thesis
    using assms s n
    by (auto simp: updateBytes_def Let_def appendSchemeHost_eq split_beta intro!: uri_ok_intros FullURI_ok intro: uri_ok_scheme)
qed

lemma UpdateBytes_ok: "uri_ok u \<Longrightarrow> \<exists>u'. UpdateBytes hosts newURI u = Inr u' \<and> uri_ok u'"
  using updateBytes_ok [of u hosts newURI "requestURI u"] by (auto simp: UpdateBytes_def intro: uri_ok_intros)

lemma uri_ok_QueryArgs: "uri_ok u \<Longrightarrow> QueryArgs u = Inr (a, u') \<Longrightarrow> uri_ok u'"
  by (auto simp: QueryArgs_def parseQueryArgs_def uri_ok_def split: sum.splits if_splits)

lemma reach_ok: "uri_reach u \<Longrightarrow> uri_ok u"
proof (induction rule: uri_reach.induct)
  case (reach_Update u hosts newURI u')
  then show ?case using UpdateBytes_ok [of u hosts newURI] by auto
qed (auto intro: uri_ok_intros uri_ok_QueryArgs)

section \<open>Parsing what was printed\<close>

lemma path_plain_47: "path_plain 47"
  by (simp add: path_plain_def)

lemma quoted_rooted: "rooted p \<Longrightarrow> \<exists>r. AppendQuotedPath [] p = 47 # r"
  by (cases p) (auto simp: rooted_def concat_AppendQuotedPath path_plain_47)

lemma removeDupSlashes_id: "\<not> sublist StrSlashSlash p \<Longrightarrow> removeDupSlashes [] p = p"
  by (simp add: removeDupSlashes.simps [of "[]" p] Index_None [THEN iffD2])

lemma removeDots_id: "\<not> sublist StrSlashDotSlash p \<Longrightarrow> removeDots p = p"
  by (simp add: removeDots.simps [of p] Index_None [THEN iffD2])

lemma removeDotDots_id: "\<not> sublist StrSlashDotDotSlash p \<Longrightarrow> removeDotDots p = p"
  by (simp add: removeDotDots.simps [of p] Index_None [THEN iffD2])

lemma normalizePath_quoted:
  assumes "normal p"
  shows "normalizePath dst (AppendQuotedPath [] p) = p"
proof -
  obtain r where r: "AppendQuotedPath [] p = 47 # r" using assms quoted_rooted by (auto simp: normal_def)
  have "DecodeArgAppendNoPlus [] (47 # r) = p" using decode_quoted_path [of "[]" p] r by simp
  then show ?thesis
    using assms by (simp add: normalizePath_def r addLeadingSlash_def Let_def normal_def removeDupSlashes_id removeDots_id
        removeDotDots_id removeTrailing_eq)
qed

lemma IndexByte_skip: "c \<notin> set u \<Longrightarrow> bytes_IndexByte (u @ v) c = map_option ((+) (length u)) (bytes_IndexByte v c)"
  by (cases "bytes_IndexByte v c"; induction u) auto

lemma Index_skip: "c \<notin> set u \<Longrightarrow> bytes_Index (u @ c # sep @ v) (c # sep) = Some (length u)"
  by (induction u) auto

lemma URI_parse_parts:
  assumes "splitHostURI hst uri = (sch, hs, p @ q @ f)" "63 \<notin> set p" "35 \<notin> set p"
    and "q = [] \<or> (\<exists>x. q = 63 # x \<and> 35 \<notin> set x)" "f = [] \<or> (\<exists>x. f = 35 # x)"
  shows "URI_parse hst uri h u = (URI_Reset u)\<lparr>hdr := h, scheme := LowercaseBytes sch, host := LowercaseBytes hs,
     pathOriginal := p, path := normalizePath [] p, queryString := drop 1 q, hash := drop 1 f\<rparr>"
proof -
  consider "q = []" "f = []" | x where "q = 63 # x" "35 \<notin> set x" "f = []" | y where "q = []" "f = 35 # y"
    | x y where "q = 63 # x" "35 \<notin> set x" "f = 35 # y" using assms(4,5) by auto
  then show ?thesis
  proof cases
    case 1
    then show ?thesis using assms by (simp add: URI_parse_def Let_def IndexByte_None [THEN iffD2] URI_Reset_def)
  next
    case 2
    then show ?thesis using assms
      by (simp add: URI_parse_def Let_def IndexByte_None [THEN iffD2] IndexByte_skip URI_Reset_def)
  next
    case 3
    then show ?thesis using assms
      by (cases "bytes_IndexByte y 63") (simp_all add: URI_parse_def Let_def IndexByte_skip URI_Reset_def)
  next
    case 4
    then have "bytes_IndexByte (p @ 63 # x @ 35 # y) 35 = Some (length p + 1 + length x)"
      using assms(3) IndexByte_append [of 35 "p @ 63 # x" y] by simp
    then show ?thesis using assms 4
      by (simp add: URI_parse_def Let_def IndexByte_skip URI_Reset_def)
  qed
qed

lemma splitHostURI_full:
  assumes "47 \<notin> set s" "47 \<notin> set hs"
  shows "splitHostURI [] (s @ StrColonSlashSlash @ hs @ 47 # r) = (s, hs, 47 # r)"
proof -
  have "bytes_Index ((s @ [58]) @ 47 # [47] @ hs @ 47 # r) (47 # [47]) = Some (length (s @ [58]))"
    by (rule Index_skip) (simp add: assms)
  then show ?thesis
    using assms by (simp add: splitHostURI_def StrColonSlashSlash_def StrSlashSlash_def Let_def IndexByte_None [THEN iffD2]
        butlast_append)
qed

lemma quoted_path_plain: "c = 63 \<or> c = 35 \<Longrightarrow> c \<notin> set (AppendQuotedPath [] p)"
proof -
  assume c: "c = 63 \<or> c = 35"
  then have c16: "hex2intTable c = 16" "c \<noteq> 37" "\<not> path_plain c"
    by (auto simp: hex2intTable_def path_plain_def is_alnum_def)
  have "c \<notin> set (percent x)" for x
    using c16 hex_nibble(2) [OF byte_nibbles(1) [of x]] hex_nibble(2) [OF byte_nibbles(2) [of x]]
    unfolding percent_def by auto
  then show ?thesis using c16(3) by (auto simp: concat_AppendQuotedPath)
qed

definition query_text :: "URI \<Rightarrow> bytes" where
  "query_text u = (if Args_Len (queryArgs u) > 0 then Args_AppendBytes (queryArgs u) [] else queryString u)"

lemma RequestURI_parts:
  "\<exists>q f. fst (RequestURI u) = AppendQuotedPath [] (Path u) @ q @ f \<and> drop 1 q = query_text u \<and> drop 1 f = hash u \<and>
     (q = [] \<or> q = 63 # query_text u) \<and> (f = [] \<or> f = 35 # hash u)"
proof -
  define q where "q = (if Args_Len (queryArgs u) > 0 \<or> queryString u \<noteq> [] then 63 # query_text u else [])"
  define f where "f = (if hash u = [] then [] else 35 # hash u)"
  have "fst (RequestURI u) = AppendQuotedPath [] (Path u) @ q @ f"
    by (simp add: RequestURI_def Let_def q_def f_def query_text_def Args_AppendBytes_def appendBytes_spec)
  moreover have "drop 1 q = query_text u" by (simp add: q_def query_text_def)
  moreover have "drop 1 f = hash u" by (simp add: f_def)
  ultimately show ?thesis by (intro exI [of _ q] exI [of _ f]) (simp add: q_def f_def)
qed

lemma FullURI_eq:
  "fst (FullURI hosts u) = Scheme u @ StrColonSlashSlash @ fst (Host hosts u) @ fst (RequestURI u)"
  by (simp add: FullURI_def URI_AppendBytes_eq split_beta RequestURI_def Host_def Let_def Path_def split: option.split)

section \<open>Properties\<close>

text \<open>
  C10. Path normalisation: whatever bytes arrive as a path, percent-encoded or not, the path the program works with starts
  with a slash and contains no \<open>//\<close>, no \<open>/./\<close> and no \<open>/../\<close>, nor does it end in \<open>/..\<close>; the three loops end on every input.
\<close>

theorem path_is_normal: "normal (normalizePath dst src)"
  by (rule normalizePath_normal)

text \<open>
  C11. Invariant: a URI that any sequence of the operations made has a normal path, a lower-case scheme and a lower-case
  host, whatever the request header answers; so no update by a reference runs into the panic of \<open>updateBytes\<close>.
\<close>

theorem uri_invariant:
  assumes "uri_reach u"
  shows "normal (Path u) \<and> lower (Scheme u) \<and> lower (fst (Host hosts u)) \<and> (\<exists>u'. UpdateBytes hosts newURI u = Inr u')"
proof -
  note ok = reach_ok [OF assms]
  have "lower (Scheme u)" using ok by (simp add: Scheme_def uri_ok_def)
  then show ?thesis using normal_Path [OF ok] lower_Host [OF ok] UpdateBytes_ok [OF ok] by blast
qed

theorem uri_invariant_witness:
  "Path (SetPath [47, 97, 47, 46, 46, 47, 98] zeroURI) = [47, 98] \<and> normal (Path (SetPath [47, 97, 47, 46, 46, 47, 98] zeroURI)) \<and>
   (\<exists>u'. UpdateBytes (\<lambda>_. []) [99] (SetPath [47, 97, 47, 46, 46, 47, 98] zeroURI) = Inr u')"
proof -
  have "Path (SetPath [47, 97, 47, 46, 46, 47, 98] zeroURI) = [47, 98]" by code_simp
  then show ?thesis using uri_invariant [OF reach_SetPath [OF reach_zero]] by blast
qed

text \<open>
  C32. Round trip: parsing the full URI that a reachable value prints, into any reused value, gives the same scheme, host,
  path, query and fragment, when the scheme and the host have no slash and the query no number sign.
\<close>

theorem full_uri_roundtrip:
  assumes "uri_reach u" "47 \<notin> set (scheme u)" "47 \<notin> set (fst (Host hosts u))" "35 \<notin> set (query_text u)"
    and v: "v = URI_Parse [] (fst (FullURI hosts u)) w"
  shows "Scheme v = Scheme u \<and> fst (Host hosts' v) = fst (Host hosts u) \<and> Path v = Path u \<and>
         queryString v = query_text u \<and> hash v = hash u"
proof -
  note ok = reach_ok [OF assms(1)]
  have s1: "lower (Scheme u)" using ok by (simp add: Scheme_def uri_ok_def)
  have s2: "47 \<notin> set (Scheme u)" using assms(2) by (simp add: Scheme_def StrHTTP_def)
  note h = lower_Host [OF ok, of hosts]
  note n = normal_Path [OF ok]
  obtain r where r: "AppendQuotedPath [] (Path u) = 47 # r" using quoted_rooted n by (auto simp: normal_def)
  obtain q f where qf: "fst (RequestURI u) = AppendQuotedPath [] (Path u) @ q @ f" "drop 1 q = query_text u"
    "drop 1 f = hash u" "q = [] \<or> q = 63 # query_text u" "f = [] \<or> f = 35 # hash u" using RequestURI_parts by blast
  have split: "splitHostURI [] (fst (FullURI hosts u)) =
      (Scheme u, fst (Host hosts u), AppendQuotedPath [] (Path u) @ q @ f)"
    using splitHostURI_full [OF s2 assms(3), of "r @ q @ f"] by (simp add: FullURI_eq qf(1) r)
  have "v = (URI_Reset w)\<lparr>hdr := None, scheme := Scheme u, host := fst (Host hosts u),
      pathOriginal := AppendQuotedPath [] (Path u), path := Path u, queryString := query_text u, hash := hash u\<rparr>"
    unfolding v URI_Parse_def
    using URI_parse_parts [OF split quoted_path_plain quoted_path_plain, of None w] qf assms(4) s1 h n
    by (auto simp: lower_def normalizePath_quoted)
  moreover have "Scheme u \<noteq> []" by (simp add: Scheme_def StrHTTP_def)
  moreover have "Path u \<noteq> []" using n by (simp add: normal_def rooted_def)
  ultimately show ?thesis by (simp add: Scheme_def Host_def Path_def)
qed

theorem full_uri_roundtrip_witness:
  "\<exists>u. uri_reach u \<and> host u = [101] \<and> path u = [47, 98] \<and>
     (let v = URI_Parse [] (fst (FullURI (\<lambda>_. []) u)) zeroURI in Path v = [47, 98] \<and> hash v = [104])"
proof -
  define u where "u = SetHash [104] (SetPath [47, 98] (SetHost [69] zeroURI))"
  have r: "uri_reach u" unfolding u_def by (intro uri_reach.intros)
  have u: "host u = [101]" "path u = [47, 98]" "scheme u = []" "hash u = [104]" "query_text u = []"
    "fst (Host (\<lambda>_. []) u) = [101]" "Path u = [47, 98]"
    unfolding u_def by code_simp+
  show ?thesis
    using full_uri_roundtrip [OF r, of "\<lambda>_. []" _ zeroURI "\<lambda>_. []", OF _ _ _ refl] r u by (auto simp: Let_def)
qed

text \<open>
  C33. The host is lost: updating a URI by a reference that starts with a single slash and has a double slash later, in its
  query for example, leaves a URI with no host at all, although only the path and the query should change.
\<close>

theorem update_loses_host:
  assumes "bytes_Index r StrSlashSlash = Some n" "n > 0" "hd r = 47" "UpdateBytes hosts r u = Inr u'"
  shows "fst (Host hosts' u') = []"
proof -
  have ne: "r \<noteq> []" using assms(1) by (auto simp: StrSlashSlash_def)
  then have "47 \<in> set (take n r)" using assms(2,3) by (cases r; cases n) auto
  then have "splitHostURI [] r = (StrHTTP, [], r)" using assms(1) by (simp add: splitHostURI_def IndexByte_None)
  then have "host (URI_Parse [] r u) = [] \<and> hdr (URI_Parse [] r u) = None"
    by (simp add: URI_Parse_def URI_parse_def Let_def URI_Reset_def LowercaseBytes_map split: option.split)
  moreover have "host u' = host (URI_Parse [] r u) \<and> hdr u' = hdr (URI_Parse [] r u)"
    using assms(1,4) ne by (auto simp: UpdateBytes_def updateBytes_def Let_def split: if_splits)
  ultimately show ?thesis by (simp add: Host_def)
qed

theorem update_loses_host_witness:
  "\<exists>u'. host (SetHost [120] zeroURI) = [120] \<and>
     UpdateBytes (\<lambda>_. []) [47, 97, 63, 117, 61, 104, 58, 47, 47, 98] (SetHost [120] zeroURI) = Inr u' \<and> fst (Host (\<lambda>_. []) u') = []"
proof -
  have i: "bytes_Index [47, 97, 63, 117, 61, 104, 58, 47, 47, 98] StrSlashSlash = Some 7" by code_simp
  have h: "host (SetHost [120] zeroURI) = [120]" by code_simp
  obtain u' where u': "UpdateBytes (\<lambda>_. []) [47, 97, 63, 117, 61, 104, 58, 47, 47, 98] (SetHost [120] zeroURI) = Inr u'"
    using UpdateBytes_ok [OF reach_ok [OF reach_SetHost [OF reach_zero]]] by blast
  show ?thesis using update_loses_host [OF i _ _ u'] h u' by auto
qed

text \<open>
  C34. A new query string is not printed once the arguments of the old one were parsed: \<open>SetQueryString\<close> leaves the parsed
  arguments, and \<open>RequestURI\<close> prefers them.
\<close>

theorem set_query_string_ignored:
  assumes "QueryArgs u = Inr (a, u')" "live (argv a) \<noteq> []"
  shows "fst (RequestURI (SetQueryString q u')) = fst (RequestURI u')"
proof -
  have "queryArgs u' = a" using assms(1) by (auto simp: QueryArgs_def split: sum.splits)
  then show ?thesis using assms(2) by (simp add: RequestURI_def Let_def Args_Len_def SetQueryString_def Path_def)
qed

theorem set_query_string_ignored_witness:
  "\<exists>a u'. QueryArgs (SetQueryString [97, 61, 49] zeroURI) = Inr (a, u') \<and>
     fst (RequestURI (SetQueryString [98, 61, 50] u')) = [47, 63, 97, 61, 49]"
proof -
  have 1: "(case QueryArgs (SetQueryString [97, 61, 49] zeroURI) of
        Inl _ \<Rightarrow> False | Inr (a, u') \<Rightarrow> live (argv a) \<noteq> [] \<and> fst (RequestURI u') = [47, 63, 97, 61, 49])" by code_simp
  then obtain a u' where u': "QueryArgs (SetQueryString [97, 61, 49] zeroURI) = Inr (a, u')" "live (argv a) \<noteq> []"
    "fst (RequestURI u') = [47, 63, 97, 61, 49]" by (auto split: sum.splits prod.splits)
  have "fst (RequestURI (SetQueryString [98, 61, 50] u')) = [47, 63, 97, 61, 49]"
    using set_query_string_ignored [OF u'(1,2), of "[98, 61, 50]"] u'(3) by simp
  then show ?thesis using u'(1) by blast
qed

end
