(* ===== verification/Http_Cookie.thy ===== *)
theory Http_Cookie
  imports Http_Uri
begin

text \<open>
  Cookies, \<open>pkg/protocol/http/v1/cookie.go\<close>: the \<open>Cookie\<close> of a Set-Cookie header with its parser and printer, and the
  list of cookies of a request.

  A time is its distance in seconds from Go's zero time, so the zero time is 0. The layout of an HTTP date belongs to the
  package \<open>time\<close>: \<open>fmt\<close> (what \<open>AppendHTTPDate\<close> appends) and \<open>prs\<close> (what \<open>ParseInLocation\<close> with \<open>RFC1123\<close> returns, \<open>None\<close>
  for an error) are parameters of the operations that print or read one.
\<close>

type_synonym seconds = int

definition zeroTime :: seconds where "zeroTime = 0"
definition CookieExpireUnlimited :: seconds where "CookieExpireUnlimited = zeroTime"

definition StrCookieExpires :: bytes where "StrCookieExpires = [101, 120, 112, 105, 114, 101, 115]"
definition StrCookieDomain :: bytes where "StrCookieDomain = [100, 111, 109, 97, 105, 110]"
definition StrCookiePath :: bytes where "StrCookiePath = [112, 97, 116, 104]"
definition StrCookieHTTPOnly :: bytes where "StrCookieHTTPOnly = [72, 116, 116, 112, 79, 110, 108, 121]"
definition StrCookieSecure :: bytes where "StrCookieSecure = [115, 101, 99, 117, 114, 101]"

datatype cookie_error = ErrNoCookies | ErrTime

record Cookie =
  ckey :: bytes
  cvalue :: bytes
  expire :: seconds
  domain :: bytes
  cpath :: bytes
  httpOnly :: bool
  secure :: bool
  bufKV :: ArgsKV
  cbuf :: bytes

definition zeroCookie :: Cookie where
  "zeroCookie = \<lparr>ckey = [], cvalue = [], expire = zeroTime, domain = [], cpath = [], httpOnly = False, secure = False,
     bufKV = zeroKV, cbuf = []\<rparr>"

section \<open>Fields\<close>

definition Cookie_Reset :: "Cookie \<Rightarrow> Cookie" where
  "Cookie_Reset c = c\<lparr>ckey := [], cvalue := [], expire := zeroTime, domain := [], cpath := [], httpOnly := False, secure := False\<rparr>"

definition AcquireCookie :: "Cookie list \<Rightarrow> Cookie \<times> Cookie list" where
  "AcquireCookie pool = (case pool of [] \<Rightarrow> (zeroCookie, []) | c # pool' \<Rightarrow> (c, pool'))"

definition ReleaseCookie :: "Cookie \<Rightarrow> Cookie list \<Rightarrow> Cookie list" where
  "ReleaseCookie c pool = Cookie_Reset c # pool"

definition Cookie_CopyTo :: "Cookie \<Rightarrow> Cookie \<Rightarrow> Cookie" where
  "Cookie_CopyTo c src = (Cookie_Reset c)\<lparr>ckey := ckey src, cvalue := cvalue src, expire := expire src, domain := domain src,
     cpath := cpath src, httpOnly := httpOnly src, secure := secure src\<rparr>"

definition SetHTTPOnly :: "bool \<Rightarrow> Cookie \<Rightarrow> Cookie" where "SetHTTPOnly v c = c\<lparr>httpOnly := v\<rparr>"
definition SetSecure :: "bool \<Rightarrow> Cookie \<Rightarrow> Cookie" where "SetSecure v c = c\<lparr>secure := v\<rparr>"
definition Cookie_SetPath :: "bytes \<Rightarrow> Cookie \<Rightarrow> Cookie" where
  "Cookie_SetPath p c = (let c = c\<lparr>cbuf := p\<rparr> in c\<lparr>cpath := normalizePath (cpath c) (cbuf c)\<rparr>)"
definition Cookie_SetPathBytes :: "bytes \<Rightarrow> Cookie \<Rightarrow> Cookie" where
  "Cookie_SetPathBytes p c = (let c = c\<lparr>cbuf := p\<rparr> in c\<lparr>cpath := normalizePath (cpath c) (cbuf c)\<rparr>)"
definition SetDomain :: "bytes \<Rightarrow> Cookie \<Rightarrow> Cookie" where "SetDomain v c = c\<lparr>domain := v\<rparr>"
definition SetDomainBytes :: "bytes \<Rightarrow> Cookie \<Rightarrow> Cookie" where "SetDomainBytes v c = c\<lparr>domain := v\<rparr>"
definition Expire :: "Cookie \<Rightarrow> seconds" where
  "Expire c = (if expire c = 0 then CookieExpireUnlimited else expire c)"
definition SetExpire :: "seconds \<Rightarrow> Cookie \<Rightarrow> Cookie" where "SetExpire t c = c\<lparr>expire := t\<rparr>"
definition SetValue :: "bytes \<Rightarrow> Cookie \<Rightarrow> Cookie" where "SetValue v c = c\<lparr>cvalue := v\<rparr>"
definition SetValueBytes :: "bytes \<Rightarrow> Cookie \<Rightarrow> Cookie" where "SetValueBytes v c = c\<lparr>cvalue := v\<rparr>"
definition SetKey :: "bytes \<Rightarrow> Cookie \<Rightarrow> Cookie" where "SetKey v c = c\<lparr>ckey := v\<rparr>"
definition SetKeyBytes :: "bytes \<Rightarrow> Cookie \<Rightarrow> Cookie" where "SetKeyBytes v c = c\<lparr>ckey := v\<rparr>"

section \<open>Printing\<close>

definition appendCookiePart :: "bytes \<Rightarrow> bytes \<Rightarrow> bytes \<Rightarrow> bytes" where
  "appendCookiePart dst k v = dst @ [59, 32] @ k @ [61] @ v"

definition Cookie_AppendBytes :: "(seconds \<Rightarrow> bytes) \<Rightarrow> bytes \<Rightarrow> Cookie \<Rightarrow> bytes \<times> Cookie" where
  "Cookie_AppendBytes fmt dst c =
     (let dst = (if ckey c \<noteq> [] then dst @ ckey c @ [61] else dst) @ cvalue c;
          c = (if expire c \<noteq> 0 then c\<lparr>bufKV := (bufKV c)\<lparr>Value := fmt (expire c)\<rparr>\<rparr> else c);
          dst = (if expire c \<noteq> 0 then dst @ [59, 32] @ StrCookieExpires @ [61] @ Value (bufKV c) else dst);
          dst = (if domain c \<noteq> [] then appendCookiePart dst StrCookieDomain (domain c) else dst);
          dst = (if cpath c \<noteq> [] then appendCookiePart dst StrCookiePath (cpath c) else dst);
          dst = (if httpOnly c then dst @ [59, 32] @ StrCookieHTTPOnly else dst);
          dst = (if secure c then dst @ [59, 32] @ StrCookieSecure else dst)
      in (dst, c))"

definition Cookie_Cookie :: "(seconds \<Rightarrow> bytes) \<Rightarrow> Cookie \<Rightarrow> bytes \<times> Cookie" where
  "Cookie_Cookie fmt c = (case Cookie_AppendBytes fmt [] c of (b, c) \<Rightarrow> (b, c\<lparr>cbuf := b\<rparr>))"

definition Cookie_String :: "(seconds \<Rightarrow> bytes) \<Rightarrow> Cookie \<Rightarrow> bytes \<times> Cookie" where "Cookie_String fmt c = Cookie_Cookie fmt c"

text \<open>\<open>w\<close> is the \<open>Write\<close> method of the writer.\<close>

definition Cookie_WriteTo ::
  "(bytes \<Rightarrow> nat \<times> go_error option) \<Rightarrow> (seconds \<Rightarrow> bytes) \<Rightarrow> Cookie \<Rightarrow> (nat \<times> go_error option) \<times> Cookie" where
  "Cookie_WriteTo w fmt c = (case Cookie_Cookie fmt c of (b, c) \<Rightarrow> (w b, c))"

fun appendRequestCookieBytes :: "bytes \<Rightarrow> ArgsKV list \<Rightarrow> bytes" where
  "appendRequestCookieBytes dst [] = dst"
| "appendRequestCookieBytes dst (kv # cookies) =
     (let dst = (if Key kv \<noteq> [] then dst @ Key kv @ [61] else dst) @ Value kv in
      appendRequestCookieBytes (if cookies \<noteq> [] then dst @ [59, 32] else dst) cookies)"

section \<open>The scanner\<close>

text \<open>\<open>decodeCookieArg\<close>: its two loops strip the spaces at both ends, then a pair of quotes may go.\<close>

definition decodeCookieArg :: "bytes \<Rightarrow> bytes \<Rightarrow> bool \<Rightarrow> bytes" where
  "decodeCookieArg dst src skipQuotes =
     (let src = dropWhile (\<lambda>c. c = 32) src;
          src = rev (dropWhile (\<lambda>c. c = 32) (rev src));
          src = (if skipQuotes \<and> length src > 1 \<and> hd src = 34 \<and> last src = 34 then butlast (tl src) else src)
      in take 0 dst @ src)"

definition getCookieKey :: "bytes \<Rightarrow> bytes \<Rightarrow> bytes" where
  "getCookieKey dst src =
     decodeCookieArg dst (case bytes_IndexByte src 61 of Some n \<Rightarrow> take n src | None \<Rightarrow> src) False"

text \<open>\<open>cookieScanner.next\<close>: the loop at index \<open>i\<close> of \<open>b\<close>, with \<open>rest\<close> the bytes from there on; the pair and the bytes left.\<close>

fun cookie_scan :: "bytes \<Rightarrow> nat \<Rightarrow> bytes \<Rightarrow> bool \<Rightarrow> nat \<Rightarrow> ArgsKV \<Rightarrow> ArgsKV \<times> bytes" where
  "cookie_scan b i [] isKey k kv =
     (let kv = (if isKey then kv\<lparr>Key := []\<rparr> else kv) in
      (kv\<lparr>Value := decodeCookieArg (Value kv) (drop k b) True\<rparr>, []))"
| "cookie_scan b i (c # rest) isKey k kv =
     (if c = 61 then
        (if isKey then cookie_scan b (i + 1) rest False (i + 1) (kv\<lparr>Key := decodeCookieArg (Key kv) (take i b) False\<rparr>)
         else cookie_scan b (i + 1) rest isKey k kv)
      else if c = 59 then
        (let kv = (if isKey then kv\<lparr>Key := []\<rparr> else kv) in
         (kv\<lparr>Value := decodeCookieArg (Value kv) (drop k (take i b)) True\<rparr>, drop (i + 1) b))
      else cookie_scan b (i + 1) rest isKey k kv)"

definition cookie_next :: "bytes \<Rightarrow> ArgsKV \<Rightarrow> (ArgsKV \<times> bytes) option" where
  "cookie_next b kv = (if length b = 0 then None else Some (cookie_scan b 0 b True 0 kv))"

text \<open>What the scan reads: the segment up to the semicolon, split at its first equals sign.\<close>

definition cseg :: "bytes \<Rightarrow> bytes" where "cseg b = takeWhile (\<lambda>c. c \<noteq> 59) b"
definition cafter :: "bytes \<Rightarrow> bytes" where "cafter b = drop 1 (dropWhile (\<lambda>c. c \<noteq> 59) b)"

definition cstrip :: "bytes \<Rightarrow> bool \<Rightarrow> bytes" where
  "cstrip s q =
     (let t = rev (dropWhile (\<lambda>c. c = 32) (rev (dropWhile (\<lambda>c. c = 32) s))) in
      if q \<and> length t > 1 \<and> hd t = 34 \<and> last t = 34 then butlast (tl t) else t)"

definition cookie_pair :: "bytes \<Rightarrow> ArgsKV" where
  "cookie_pair s =
     (if 61 \<in> set s
      then \<lparr>Key = cstrip (takeWhile (\<lambda>c. c \<noteq> 61) s) False,
            Value = cstrip (drop 1 (dropWhile (\<lambda>c. c \<noteq> 61) s)) True\<rparr>
      else \<lparr>Key = [], Value = cstrip s True\<rparr>)"

lemma decodeCookieArg_eq [simp]: "decodeCookieArg dst s q = cstrip s q"
  by (simp add: decodeCookieArg_def cstrip_def Let_def)

lemma cookie_scan_value:
  "k \<le> length pre \<Longrightarrow> cookie_scan (pre @ rest) (length pre) rest False k kv =
     (kv\<lparr>Value := cstrip (drop k (pre @ cseg rest)) True\<rparr>, cafter rest)"
proof (induction rest arbitrary: pre)
  case Nil
  then show ?case by (simp add: cseg_def cafter_def)
next
  case (Cons c rest)
  show ?case
  proof (cases "c = 59")
    case True
    then show ?thesis by (simp add: cseg_def cafter_def)
  next
    case False
    then show ?thesis using Cons.IH [of "pre @ [c]"] Cons.prems by (auto simp: cseg_def cafter_def)
  qed
qed

lemma cookie_scan_key:
  "61 \<notin> set pre \<Longrightarrow> cookie_scan (pre @ rest) (length pre) rest True 0 kv = (cookie_pair (pre @ cseg rest), cafter rest)"
proof (induction rest arbitrary: pre)
  case Nil
  then show ?case by (cases kv) (simp add: cseg_def cafter_def cookie_pair_def Let_def)
next
  case (Cons c rest)
  consider "c = 61" | "c = 59" | "c \<noteq> 61" "c \<noteq> 59" by blast
  then show ?case
  proof cases
    case 1
    have "cookie_pair (pre @ 61 # cseg rest) =
        \<lparr>Key = cstrip pre False, Value = cstrip (cseg rest) True\<rparr>"
      using Cons.prems by (simp add: cookie_pair_def)
    then show ?thesis
      using 1 cookie_scan_value [of "length pre + 1" "pre @ [61]" rest]
      by (cases kv) (simp add: cseg_def cafter_def)
  next
    case 2
    then show ?thesis using Cons.prems
      by (cases kv) (simp add: cseg_def cafter_def cookie_pair_def Let_def)
  next
    case 3
    then show ?thesis using Cons.IH [of "pre @ [c]"] Cons.prems by (simp add: cseg_def cafter_def)
  qed
qed

lemma cookie_next_spec: "b \<noteq> [] \<Longrightarrow> cookie_next b kv = Some (cookie_pair (cseg b), cafter b)"
  using cookie_scan_key [of "[]" b kv] by (simp add: cookie_next_def)

lemma cookie_next_shrinks: "cookie_next b kv = Some (kv', b') \<Longrightarrow> length b' < length b"
proof -
  assume a: "cookie_next b kv = Some (kv', b')"
  then have ne: "b \<noteq> []" by (auto simp: cookie_next_def)
  then have "b' = cafter b" using a cookie_next_spec [OF ne] by simp
  then show ?thesis using ne length_dropWhile_le [of "\<lambda>c. c \<noteq> 59" b] by (cases b) (auto simp: cafter_def)
qed

section \<open>Parsing\<close>

text \<open>The loop of \<open>ParseBytes\<close> over the attributes, which stops at a date that cannot be read.\<close>

function parse_attrs :: "(bytes \<Rightarrow> seconds option) \<Rightarrow> bytes \<Rightarrow> Cookie \<Rightarrow> cookie_error option \<times> Cookie" where
  "parse_attrs prs b c =
     (case cookie_next b (bufKV c) of
        None \<Rightarrow> (None, c)
      | Some (kv, b') \<Rightarrow>
          (let c = c\<lparr>bufKV := kv\<rparr> in
           if Key kv = [] \<and> Value kv = [] then parse_attrs prs b' c
           else if Key kv = StrCookieExpires then
             (case prs (Value kv) of
                None \<Rightarrow> (Some ErrTime, c)
              | Some exptime \<Rightarrow> parse_attrs prs b' (c\<lparr>expire := exptime\<rparr>))
           else if Key kv = StrCookieDomain then parse_attrs prs b' (c\<lparr>domain := Value kv\<rparr>)
           else if Key kv = StrCookiePath then parse_attrs prs b' (c\<lparr>cpath := Value kv\<rparr>)
           else if Key kv = [] then
             (if Value kv = StrCookieHTTPOnly then parse_attrs prs b' (c\<lparr>httpOnly := True\<rparr>)
              else if Value kv = StrCookieSecure then parse_attrs prs b' (c\<lparr>secure := True\<rparr>)
              else parse_attrs prs b' c)
           else parse_attrs prs b' c))"
  by pat_completeness auto
termination
  by (relation "measure (\<lambda>(prs, b, c). length b)") (auto dest: cookie_next_shrinks)

declare parse_attrs.simps [simp del]

definition Cookie_ParseBytes :: "(bytes \<Rightarrow> seconds option) \<Rightarrow> bytes \<Rightarrow> Cookie \<Rightarrow> cookie_error option \<times> Cookie" where
  "Cookie_ParseBytes prs src c =
     (let c = Cookie_Reset c in
      case cookie_next src (bufKV c) of
        None \<Rightarrow> (Some ErrNoCookies, c)
      | Some (kv, b) \<Rightarrow> parse_attrs prs b (c\<lparr>bufKV := kv, ckey := Key kv, cvalue := Value kv\<rparr>))"

definition Cookie_Parse :: "(bytes \<Rightarrow> seconds option) \<Rightarrow> bytes \<Rightarrow> Cookie \<Rightarrow> cookie_error option \<times> Cookie" where
  "Cookie_Parse prs src c = Cookie_ParseBytes prs src (c\<lparr>cbuf := src\<rparr>)"

text \<open>The loop of \<open>parseRequestCookies\<close>: \<open>kv\<close> points to the last live pair.\<close>

function parseCookies_loop :: "kvs \<Rightarrow> bytes \<Rightarrow> kvs" where
  "parseCookies_loop cookies b =
     (case cookie_next b (last (live cookies)) of
        None \<Rightarrow> cookies
      | Some (kv, b') \<Rightarrow>
          (let h1 = write_last cookies kv in
           parseCookies_loop (if length (Key kv) > 0 \<or> length (Value kv) > 0 then fst (AllocArg h1) else h1) b'))"
  by pat_completeness auto
termination
  by (relation "measure (\<lambda>(h, b). length b)") (auto dest: cookie_next_shrinks)

declare parseCookies_loop.simps [simp del]

definition parseRequestCookies :: "kvs \<Rightarrow> bytes \<Rightarrow> kvs go" where
  "parseRequestCookies cookies src = ReleaseArg (parseCookies_loop (fst (AllocArg cookies)) src)"

section \<open>What is printed can be read\<close>

definition trimmed :: "bytes \<Rightarrow> bool" where "trimmed s \<longleftrightarrow> s = [] \<or> hd s \<noteq> 32 \<and> last s \<noteq> 32"

definition value_ok :: "bytes \<Rightarrow> bool" where
  "value_ok v \<longleftrightarrow> 59 \<notin> set v \<and> trimmed v \<and> \<not> (length v > 1 \<and> hd v = 34 \<and> last v = 34)"

definition pair_ok :: "ArgsKV \<Rightarrow> bool" where
  "pair_ok kv \<longleftrightarrow> value_ok (Value kv) \<and>
     (if Key kv = [] then 61 \<notin> set (Value kv) \<and> Value kv \<noteq> []
      else 59 \<notin> set (Key kv) \<and> 61 \<notin> set (Key kv) \<and> trimmed (Key kv))"

definition print_cookie :: "ArgsKV \<Rightarrow> bytes" where
  "print_cookie kv = (if Key kv \<noteq> [] then Key kv @ [61] else []) @ Value kv"

text \<open>The segments behind the first one.\<close>

definition parts :: "bytes list \<Rightarrow> bytes" where "parts ps = concat (map (\<lambda>p. 59 # 32 # p) ps)"

lemma parts_simps [simp]: "parts [] = []" "parts (p # ps) = 59 # 32 # p @ parts ps"
  by (simp_all add: parts_def)

lemma cstrip_trimmed:
  assumes "trimmed s" "q \<Longrightarrow> \<not> (length s > 1 \<and> hd s = 34 \<and> last s = 34)"
  shows "cstrip s q = s" "cstrip (32 # s) q = s"
proof -
  have l: "dropWhile (\<lambda>c. c = 32) s = s" using assms(1) by (cases s) (auto simp: trimmed_def)
  have r: "dropWhile (\<lambda>c. c = 32) (rev s) = rev s"
    using assms(1) by (cases s rule: rev_cases) (auto simp: trimmed_def)
  show "cstrip s q = s" using assms(2) by (auto simp: cstrip_def l r)
  show "cstrip (32 # s) q = s" using assms(2) by (auto simp: cstrip_def l r)
qed

lemma cookie_pair_eq:
  assumes "61 \<notin> set k" "trimmed k" "value_ok v"
  shows "cookie_pair (k @ 61 # v) = \<lparr>Key = k, Value = v\<rparr>" "cookie_pair (32 # k @ 61 # v) = \<lparr>Key = k, Value = v\<rparr>"
proof -
  note st = cstrip_trimmed [OF assms(2), of False] cstrip_trimmed(1) [of v True]
  show "cookie_pair (k @ 61 # v) = \<lparr>Key = k, Value = v\<rparr>"
    using assms st by (simp add: cookie_pair_def value_ok_def)
  have "61 \<notin> set (32 # k)" using assms(1) by simp
  from cut_at(1,2) [OF this, of v] show "cookie_pair (32 # k @ 61 # v) = \<lparr>Key = k, Value = v\<rparr>"
    using assms st by (simp add: cookie_pair_def value_ok_def)
qed

lemma cookie_pair_flag:
  assumes "61 \<notin> set v" "value_ok v"
  shows "cookie_pair v = \<lparr>Key = [], Value = v\<rparr>" "cookie_pair (32 # v) = \<lparr>Key = [], Value = v\<rparr>"
  using assms cstrip_trimmed [of v True] by (simp_all add: cookie_pair_def value_ok_def)

lemma print_cookie_spec:
  assumes "pair_ok kv"
  shows "cookie_pair (print_cookie kv) = kv" "cookie_pair (32 # print_cookie kv) = kv" "59 \<notin> set (print_cookie kv)"
    "print_cookie kv \<noteq> []" "nonempty kv"
  using assms cookie_pair_eq [of "Key kv" "Value kv"] cookie_pair_flag [of "Value kv"]
  by (auto simp: pair_ok_def print_cookie_def value_ok_def nonempty_def)

lemma cseg_parts: "59 \<notin> set p \<Longrightarrow> cseg (p @ parts ps) = p \<and> cafter (p @ parts ps) = drop 1 (parts ps)"
  by (cases ps) (simp_all add: cseg_def cafter_def)

lemma next_parts:
  "59 \<notin> set p \<Longrightarrow> p \<noteq> [] \<Longrightarrow> cookie_next (p @ parts ps) kv = Some (cookie_pair p, drop 1 (parts ps))"
  using cookie_next_spec [of "p @ parts ps" kv] cseg_parts [of p ps] by simp

section \<open>The cookies of a request\<close>

lemma appendRequestCookieBytes_eq:
  "appendRequestCookieBytes dst (kv # cs) = dst @ print_cookie kv @ parts (map print_cookie cs)"
proof (induction cs arbitrary: dst kv)
  case Nil
  then show ?case by (simp add: print_cookie_def)
next
  case (Cons kv' cs)
  have "appendRequestCookieBytes dst (kv # kv' # cs) = appendRequestCookieBytes (dst @ print_cookie kv @ [59, 32]) (kv' # cs)"
    by (simp add: Let_def print_cookie_def)
  then show ?case using Cons.IH by (simp only: list.map parts_simps append_assoc append.simps)
qed

lemma parseCookies_step:
  assumes "live h = l @ [x]" "59 \<notin> set p" "p \<noteq> []" "nonempty (cookie_pair p)"
  shows "\<exists>h' z. parseCookies_loop h (p @ parts ps) = parseCookies_loop h' (drop 1 (parts ps)) \<and>
           live h' = l @ [cookie_pair p] @ [z]"
proof -
  let ?h = "write_last h (cookie_pair p)"
  have "live ?h = l @ [cookie_pair p]" using assms(1) by (simp add: write_last_def)
  then obtain z where "live (fst (AllocArg ?h)) = (l @ [cookie_pair p]) @ [z]" using AllocArg_live [of ?h] by auto
  moreover have "parseCookies_loop h (p @ parts ps) = parseCookies_loop (fst (AllocArg ?h)) (drop 1 (parts ps))"
    using assms(4) by (subst parseCookies_loop.simps) (simp add: next_parts [OF assms(2,3)] Let_def nonempty_def)
  ultimately show ?thesis by auto
qed

lemma parseCookies_parts:
  "live h = l @ [x] \<Longrightarrow> \<forall>kv \<in> set cs. pair_ok kv \<Longrightarrow>
   \<exists>y. live (parseCookies_loop h (drop 1 (parts (map print_cookie cs)))) = l @ cs @ [y]"
proof (induction cs arbitrary: h l x)
  case Nil
  then show ?case by (simp add: parseCookies_loop.simps cookie_next_def)
next
  case (Cons kv cs)
  have ok: "pair_ok kv" using Cons.prems(2) by simp
  note p = print_cookie_spec [OF ok]
  obtain h' z where h': "parseCookies_loop h ((32 # print_cookie kv) @ parts (map print_cookie cs)) =
      parseCookies_loop h' (drop 1 (parts (map print_cookie cs)))" "live h' = (l @ [kv]) @ [z]"
    using parseCookies_step [OF Cons.prems(1), of "32 # print_cookie kv" "map print_cookie cs"] p by auto
  show ?case using Cons.IH [OF h'(2)] Cons.prems(2) h'(1) by simp
qed

section \<open>The attributes\<close>

definition one :: "bool \<Rightarrow> bytes \<Rightarrow> bytes list" where "one b p = (if b then [p] else [])"

lemma parts_append [simp]: "parts (ps @ qs) = parts ps @ parts qs"
  by (simp add: parts_def)

lemma Cookie_AppendBytes_eq:
  "fst (Cookie_AppendBytes fmt [] c) = print_cookie \<lparr>Key = ckey c, Value = cvalue c\<rparr> @
     parts (one (expire c \<noteq> 0) (StrCookieExpires @ 61 # fmt (expire c)) @
            one (domain c \<noteq> []) (StrCookieDomain @ 61 # domain c) @
            one (cpath c \<noteq> []) (StrCookiePath @ 61 # cpath c) @
            one (httpOnly c) StrCookieHTTPOnly @ one (secure c) StrCookieSecure)"
  by (simp add: Cookie_AppendBytes_def Let_def print_cookie_def one_def appendCookiePart_def)

lemmas cookie_strings = StrCookieExpires_def StrCookieDomain_def StrCookiePath_def StrCookieHTTPOnly_def StrCookieSecure_def

lemma attr_key:
  assumes "k \<in> {StrCookieExpires, StrCookieDomain, StrCookiePath}" "value_ok v"
  shows "cookie_next (32 # k @ 61 # v @ parts ps) kv = Some (\<lparr>Key = k, Value = v\<rparr>, drop 1 (parts ps))"
proof -
  have "61 \<notin> set k" "59 \<notin> set k" "trimmed k" using assms(1) by (auto simp: cookie_strings trimmed_def)
  then show ?thesis
    using next_parts [of "32 # k @ 61 # v" ps kv] cookie_pair_eq(2) [of k v] assms(2) by (simp add: value_ok_def)
qed

lemma attr_flag:
  assumes "v \<in> {StrCookieHTTPOnly, StrCookieSecure}"
  shows "cookie_next (32 # v @ parts ps) kv = Some (\<lparr>Key = [], Value = v\<rparr>, drop 1 (parts ps))"
proof -
  have "61 \<notin> set v" "value_ok v" using assms by (auto simp: cookie_strings trimmed_def value_ok_def)
  then show ?thesis using next_parts [of "32 # v" ps kv] cookie_pair_flag(2) [of v] by (simp add: value_ok_def)
qed

lemma cookie_distinct [simp]:
  "StrCookieExpires \<noteq> []" "StrCookieDomain \<noteq> []" "StrCookiePath \<noteq> []" "StrCookieHTTPOnly \<noteq> []" "StrCookieSecure \<noteq> []"
  "StrCookieDomain \<noteq> StrCookieExpires" "StrCookiePath \<noteq> StrCookieExpires" "StrCookiePath \<noteq> StrCookieDomain"
  "StrCookieSecure \<noteq> StrCookieHTTPOnly" "[] \<noteq> StrCookieExpires" "[] \<noteq> StrCookieDomain" "[] \<noteq> StrCookiePath"
  by (simp_all add: cookie_strings)

text \<open>Each attribute, when it was printed, is read into its field; the pair buffer changes on the way.\<close>

lemma read_expires:
  "(b \<Longrightarrow> value_ok v \<and> prs v = Some t) \<Longrightarrow>
   \<exists>k. parse_attrs prs (drop 1 (parts (one b (StrCookieExpires @ 61 # v) @ ps))) c =
        parse_attrs prs (drop 1 (parts ps)) (c\<lparr>bufKV := k, expire := if b then t else expire c\<rparr>)"
proof (cases b)
  case True
  assume a: "b \<Longrightarrow> value_ok v \<and> prs v = Some t"
  have n: "drop 1 (parts (one b (StrCookieExpires @ 61 # v) @ ps)) = 32 # StrCookieExpires @ 61 # v @ parts ps" using True by (simp add: one_def)
  show ?thesis
    unfolding n using a True attr_key [of StrCookieExpires v ps "bufKV c"]
    by (intro exI [of _ "\<lparr>Key = StrCookieExpires, Value = v\<rparr>"]) (simp add: parse_attrs.simps [of prs "32 # StrCookieExpires @ 61 # v @ parts ps"] Let_def)
next
  case False
  then show ?thesis by (intro exI [of _ "bufKV c"]) (simp add: one_def)
qed

lemma read_domain:
  "value_ok v \<Longrightarrow>
   \<exists>k. parse_attrs prs (drop 1 (parts (one b (StrCookieDomain @ 61 # v) @ ps))) c =
        parse_attrs prs (drop 1 (parts ps)) (c\<lparr>bufKV := k, domain := if b then v else domain c\<rparr>)"
proof (cases b)
  case True
  assume a: "value_ok v"
  have n: "drop 1 (parts (one b (StrCookieDomain @ 61 # v) @ ps)) = 32 # StrCookieDomain @ 61 # v @ parts ps" using True by (simp add: one_def)
  show ?thesis
    unfolding n using a True attr_key [of StrCookieDomain v ps "bufKV c"]
    by (intro exI [of _ "\<lparr>Key = StrCookieDomain, Value = v\<rparr>"]) (simp add: parse_attrs.simps [of prs "32 # StrCookieDomain @ 61 # v @ parts ps"] Let_def)
next
  case False
  then show ?thesis by (intro exI [of _ "bufKV c"]) (simp add: one_def)
qed

lemma read_path:
  "value_ok v \<Longrightarrow>
   \<exists>k. parse_attrs prs (drop 1 (parts (one b (StrCookiePath @ 61 # v) @ ps))) c =
        parse_attrs prs (drop 1 (parts ps)) (c\<lparr>bufKV := k, cpath := if b then v else cpath c\<rparr>)"
proof (cases b)
  case True
  assume a: "value_ok v"
  have n: "drop 1 (parts (one b (StrCookiePath @ 61 # v) @ ps)) = 32 # StrCookiePath @ 61 # v @ parts ps" using True by (simp add: one_def)
  show ?thesis
    unfolding n using a True attr_key [of StrCookiePath v ps "bufKV c"]
    by (intro exI [of _ "\<lparr>Key = StrCookiePath, Value = v\<rparr>"]) (simp add: parse_attrs.simps [of prs "32 # StrCookiePath @ 61 # v @ parts ps"] Let_def)
next
  case False
  then show ?thesis by (intro exI [of _ "bufKV c"]) (simp add: one_def)
qed

lemma read_httpOnly:
  "\<exists>k. parse_attrs prs (drop 1 (parts (one b (StrCookieHTTPOnly) @ ps))) c =
        parse_attrs prs (drop 1 (parts ps)) (c\<lparr>bufKV := k, httpOnly := b \<or> httpOnly c\<rparr>)"
proof (cases b)
  case True
  have n: "drop 1 (parts (one b (StrCookieHTTPOnly) @ ps)) = 32 # StrCookieHTTPOnly @ parts ps" using True by (simp add: one_def)
  show ?thesis
    unfolding n using True attr_flag [of StrCookieHTTPOnly ps "bufKV c"]
    by (intro exI [of _ "\<lparr>Key = [], Value = StrCookieHTTPOnly\<rparr>"]) (simp add: parse_attrs.simps [of prs "32 # StrCookieHTTPOnly @ parts ps"] Let_def)
next
  case False
  then show ?thesis by (intro exI [of _ "bufKV c"]) (simp add: one_def)
qed

lemma read_secure:
  "\<exists>k. parse_attrs prs (drop 1 (parts (one b (StrCookieSecure) @ ps))) c =
        parse_attrs prs (drop 1 (parts ps)) (c\<lparr>bufKV := k, secure := b \<or> secure c\<rparr>)"
proof (cases b)
  case True
  have n: "drop 1 (parts (one b (StrCookieSecure) @ ps)) = 32 # StrCookieSecure @ parts ps" using True by (simp add: one_def)
  show ?thesis
    unfolding n using True attr_flag [of StrCookieSecure ps "bufKV c"]
    by (intro exI [of _ "\<lparr>Key = [], Value = StrCookieSecure\<rparr>"]) (simp add: parse_attrs.simps [of prs "32 # StrCookieSecure @ parts ps"] Let_def)
next
  case False
  then show ?thesis by (intro exI [of _ "bufKV c"]) (simp add: one_def)
qed

section \<open>Properties\<close>

text \<open>
  C35. Set-Cookie round trip: parsing what \<open>AppendBytes\<close> prints for a cookie, into any reused value, gives no error and the
  same key, value, expiry, domain, path and flags, provided the fields contain no separator and no blanks or quotes at
  their ends, and the date layout can be read back.
\<close>

theorem cookie_roundtrip:
  assumes "pair_ok \<lparr>Key = ckey c, Value = cvalue c\<rparr>" "value_ok (domain c)" "value_ok (cpath c)"
    and "expire c \<noteq> 0 \<Longrightarrow> value_ok (fmt (expire c)) \<and> prs (fmt (expire c)) = Some (expire c)"
  shows "\<exists>d. Cookie_ParseBytes prs (fst (Cookie_AppendBytes fmt [] c)) c0 = (None, d) \<and>
     ckey d = ckey c \<and> cvalue d = cvalue c \<and> expire d = expire c \<and> domain d = domain c \<and> cpath d = cpath c \<and>
     httpOnly d = httpOnly c \<and> secure d = secure c"
proof -
  let ?kv = "\<lparr>Key = ckey c, Value = cvalue c\<rparr>"
  let ?s = "one (secure c) StrCookieSecure @ []"
  let ?h = "one (httpOnly c) StrCookieHTTPOnly @ ?s"
  let ?p = "one (cpath c \<noteq> []) (StrCookiePath @ 61 # cpath c) @ ?h"
  let ?d = "one (domain c \<noteq> []) (StrCookieDomain @ 61 # domain c) @ ?p"
  let ?e = "one (expire c \<noteq> 0) (StrCookieExpires @ 61 # fmt (expire c)) @ ?d"
  define c1 where "c1 = (Cookie_Reset c0)\<lparr>bufKV := ?kv, ckey := ckey c, cvalue := cvalue c\<rparr>"
  have 0: "fst (Cookie_AppendBytes fmt [] c) = print_cookie ?kv @ parts ?e"
    by (simp add: Cookie_AppendBytes_eq)
  note p = print_cookie_spec [OF assms(1)]
  have 1: "Cookie_ParseBytes prs (fst (Cookie_AppendBytes fmt [] c)) c0 = parse_attrs prs (drop 1 (parts ?e)) c1"
    unfolding 0 using next_parts [OF p(3,4), of ?e "bufKV (Cookie_Reset c0)"] p(1)
    by (simp add: Cookie_ParseBytes_def Let_def c1_def)
  obtain k1 where k1: "parse_attrs prs (drop 1 (parts ?e)) c1 = parse_attrs prs (drop 1 (parts ?d))
      (c1\<lparr>bufKV := k1, expire := if expire c \<noteq> 0 then expire c else expire c1\<rparr>)" (is "_ = parse_attrs _ _ ?c2")
    using read_expires [of "expire c \<noteq> 0" "fmt (expire c)" prs "expire c" ?d c1] assms(4) by blast
  obtain k2 where k2: "parse_attrs prs (drop 1 (parts ?d)) ?c2 = parse_attrs prs (drop 1 (parts ?p))
      (?c2\<lparr>bufKV := k2, domain := if domain c \<noteq> [] then domain c else domain ?c2\<rparr>)" (is "_ = parse_attrs _ _ ?c3")
    using read_domain [OF assms(2)] by blast
  obtain k3 where k3: "parse_attrs prs (drop 1 (parts ?p)) ?c3 = parse_attrs prs (drop 1 (parts ?h))
      (?c3\<lparr>bufKV := k3, cpath := if cpath c \<noteq> [] then cpath c else cpath ?c3\<rparr>)" (is "_ = parse_attrs _ _ ?c4")
    using read_path [OF assms(3)] by blast
  obtain k4 where k4: "parse_attrs prs (drop 1 (parts ?h)) ?c4 = parse_attrs prs (drop 1 (parts ?s))
      (?c4\<lparr>bufKV := k4, httpOnly := httpOnly c \<or> httpOnly ?c4\<rparr>)" (is "_ = parse_attrs _ _ ?c5")
    using read_httpOnly by blast
  obtain k5 where k5: "parse_attrs prs (drop 1 (parts ?s)) ?c5 = parse_attrs prs (drop 1 (parts []))
      (?c5\<lparr>bufKV := k5, secure := secure c \<or> secure ?c5\<rparr>)" (is "_ = parse_attrs _ _ ?c6")
    using read_secure by blast
  have "parse_attrs prs (drop 1 (parts [])) ?c6 = (None, ?c6)" by (subst parse_attrs.simps) (simp add: cookie_next_def)
  then have "Cookie_ParseBytes prs (fst (Cookie_AppendBytes fmt [] c)) c0 = (None, ?c6)"
    unfolding 1 k1 k2 k3 k4 k5 .
  then show ?thesis by (intro exI [of _ ?c6]) (simp add: c1_def Cookie_Reset_def zeroTime_def)
qed

theorem cookie_roundtrip_witness:
  "\<exists>d. Cookie_ParseBytes (\<lambda>v. if v = [77] then Some 7 else None)
       (fst (Cookie_AppendBytes (\<lambda>t. [77]) [] (SetExpire 7 (SetDomain [120] (SetValue [118] (SetKey [107] zeroCookie)))))) zeroCookie =
       (None, d) \<and> ckey d = [107] \<and> cvalue d = [118] \<and> expire d = 7 \<and> domain d = [120]"
  using cookie_roundtrip [of "SetExpire 7 (SetDomain [120] (SetValue [118] (SetKey [107] zeroCookie)))" "\<lambda>t. [77]"
      "\<lambda>v. if v = [77] then Some 7 else None" zeroCookie]
  by (auto simp: SetExpire_def SetDomain_def SetValue_def SetKey_def zeroCookie_def pair_ok_def value_ok_def trimmed_def)

text \<open>
  C36. Cookie header round trip: parsing what is printed for a list of cookies appends exactly these cookies, in order, to
  the slice, whatever its spare capacity held, and never panics.
\<close>

theorem request_cookies_roundtrip:
  assumes "\<forall>kv \<in> set cs. pair_ok kv"
  shows "\<exists>h'. parseRequestCookies h (appendRequestCookieBytes [] cs) = Inr h' \<and> live h' = live h @ cs"
proof -
  obtain x where x: "live (fst (AllocArg h)) = live h @ [x]" using AllocArg_live by blast
  have "\<exists>y. live (parseCookies_loop (fst (AllocArg h)) (appendRequestCookieBytes [] cs)) = live h @ cs @ [y]"
  proof (cases cs)
    case Nil
    then show ?thesis using x by (simp add: parseCookies_loop.simps cookie_next_def)
  next
    case (Cons kv cs')
    then have ok: "pair_ok kv" "\<forall>kv \<in> set cs'. pair_ok kv" using assms by simp_all
    note p = print_cookie_spec [OF ok(1)]
    obtain h' z where h': "parseCookies_loop (fst (AllocArg h)) (print_cookie kv @ parts (map print_cookie cs')) =
        parseCookies_loop h' (drop 1 (parts (map print_cookie cs')))" "live h' = (live h @ [kv]) @ [z]"
      using parseCookies_step [OF x, of "print_cookie kv" "map print_cookie cs'"] p by auto
    show ?thesis using parseCookies_parts [OF h'(2) ok(2)] h'(1)
      by (simp add: Cons appendRequestCookieBytes_eq del: appendRequestCookieBytes.simps)
  qed
  then obtain y where "live (parseCookies_loop (fst (AllocArg h)) (appendRequestCookieBytes [] cs)) = (live h @ cs) @ [y]" by auto
  then show ?thesis by (simp add: parseRequestCookies_def ReleaseArg_def butlast_append)
qed

theorem request_cookies_roundtrip_witness:
  "\<exists>h'. parseRequestCookies \<lparr>live = [], spare = []\<rparr>
      (appendRequestCookieBytes [] [\<lparr>Key = [97], Value = [49]\<rparr>, \<lparr>Key = [], Value = [98]\<rparr>]) = Inr h' \<and>
    live h' = [\<lparr>Key = [97], Value = [49]\<rparr>, \<lparr>Key = [], Value = [98]\<rparr>]"
  using request_cookies_roundtrip [of "[\<lparr>Key = [97], Value = [49]\<rparr>, \<lparr>Key = [], Value = [98]\<rparr>]" "\<lparr>live = [], spare = []\<rparr>"]
  by (simp add: pair_ok_def value_ok_def trimmed_def)

end
