(* ===== verification/Http_Scan.thy ===== *)
theory Http_Scan
  imports Http_Cookie
begin

text \<open>
  The lexical level of \<open>pkg/protocol/http/v1/header.go\<close>, shared by requests and responses: header names and their
  canonical form, the scanner of header lines, the scanner of comma-separated values, lines, raw header blocks and the
  content length; with the strings of \<open>strings.go\<close> they use.

  The scanner turns a name into its canonical form inside the buffer it reads. The rewritten bytes are read again only
  when an incomplete block is parsed once more after more data arrived, and the canonical form is a fixed point, so the
  model hands out the canonical name and leaves the buffer as it is.
\<close>

section \<open>Strings\<close>

definition StrCRLF :: bytes where "StrCRLF = [13, 10]"
definition StrHTTP11 :: bytes where "StrHTTP11 = [72, 84, 84, 80, 47, 49, 46, 49]"
definition StrColonSpace :: bytes where "StrColonSpace = [58, 32]"
definition StrGet :: bytes where "StrGet = [71, 69, 84]"
definition StrHead :: bytes where "StrHead = [72, 69, 65, 68]"
definition StrPost :: bytes where "StrPost = [80, 79, 83, 84]"
definition StrPut :: bytes where "StrPut = [80, 85, 84]"
definition StrDelete :: bytes where "StrDelete = [68, 69, 76, 69, 84, 69]"
definition StrConnection :: bytes where "StrConnection = [67, 111, 110, 110, 101, 99, 116, 105, 111, 110]"
definition StrContentLength :: bytes where "StrContentLength = [67, 111, 110, 116, 101, 110, 116, 45, 76, 101, 110, 103, 116, 104]"
definition StrContentType :: bytes where "StrContentType = [67, 111, 110, 116, 101, 110, 116, 45, 84, 121, 112, 101]"
definition StrDate :: bytes where "StrDate = [68, 97, 116, 101]"
definition StrHost :: bytes where "StrHost = [72, 111, 115, 116]"
definition StrReferer :: bytes where "StrReferer = [82, 101, 102, 101, 114, 101, 114]"
definition StrServer :: bytes where "StrServer = [83, 101, 114, 118, 101, 114]"
definition StrTransferEncoding :: bytes where "StrTransferEncoding = [84, 114, 97, 110, 115, 102, 101, 114, 45, 69, 110, 99, 111, 100, 105, 110, 103]"
definition StrAcceptEncoding :: bytes where "StrAcceptEncoding = [65, 99, 99, 101, 112, 116, 45, 69, 110, 99, 111, 100, 105, 110, 103]"
definition StrUserAgent :: bytes where "StrUserAgent = [85, 115, 101, 114, 45, 65, 103, 101, 110, 116]"
definition StrCookie :: bytes where "StrCookie = [67, 111, 111, 107, 105, 101]"
definition StrSetCookie :: bytes where "StrSetCookie = [83, 101, 116, 45, 67, 111, 111, 107, 105, 101]"
definition StrLastModified :: bytes where "StrLastModified = [76, 97, 115, 116, 45, 77, 111, 100, 105, 102, 105, 101, 100]"
definition StrRange :: bytes where "StrRange = [82, 97, 110, 103, 101]"
definition StrContentRange :: bytes where "StrContentRange = [67, 111, 110, 116, 101, 110, 116, 45, 82, 97, 110, 103, 101]"
definition StrClose :: bytes where "StrClose = [99, 108, 111, 115, 101]"
definition StrKeepAlive :: bytes where "StrKeepAlive = [107, 101, 101, 112, 45, 97, 108, 105, 118, 101]"
definition StrKeepAliveCamelCase :: bytes where "StrKeepAliveCamelCase = [75, 101, 101, 112, 45, 65, 108, 105, 118, 101]"
definition StrUpgrade :: bytes where "StrUpgrade = [85, 112, 103, 114, 97, 100, 101]"
definition StrChunked :: bytes where "StrChunked = [99, 104, 117, 110, 107, 101, 100]"
definition StrIdentity :: bytes where "StrIdentity = [105, 100, 101, 110, 116, 105, 116, 121]"
definition StrPostArgsContentType :: bytes where "StrPostArgsContentType = [97, 112, 112, 108, 105, 99, 97, 116, 105, 111, 110, 47, 120, 45, 119, 119, 119, 45, 102, 111, 114, 109, 45, 117, 114, 108, 101, 110, 99, 111, 100, 101, 100]"
definition StrMultipartFormData :: bytes where "StrMultipartFormData = [109, 117, 108, 116, 105, 112, 97, 114, 116, 47, 102, 111, 114, 109, 45, 100, 97, 116, 97]"
definition StrBoundary :: bytes where "StrBoundary = [98, 111, 117, 110, 100, 97, 114, 121]"
definition StrBytes :: bytes where "StrBytes = [98, 121, 116, 101, 115]"
definition StrTextSlash :: bytes where "StrTextSlash = [116, 101, 120, 116, 47]"
definition StrApplicationSlash :: bytes where "StrApplicationSlash = [97, 112, 112, 108, 105, 99, 97, 116, 105, 111, 110, 47]"
definition defaultServerName :: bytes where "defaultServerName = [115, 116, 114, 105, 107, 101]"
definition defaultUserAgent :: bytes where "defaultUserAgent = [115, 116, 114, 105, 107, 101]"
definition defaultContentType :: bytes where "defaultContentType = [116, 101, 120, 116, 47, 112, 108, 97, 105, 110, 59, 32, 99, 104, 97, 114, 115, 101, 116, 61, 117, 116, 102, 45, 56]"

lemmas header_strings =
  StrCRLF_def StrHTTP11_def StrColonSpace_def StrGet_def StrHead_def StrPost_def StrPut_def StrDelete_def
  StrConnection_def StrContentLength_def StrContentType_def StrDate_def StrHost_def StrReferer_def StrServer_def
  StrTransferEncoding_def StrAcceptEncoding_def StrUserAgent_def StrCookie_def StrSetCookie_def StrLastModified_def
  StrRange_def StrContentRange_def StrClose_def StrKeepAlive_def StrKeepAliveCamelCase_def StrUpgrade_def
  StrChunked_def StrIdentity_def StrPostArgsContentType_def StrMultipartFormData_def StrBoundary_def StrBytes_def
  StrTextSlash_def StrApplicationSlash_def defaultServerName_def defaultUserAgent_def defaultContentType_def

datatype header_error =
  ErrNeedMore | ErrNoWhitespace | ErrStatusCode conv_error | ErrStatusEnd | ErrNoMethod | ErrEmptyURI |
  ErrUint conv_error | ErrContentLengthChars | ErrHeaderEOF | ErrSmallBuffer | ErrHeaders header_error

text \<open>Sequencing of computations that may panic.\<close>

definition go_then :: "'a go \<Rightarrow> ('a \<Rightarrow> 'b go) \<Rightarrow> 'b go" where
  "go_then m f = (case m of Inl e \<Rightarrow> Inl e | Inr x \<Rightarrow> f x)"

lemma go_then_simps [simp]: "go_then (Inr x) f = f x" "go_then (Inl e) f = Inl e"
  by (simp_all add: go_then_def)

section \<open>Names\<close>

text \<open>The loop of \<open>normalizeHeaderKey\<close> from the second byte on; the byte after a hyphen is not tested for a hyphen.\<close>

fun normalize_rest :: "bytes \<Rightarrow> bytes" where
  "normalize_rest [] = []"
| "normalize_rest [c] = (if c = 45 then [c] else [ToLowerTable c])"
| "normalize_rest (c # d # b) =
     (if c = 45 then c # ToUpperTable d # normalize_rest b else ToLowerTable c # normalize_rest (d # b))"

definition normalizeHeaderKey :: "bytes \<Rightarrow> bool \<Rightarrow> bytes" where
  "normalizeHeaderKey b disableNormalizing =
     (if disableNormalizing then b else case b of [] \<Rightarrow> [] | c # b' \<Rightarrow> ToUpperTable c # normalize_rest b')"

definition getHeaderKeyBytes :: "ArgsKV \<Rightarrow> bytes \<Rightarrow> bool \<Rightarrow> bytes \<times> ArgsKV" where
  "getHeaderKeyBytes kv key disableNormalizing =
     (let k = normalizeHeaderKey key disableNormalizing in (k, kv\<lparr>Key := k\<rparr>))"

definition initHeaderKV :: "ArgsKV \<Rightarrow> bytes \<Rightarrow> bytes \<Rightarrow> bool \<Rightarrow> ArgsKV" where
  "initHeaderKV kv key val disableNormalizing =
     (case getHeaderKeyBytes kv key disableNormalizing of (k, kv) \<Rightarrow> kv\<lparr>Key := k, Value := val\<rparr>)"

definition AppendNormalizedHeaderKey :: "bytes \<Rightarrow> bytes \<Rightarrow> bytes" where
  "AppendNormalizedHeaderKey dst key =
     (let dst = dst @ key; n = length dst - length key in take n dst @ normalizeHeaderKey (drop n dst) False)"

definition AppendNormalizedHeaderKeyBytes :: "bytes \<Rightarrow> bytes \<Rightarrow> bytes" where
  "AppendNormalizedHeaderKeyBytes dst key = AppendNormalizedHeaderKey dst key"

section \<open>Lines\<close>

definition rtrim :: "bytes \<Rightarrow> bytes" where "rtrim b = rev (dropWhile (\<lambda>c. c = 32) (rev b))"

definition drop_cr :: "bytes \<Rightarrow> bytes" where "drop_cr b = (if b \<noteq> [] \<and> last b = 13 then butlast b else b)"

definition nextLine :: "bytes \<Rightarrow> header_error + (bytes \<times> bytes)" where
  "nextLine b =
     (case bytes_IndexByte b 10 of
        None \<Rightarrow> Inl ErrNeedMore
      | Some nNext \<Rightarrow> Inr (drop_cr (take nNext b), drop (nNext + 1) b))"

definition appendHeaderLine :: "bytes \<Rightarrow> bytes \<Rightarrow> bytes \<Rightarrow> bytes" where
  "appendHeaderLine dst k v = dst @ k @ StrColonSpace @ v @ StrCRLF"

definition isOnlyCRLF :: "bytes \<Rightarrow> bool" where "isOnlyCRLF b = list_all (\<lambda>ch. ch = 13 \<or> ch = 10) b"

definition parseContentLength :: "bytes \<Rightarrow> int \<times> header_error option" where
  "parseContentLength b =
     (case ParseUintBuf b of
        (v, n, Some err) \<Rightarrow> (- 1, Some (ErrUint err))
      | (v, n, None) \<Rightarrow> if n \<noteq> length b then (- 1, Some ErrContentLengthChars) else (sint v, None))"

record headerScanner =
  sb :: bytes
  skey :: bytes
  svalue :: bytes
  serr :: "header_error option"
  sdis :: bool

text \<open>\<open>headerScanner.next\<close>: whether there is a line, and the scanner after it.\<close>

definition header_next :: "headerScanner \<Rightarrow> bool \<times> headerScanner" where
  "header_next s =
     (if prefix [13, 10] (sb s) then (False, s\<lparr>sb := drop 2 (sb s)\<rparr>)
      else if prefix [10] (sb s) then (False, s\<lparr>sb := drop 1 (sb s)\<rparr>)
      else case bytes_IndexByte (sb s) 58 of
             None \<Rightarrow> (False, s\<lparr>serr := Some ErrNeedMore\<rparr>)
           | Some n \<Rightarrow>
               let s = s\<lparr>skey := normalizeHeaderKey (take n (sb s)) (sdis s),
                         sb := dropWhile (\<lambda>c. c = 32) (drop (n + 1) (sb s))\<rparr>
               in case bytes_IndexByte (sb s) 10 of
                    None \<Rightarrow> (False, s\<lparr>serr := Some ErrNeedMore\<rparr>)
                  | Some n \<Rightarrow> (True, s\<lparr>svalue := rtrim (drop_cr (take n (sb s))), sb := drop (n + 1) (sb s)\<rparr>))"

section \<open>Values\<close>

definition stripSpace :: "bytes \<Rightarrow> bytes" where "stripSpace b = rtrim (dropWhile (\<lambda>c. c = 32) b)"

text \<open>\<open>headerValueScanner.next\<close>: the value and the bytes left.\<close>

definition value_next :: "bytes \<Rightarrow> (bytes \<times> bytes) option" where
  "value_next b =
     (if length b = 0 then None
      else case bytes_IndexByte b 44 of
             None \<Rightarrow> Some (stripSpace b, [])
           | Some n \<Rightarrow> Some (stripSpace (take n b), drop (n + 1) b))"

lemma value_next_shrinks: "value_next b = Some (v, b') \<Longrightarrow> length b' < length b"
  by (auto simp: value_next_def split: if_splits option.splits)

function hasHeaderValue :: "bytes \<Rightarrow> bytes \<Rightarrow> bool" where
  "hasHeaderValue s val =
     (case value_next s of None \<Rightarrow> False | Some (v, s') \<Rightarrow> if v = val then True else hasHeaderValue s' val)"
  by pat_completeness auto
termination
  by (relation "measure (\<lambda>(s, val). length s)") (auto dest: value_next_shrinks)

declare hasHeaderValue.simps [simp del]

section \<open>Raw header blocks\<close>

text \<open>\<open>peekRawHeader\<close>: \<open>None\<close> is nil; the second index expression is not guarded and panics at the end of the buffer.\<close>

definition peekRawHeader :: "bytes \<Rightarrow> bytes \<Rightarrow> bytes option go" where
  "peekRawHeader buf key =
     (case bytes_Index buf key of
        None \<Rightarrow> Inr None
      | Some n \<Rightarrow>
          if n > 0 \<and> buf ! (n - 1) \<noteq> 10 then Inr None
          else let n = n + length key in
            if n \<ge> length buf then Inr None
            else if buf ! n \<noteq> 58 then Inr None
            else let n = n + 1 in
              if n \<ge> length buf then Inl (PanicRuntime IndexRange)
              else if buf ! n \<noteq> 32 then Inr None
              else let buf = drop (n + 1) buf in
                case bytes_IndexByte buf 10 of None \<Rightarrow> Inr None | Some n \<Rightarrow> Inr (Some (drop_cr (take n buf))))"

text \<open>The loop of \<open>readRawHeaders\<close> at a line start \<open>b\<close>, \<open>n\<close> bytes into the buffer: the length of the block.\<close>

function rawHeaders_loop :: "bytes \<Rightarrow> nat \<Rightarrow> nat option" where
  "rawHeaders_loop b n =
     (case bytes_IndexByte b 10 of
        None \<Rightarrow> None
      | Some k \<Rightarrow>
          let m = k + 1; n = n + m in
          if m = 2 \<and> hd b = 13 \<or> m = 1 then Some n else rawHeaders_loop (drop m b) n)"
  by pat_completeness auto
termination
  by (relation "measure (\<lambda>(b, n). length b)") (auto simp: IndexByte_Some)

declare rawHeaders_loop.simps [simp del]

definition readRawHeaders :: "bytes \<Rightarrow> bytes \<Rightarrow> header_error + (bytes \<times> nat)" where
  "readRawHeaders dst buf =
     (case bytes_IndexByte buf 10 of
        None \<Rightarrow> Inl ErrNeedMore
      | Some n \<Rightarrow>
          if n = 1 \<and> hd buf = 13 \<or> n = 0 then Inr (dst, n + 1)
          else case rawHeaders_loop (drop (n + 1) buf) (n + 1) of
                 None \<Rightarrow> Inl ErrNeedMore
               | Some n \<Rightarrow> Inr (dst @ take n buf, n))"

text \<open>\<open>headerError\<close>, with the error of the reader; \<open>bufio.ErrBufferFull\<close> is \<open>ErrSmallBuffer\<close>.\<close>

definition headerError :: "header_error option \<Rightarrow> header_error \<Rightarrow> bytes \<Rightarrow> header_error" where
  "headerError err errParse b =
     (if errParse \<noteq> ErrNeedMore then ErrHeaders errParse
      else case err of
             None \<Rightarrow> ErrNeedMore
           | Some e \<Rightarrow>
               if isOnlyCRLF b then ErrHeaderEOF
               else if e \<noteq> ErrSmallBuffer then ErrHeaders e
               else ErrSmallBuffer)"

section \<open>Canonical names\<close>

lemma upper_letter:
  assumes "(65 :: byte) \<le> c" "c \<le> 90"
  shows "97 \<le> c + 32" "c + 32 \<le> 122" "\<not> c + 32 \<le> 90" "\<not> 97 \<le> c" "c \<noteq> 45" "c + 32 \<noteq> 45"
proof -
  have u: "unat (c + 32) = unat c + 32" using assms by (simp add: word_le_nat_alt unat_word_ariths)
  show "97 \<le> c + 32" "c + 32 \<le> 122" "\<not> c + 32 \<le> 90" "\<not> 97 \<le> c"
    using assms by (simp_all add: word_le_nat_alt u)
  show "c \<noteq> 45" using assms by auto
  show "c + 32 \<noteq> 45" using assms u by (auto simp: word_le_nat_alt)
qed

lemma lower_letter:
  assumes "(97 :: byte) \<le> c" "c \<le> 122"
  shows "65 \<le> c - 32" "c - 32 \<le> 90" "\<not> 97 \<le> c - 32" "\<not> c \<le> 90" "c \<noteq> 45" "c - 32 \<noteq> 45"
proof -
  have u: "unat (c - 32) = unat c - 32" using assms by (simp add: word_le_nat_alt unat_sub)
  show "65 \<le> c - 32" "c - 32 \<le> 90" "\<not> 97 \<le> c - 32" "\<not> c \<le> 90"
    using assms by (simp_all add: word_le_nat_alt u)
  show "c \<noteq> 45" using assms by auto
  show "c - 32 \<noteq> 45" using assms u by (auto simp: word_le_nat_alt)
qed

lemma ToUpper_ToLower: "ToUpperTable (ToLowerTable c) = ToUpperTable c" "ToUpperTable (ToUpperTable c) = ToUpperTable c"
  "ToLowerTable (ToUpperTable c) = ToLowerTable c" "ToLowerTable (ToLowerTable c) = ToLowerTable c"
  "ToLowerTable c = 45 \<longleftrightarrow> c = 45" "ToUpperTable c = 45 \<longleftrightarrow> c = 45"
  using upper_letter [of c] lower_letter [of c] by (auto simp: ToUpperTable_def ToLowerTable_def)

lemma normalize_rest_idem: "normalize_rest (normalize_rest b) = normalize_rest b"
proof (induction b rule: normalize_rest.induct)
  case (3 c d b)
  show ?case
  proof (cases "c = 45")
    case True
    then show ?thesis using 3(1) by (simp add: ToUpper_ToLower)
  next
    case False
    then show ?thesis using 3(2) by (cases b; cases "d = 45") (auto simp: ToUpper_ToLower)
  qed
qed (auto simp: ToUpper_ToLower)

lemma normalize_rest_lower: "normalize_rest (map ToLowerTable b) = normalize_rest b"
  by (induction b rule: normalize_rest.induct) (auto simp: ToUpper_ToLower)

lemma normalizeHeaderKey_idem: "normalizeHeaderKey (normalizeHeaderKey b d) d = normalizeHeaderKey b d"
  by (cases b) (auto simp: normalizeHeaderKey_def ToUpper_ToLower normalize_rest_idem)

lemma normalizeHeaderKey_lower: "normalizeHeaderKey (map ToLowerTable b) False = normalizeHeaderKey b False"
  by (cases b) (auto simp: normalizeHeaderKey_def ToUpper_ToLower normalize_rest_lower)

lemma normalizeHeaderKey_case:
  "map ToLowerTable a = map ToLowerTable b \<Longrightarrow> normalizeHeaderKey a False = normalizeHeaderKey b False"
  by (metis normalizeHeaderKey_lower)

lemma normalize_rest_lower_inv: "map ToLowerTable (normalize_rest b) = map ToLowerTable b"
  by (induction b rule: normalize_rest.induct) (auto simp: ToUpper_ToLower)

lemma lower_normalizeHeaderKey: "map ToLowerTable (normalizeHeaderKey b d) = map ToLowerTable b"
  by (cases b) (auto simp: normalizeHeaderKey_def ToUpper_ToLower normalize_rest_lower_inv)

section \<open>Printed lines are scanned\<close>

definition line_ok :: "bytes \<Rightarrow> bytes \<Rightarrow> bool" where
  "line_ok k v \<longleftrightarrow> k \<noteq> [] \<and> 58 \<notin> set k \<and> 10 \<notin> set k \<and> 10 \<notin> set v \<and> (v \<noteq> [] \<longrightarrow> hd v \<noteq> 32 \<and> last v \<noteq> 32)"

lemma rtrim_ok: "(v \<noteq> [] \<longrightarrow> last v \<noteq> 32) \<Longrightarrow> rtrim v = v"
  by (cases v rule: rev_cases) (auto simp: rtrim_def)

lemma header_next_line:
  assumes "line_ok k v" "sb s = appendHeaderLine [] k v @ r"
  shows "header_next s = (True, s\<lparr>skey := normalizeHeaderKey k (sdis s), svalue := v, sb := r\<rparr>)"
proof -
  have b: "sb s = k @ 58 # 32 # v @ 13 # 10 # r"
    using assms(2) by (simp add: appendHeaderLine_def StrColonSpace_def StrCRLF_def)
  have k: "k \<noteq> []" "58 \<notin> set k" "10 \<notin> set k" using assms(1) by (auto simp: line_ok_def)
  have np: "\<not> prefix [13, 10] (sb s)" "\<not> prefix [10] (sb s)"
    using k unfolding b by (cases k; cases "tl k"; auto)+
  have i: "bytes_IndexByte (sb s) 58 = Some (length k)" unfolding b using k by simp
  have d: "dropWhile (\<lambda>c. c = 32) (32 # v @ 13 # 10 # r) = v @ 13 # 10 # r"
    using assms(1) by (cases v) (auto simp: line_ok_def)
  have j: "bytes_IndexByte (v @ 13 # 10 # r) 10 = Some (length v + 1)"
    using IndexByte_append [of 10 "v @ [13]" r] assms(1) by (auto simp: line_ok_def)
  have t: "rtrim (drop_cr (v @ [13])) = v" using assms(1) by (simp add: drop_cr_def rtrim_ok line_ok_def)
  show ?thesis
    unfolding header_next_def using np i d j t by (simp add: Let_def b)
qed

lemma header_next_end: "sb s = StrCRLF @ r \<Longrightarrow> header_next s = (False, s\<lparr>sb := r\<rparr>)"
  by (simp add: header_next_def StrCRLF_def)

lemma header_next_shrinks: "header_next s = (True, s') \<Longrightarrow> length (sb s') < length (sb s)"
proof -
  assume a: "header_next s = (True, s')"
  then obtain n k where n: "bytes_IndexByte (sb s) 58 = Some n"
    and k: "sb s' = drop k (dropWhile (\<lambda>c. c = 32) (drop (n + 1) (sb s)))"
    by (auto simp: header_next_def Let_def split: if_splits option.splits)
  have "n < length (sb s)" using n by (auto simp: IndexByte_Some)
  moreover have "length (dropWhile (\<lambda>c. c = 32) (drop (n + 1) (sb s))) \<le> length (sb s) - (n + 1)"
    using length_dropWhile_le [of "\<lambda>c. c = 32" "drop (n + 1) (sb s)"] by simp
  ultimately show ?thesis unfolding k by simp
qed

end
