(* ===== verification/Http_Request.thy ===== *)
theory Http_Request
  imports Http_Scan
begin

text \<open>
  The header of an HTTP request, the \<open>RequestHeader\<close> half of \<open>pkg/protocol/http/v1/header.go\<close>.

  The record has the fields of the struct with the prefix \<open>rq_\<close>. A method takes the header and returns it changed; one
  that can panic (a negative number printed, the unguarded index of \<open>peekRawHeader\<close>) returns a \<open>go\<close> value. The headers of
  a request without a body are kept as bytes and parsed by the first method that needs them: \<open>parseRawHeaders\<close>.
\<close>

record RequestHeader =
  rq_disableNormalizing :: bool
  rq_noHTTP11 :: bool
  rq_connectionClose :: bool
  rq_isGet :: bool
  rq_cookiesCollected :: bool
  rq_rawHeadersParsed :: bool
  rq_contentLength :: int
  rq_contentLengthBytes :: bytes
  rq_method :: bytes
  rq_requestURI :: bytes
  rq_host :: bytes
  rq_contentType :: bytes
  rq_userAgent :: bytes
  rq_h :: kvs
  rq_bufKV :: ArgsKV
  rq_cookies :: kvs
  rq_rawHeaders :: bytes

definition zeroRequest :: RequestHeader where
  "zeroRequest = \<lparr>rq_disableNormalizing = False, rq_noHTTP11 = False, rq_connectionClose = False, rq_isGet = False,
     rq_cookiesCollected = False, rq_rawHeadersParsed = False, rq_contentLength = 0, rq_contentLengthBytes = [],
     rq_method = [], rq_requestURI = [], rq_host = [], rq_contentType = [], rq_userAgent = [],
     rq_h = \<lparr>live = [], spare = []\<rparr>, rq_bufKV = zeroKV, rq_cookies = \<lparr>live = [], spare = []\<rparr>, rq_rawHeaders = []\<rparr>"

section \<open>The request line\<close>

definition Req_Method :: "RequestHeader \<Rightarrow> bytes" where
  "Req_Method h = (if rq_method h = [] then StrGet else rq_method h)"
definition Req_SetMethod :: "bytes \<Rightarrow> RequestHeader \<Rightarrow> RequestHeader" where "Req_SetMethod v h = h\<lparr>rq_method := v\<rparr>"
definition Req_SetMethodBytes :: "bytes \<Rightarrow> RequestHeader \<Rightarrow> RequestHeader" where "Req_SetMethodBytes v h = h\<lparr>rq_method := v\<rparr>"
definition Req_RequestURI :: "RequestHeader \<Rightarrow> bytes" where
  "Req_RequestURI h = (if rq_requestURI h = [] then StrSlash else rq_requestURI h)"
definition Req_SetRequestURI :: "bytes \<Rightarrow> RequestHeader \<Rightarrow> RequestHeader" where
  "Req_SetRequestURI v h = h\<lparr>rq_requestURI := v\<rparr>"
definition Req_SetRequestURIBytes :: "bytes \<Rightarrow> RequestHeader \<Rightarrow> RequestHeader" where
  "Req_SetRequestURIBytes v h = h\<lparr>rq_requestURI := v\<rparr>"

text \<open>\<open>IsGet\<close> remembers a positive answer.\<close>

definition Req_IsGet :: "RequestHeader \<Rightarrow> bool \<times> RequestHeader" where
  "Req_IsGet h =
     (let h = (if \<not> rq_isGet h then h\<lparr>rq_isGet := (Req_Method h = StrGet)\<rparr> else h) in (rq_isGet h, h))"
definition Req_IsPost :: "RequestHeader \<Rightarrow> bool" where "Req_IsPost h \<longleftrightarrow> Req_Method h = StrPost"
definition Req_IsPut :: "RequestHeader \<Rightarrow> bool" where "Req_IsPut h \<longleftrightarrow> Req_Method h = StrPut"
definition Req_IsHead :: "RequestHeader \<Rightarrow> bool" where
  "Req_IsHead h = (if rq_isGet h then False else Req_Method h = StrHead)"
definition Req_IsDelete :: "RequestHeader \<Rightarrow> bool" where "Req_IsDelete h \<longleftrightarrow> Req_Method h = StrDelete"
definition Req_IsHTTP11 :: "RequestHeader \<Rightarrow> bool" where "Req_IsHTTP11 h \<longleftrightarrow> \<not> rq_noHTTP11 h"

definition Req_NoBody :: "RequestHeader \<Rightarrow> bool \<times> RequestHeader" where
  "Req_NoBody h = (case Req_IsGet h of (g, h) \<Rightarrow> if g then (True, h) else (Req_IsHead h, h))"

section \<open>Parsing\<close>

text \<open>The body of the loop of \<open>parseHeaders\<close>: what one header line does.\<close>

definition req_line :: "bytes \<Rightarrow> bytes \<Rightarrow> RequestHeader \<Rightarrow> RequestHeader" where
  "req_line k v h =
     (if k = StrHost then h\<lparr>rq_host := v\<rparr>
      else if k = StrUserAgent then h\<lparr>rq_userAgent := v\<rparr>
      else if k = StrContentType then h\<lparr>rq_contentType := v\<rparr>
      else if k = StrContentLength then
        (if rq_contentLength h \<noteq> - 1 then
           (case parseContentLength v of
              (n, Some err) \<Rightarrow> h\<lparr>rq_contentLength := - 2\<rparr>
            | (n, None) \<Rightarrow> h\<lparr>rq_contentLength := n, rq_contentLengthBytes := v\<rparr>)
         else h)
      else if k = StrTransferEncoding then
        (if v \<noteq> StrIdentity
         then h\<lparr>rq_contentLength := - 1, rq_h := SetArgBytes (rq_h h) StrTransferEncoding StrChunked\<rparr> else h)
      else if k = StrConnection then
        (if v = StrClose then h\<lparr>rq_connectionClose := True\<rparr>
         else h\<lparr>rq_connectionClose := False, rq_h := AppendArgBytes (rq_h h) k v\<rparr>)
      else h\<lparr>rq_h := AppendArgBytes (rq_h h) k v\<rparr>)"

function req_parse_loop :: "headerScanner \<Rightarrow> RequestHeader \<Rightarrow> headerScanner \<times> RequestHeader" where
  "req_parse_loop s h =
     (case header_next s of
        (ok, s') \<Rightarrow> if ok then req_parse_loop s' (req_line (skey s') (svalue s') h) else (s', h))"
  by pat_completeness auto
termination
  by (relation "measure (\<lambda>(s, h). length (sb s))") (auto dest: header_next_shrinks [OF sym])

declare req_parse_loop.simps [simp del]

definition Req_parseHeaders :: "bytes \<Rightarrow> RequestHeader \<Rightarrow> (header_error + nat) \<times> RequestHeader" where
  "Req_parseHeaders buf h =
     (let h = h\<lparr>rq_contentLength := - 2\<rparr>;
          s = \<lparr>sb = buf, skey = [], svalue = [], serr = None, sdis = rq_disableNormalizing h\<rparr>
      in case req_parse_loop s h of (s, h) \<Rightarrow>
           (case serr s of
              Some e \<Rightarrow> (Inl e, h\<lparr>rq_connectionClose := True\<rparr>)
            | None \<Rightarrow>
                let h = (if rq_contentLength h < 0 then h\<lparr>rq_contentLengthBytes := []\<rparr> else h) in
                case Req_NoBody h of (nb, h) \<Rightarrow>
                let h = (if nb then h\<lparr>rq_contentLength := 0, rq_contentLengthBytes := []\<rparr> else h);
                    h = (if rq_noHTTP11 h \<and> \<not> rq_connectionClose h
                         then let v = (case PeekArgBytes (live (rq_h h)) StrConnection of None \<Rightarrow> [] | Some v \<Rightarrow> v)
                              in h\<lparr>rq_connectionClose := \<not> hasHeaderValue v StrKeepAlive \<and> \<not> hasHeaderValue v StrKeepAliveCamelCase\<rparr>
                         else h)
                in (Inr (length buf - length (sb s)), h)))"

definition Req_parseRawHeaders :: "RequestHeader \<Rightarrow> RequestHeader" where
  "Req_parseRawHeaders h =
     (if rq_rawHeadersParsed h then h
      else let h = h\<lparr>rq_rawHeadersParsed := True\<rparr> in
           if rq_rawHeaders h = [] then h else snd (Req_parseHeaders (rq_rawHeaders h) h))"

text \<open>The loop at the start of \<open>parseFirstLine\<close>: the first line that is not empty, and what follows it.\<close>

lemma nextLine_shrinks: "nextLine b = Inr (l, b') \<Longrightarrow> length b' < length b"
  by (auto simp: nextLine_def IndexByte_Some split: option.splits)

function first_line :: "bytes \<Rightarrow> header_error + (bytes \<times> bytes)" where
  "first_line bNext =
     (case nextLine bNext of Inl e \<Rightarrow> Inl e | Inr (b, bNext') \<Rightarrow> if b = [] then first_line bNext' else Inr (b, bNext'))"
  by pat_completeness auto
termination
  by (relation "measure length") (auto dest: nextLine_shrinks)

declare first_line.simps [simp del]

definition Req_parseFirstLine :: "bytes \<Rightarrow> RequestHeader \<Rightarrow> (header_error + nat) \<times> RequestHeader" where
  "Req_parseFirstLine buf h =
     (case first_line buf of
        Inl e \<Rightarrow> (Inl e, h)
      | Inr (b, bNext) \<Rightarrow>
          (case bytes_IndexByte b 32 of
             None \<Rightarrow> (Inl ErrNoMethod, h)
           | Some n \<Rightarrow>
               if n = 0 then (Inl ErrNoMethod, h)
               else
                 let h = h\<lparr>rq_method := take n b\<rparr>; b = drop (n + 1) b in
                 case bytes_LastIndexByte b 32 of
                   None \<Rightarrow> (Inr (length buf - length bNext), h\<lparr>rq_noHTTP11 := True, rq_requestURI := b\<rparr>)
                 | Some n \<Rightarrow>
                     if n = 0 then (Inl ErrEmptyURI, h)
                     else let h = (if drop (n + 1) b \<noteq> StrHTTP11 then h\<lparr>rq_noHTTP11 := True\<rparr> else h)
                          in (Inr (length buf - length bNext), h\<lparr>rq_requestURI := take n b\<rparr>)))"

definition Req_Parse :: "bytes \<Rightarrow> RequestHeader \<Rightarrow> (header_error + nat) \<times> RequestHeader" where
  "Req_Parse buf h =
     (case Req_parseFirstLine buf h of
        (Inl e, h) \<Rightarrow> (Inl e, h)
      | (Inr m, h) \<Rightarrow>
          (case Req_NoBody h of (nb, h) \<Rightarrow>
             if \<not> nb \<or> rq_noHTTP11 h
             then (case Req_parseHeaders (drop m buf) h of
                     (Inl e, h) \<Rightarrow> (Inl e, h)
                   | (Inr n, h) \<Rightarrow> (Inr (m + n), h\<lparr>rq_rawHeadersParsed := True\<rparr>))
             else (case readRawHeaders [] (drop m buf) of
                     Inl e \<Rightarrow> (Inl e, h)
                   | Inr (raw, n) \<Rightarrow> (Inr (m + n), h\<lparr>rq_rawHeaders := raw\<rparr>))))"

section \<open>Cookies\<close>

text \<open>The loop of \<open>collectCookies\<close>: a Cookie header is parsed and moved behind the end; the index stays.\<close>

function collect_loop :: "nat \<Rightarrow> RequestHeader \<Rightarrow> RequestHeader go" where
  "collect_loop i h =
     (if i < length (live (rq_h h)) then
        (let kv = live (rq_h h) ! i in
         if Key kv = StrCookie then
           (case parseRequestCookies (rq_cookies h) (Value kv) of
              Inl e \<Rightarrow> Inl e
            | Inr cs \<Rightarrow>
                collect_loop i (h\<lparr>rq_cookies := cs,
                  rq_h := \<lparr>live = take i (live (rq_h h)) @ drop (i + 1) (live (rq_h h)), spare = kv # spare (rq_h h)\<rparr>\<rparr>))
         else collect_loop (i + 1) h)
      else Inr h)"
  by pat_completeness auto
termination
  by (relation "measure (\<lambda>(i, h). length (live (rq_h h)) - i)") auto

declare collect_loop.simps [simp del]

definition Req_collectCookies :: "RequestHeader \<Rightarrow> RequestHeader go" where
  "Req_collectCookies h =
     (if rq_cookiesCollected h then Inr h
      else go_then (collect_loop 0 h) (\<lambda>h. Inr (h\<lparr>rq_cookiesCollected := True\<rparr>)))"

section \<open>Fields\<close>

definition Req_ConnectionClose :: "RequestHeader \<Rightarrow> bool \<times> RequestHeader" where
  "Req_ConnectionClose h = (let h = Req_parseRawHeaders h in (rq_connectionClose h, h))"
definition Req_connectionCloseFast :: "RequestHeader \<Rightarrow> bool" where "Req_connectionCloseFast h = rq_connectionClose h"
definition Req_SetConnectionClose :: "RequestHeader \<Rightarrow> RequestHeader" where
  "Req_SetConnectionClose h = h\<lparr>rq_connectionClose := True\<rparr>"
definition Req_ResetConnectionClose :: "RequestHeader \<Rightarrow> RequestHeader" where
  "Req_ResetConnectionClose h =
     (let h = Req_parseRawHeaders h in
      if rq_connectionClose h then h\<lparr>rq_connectionClose := False, rq_h := DelAllArgsBytes (rq_h h) StrConnection\<rparr> else h)"

definition Req_ContentLength :: "RequestHeader \<Rightarrow> int \<times> RequestHeader" where
  "Req_ContentLength h =
     (case Req_NoBody h of (nb, h) \<Rightarrow>
        if nb then (0, h) else let h = Req_parseRawHeaders h in (rq_contentLength h, h))"
definition Req_SetContentLength :: "int \<Rightarrow> RequestHeader \<Rightarrow> RequestHeader go" where
  "Req_SetContentLength contentLength h =
     (let h = (Req_parseRawHeaders h)\<lparr>rq_contentLength := contentLength\<rparr> in
      if contentLength \<ge> 0
      then go_then (AppendUint [] contentLength) (\<lambda>b.
             Inr (h\<lparr>rq_contentLengthBytes := b, rq_h := DelAllArgsBytes (rq_h h) StrTransferEncoding\<rparr>))
      else Inr (h\<lparr>rq_contentLengthBytes := [], rq_h := SetArgBytes (rq_h h) StrTransferEncoding StrChunked\<rparr>))"

definition Req_ContentType :: "RequestHeader \<Rightarrow> bytes \<times> RequestHeader" where
  "Req_ContentType h = (let h = Req_parseRawHeaders h in (rq_contentType h, h))"
definition Req_SetContentType :: "bytes \<Rightarrow> RequestHeader \<Rightarrow> RequestHeader" where
  "Req_SetContentType v h = (Req_parseRawHeaders h)\<lparr>rq_contentType := v\<rparr>"
definition Req_SetContentTypeBytes :: "bytes \<Rightarrow> RequestHeader \<Rightarrow> RequestHeader" where
  "Req_SetContentTypeBytes v h = (Req_parseRawHeaders h)\<lparr>rq_contentType := v\<rparr>"

definition Req_SetMultipartFormBoundary :: "bytes \<Rightarrow> RequestHeader \<Rightarrow> RequestHeader" where
  "Req_SetMultipartFormBoundary boundary h =
     (let h = Req_parseRawHeaders h;
          b = StrMultipartFormData @ [59, 32] @ StrBoundary @ [61] @ boundary;
          h = h\<lparr>rq_bufKV := (rq_bufKV h)\<lparr>Value := b\<rparr>\<rparr>
      in Req_SetContentTypeBytes (Value (rq_bufKV h)) h)"
definition Req_SetMultipartFormBoundaryBytes :: "bytes \<Rightarrow> RequestHeader \<Rightarrow> RequestHeader" where
  "Req_SetMultipartFormBoundaryBytes boundary h =
     (let h = Req_parseRawHeaders h;
          b = StrMultipartFormData @ [59, 32] @ StrBoundary @ [61] @ boundary;
          h = h\<lparr>rq_bufKV := (rq_bufKV h)\<lparr>Value := b\<rparr>\<rparr>
      in Req_SetContentTypeBytes (Value (rq_bufKV h)) h)"

lemma skip_shrinks: "b \<noteq> [] \<Longrightarrow> length (dropWhile (\<lambda>c. c = 32) (drop (Suc n) b)) < length b"
  using length_dropWhile_le [of "\<lambda>c. c = 32" "drop (Suc n) b"] by (cases b) auto

text \<open>The loop of \<open>MultipartFormBoundary\<close>, with the index \<open>n\<close> of the semicolon in \<open>b\<close>.\<close>

function boundary_loop :: "bytes \<Rightarrow> nat \<Rightarrow> bytes option" where
  "boundary_loop b n =
     (if length b > 0 then
        (let b' = dropWhile (\<lambda>c. c = 32) (drop (n + 1) b) in
         if \<not> prefix StrBoundary b' then
           (case bytes_IndexByte b' 59 of None \<Rightarrow> None | Some n' \<Rightarrow> boundary_loop b' n')
         else
           (let c = drop (length StrBoundary) b' in
            if c = [] \<or> hd c \<noteq> 61 then None
            else let c = tl c;
                     c = (case bytes_IndexByte c 59 of Some n \<Rightarrow> take n c | None \<Rightarrow> c)
                 in Some (if length c > 1 \<and> hd c = 34 \<and> last c = 34 then butlast (tl c) else c)))
      else None)"
  by pat_completeness auto
termination
  by (relation "measure (\<lambda>(b, n). length b)") (auto simp: skip_shrinks)

declare boundary_loop.simps [simp del]

definition Req_MultipartFormBoundary :: "RequestHeader \<Rightarrow> bytes option \<times> RequestHeader" where
  "Req_MultipartFormBoundary h =
     (case Req_ContentType h of (b, h) \<Rightarrow>
        (if \<not> prefix StrMultipartFormData b then None
         else let b = drop (length StrMultipartFormData) b in
              if b = [] \<or> hd b \<noteq> 59 then None else boundary_loop b 0, h))"

definition Req_Host :: "RequestHeader \<Rightarrow> (bytes \<times> RequestHeader) go" where
  "Req_Host h =
     (let slow = (let h = Req_parseRawHeaders h in Inr (rq_host h, h)) in
      if rq_host h \<noteq> [] then Inr (rq_host h, h)
      else if \<not> rq_rawHeadersParsed h then
        go_then (peekRawHeader (rq_rawHeaders h) StrHost) (\<lambda>r.
          case r of
            Some hst \<Rightarrow> if hst \<noteq> [] then Inr (hst, h\<lparr>rq_host := hst\<rparr>) else slow
          | None \<Rightarrow> slow)
      else slow)"
definition Req_SetHost :: "bytes \<Rightarrow> RequestHeader \<Rightarrow> RequestHeader" where
  "Req_SetHost v h = (Req_parseRawHeaders h)\<lparr>rq_host := v\<rparr>"
definition Req_SetHostBytes :: "bytes \<Rightarrow> RequestHeader \<Rightarrow> RequestHeader" where
  "Req_SetHostBytes v h = (Req_parseRawHeaders h)\<lparr>rq_host := v\<rparr>"

definition Req_UserAgent :: "RequestHeader \<Rightarrow> bytes \<times> RequestHeader" where
  "Req_UserAgent h = (let h = Req_parseRawHeaders h in (rq_userAgent h, h))"
definition Req_SetUserAgent :: "bytes \<Rightarrow> RequestHeader \<Rightarrow> RequestHeader" where
  "Req_SetUserAgent v h = (Req_parseRawHeaders h)\<lparr>rq_userAgent := v\<rparr>"
definition Req_SetUserAgentBytes :: "bytes \<Rightarrow> RequestHeader \<Rightarrow> RequestHeader" where
  "Req_SetUserAgentBytes v h = (Req_parseRawHeaders h)\<lparr>rq_userAgent := v\<rparr>"

definition Req_DisableNormalizing :: "RequestHeader \<Rightarrow> RequestHeader" where
  "Req_DisableNormalizing h = h\<lparr>rq_disableNormalizing := True\<rparr>"

definition Req_ResetSkipNormalize :: "RequestHeader \<Rightarrow> RequestHeader" where
  "Req_ResetSkipNormalize h = h\<lparr>rq_noHTTP11 := False, rq_connectionClose := False, rq_isGet := False,
     rq_contentLength := 0, rq_contentLengthBytes := [], rq_method := [], rq_requestURI := [], rq_host := [],
     rq_contentType := [], rq_userAgent := [], rq_h := resetArgs (rq_h h), rq_cookies := resetArgs (rq_cookies h),
     rq_cookiesCollected := False, rq_rawHeaders := [], rq_rawHeadersParsed := False\<rparr>"
definition Req_Reset :: "RequestHeader \<Rightarrow> RequestHeader" where
  "Req_Reset h = Req_ResetSkipNormalize (h\<lparr>rq_disableNormalizing := False\<rparr>)"

definition Req_CopyTo :: "RequestHeader \<Rightarrow> RequestHeader \<Rightarrow> RequestHeader" where
  "Req_CopyTo h dst =
     (let dst = Req_Reset dst in
      dst\<lparr>rq_disableNormalizing := rq_disableNormalizing h, rq_noHTTP11 := rq_noHTTP11 h,
        rq_connectionClose := rq_connectionClose h, rq_isGet := rq_isGet h, rq_contentLength := rq_contentLength h,
        rq_contentLengthBytes := rq_contentLengthBytes h, rq_method := rq_method h, rq_requestURI := rq_requestURI h,
        rq_host := rq_host h, rq_contentType := rq_contentType h, rq_userAgent := rq_userAgent h,
        rq_h := CopyArgs (rq_h dst) (live (rq_h h)), rq_cookies := CopyArgs (rq_cookies dst) (live (rq_cookies h)),
        rq_cookiesCollected := rq_cookiesCollected h, rq_rawHeaders := rq_rawHeaders h,
        rq_rawHeadersParsed := rq_rawHeadersParsed h\<rparr>)"

section \<open>Setting a header\<close>

definition Req_SetCanonical :: "bytes \<Rightarrow> bytes \<Rightarrow> RequestHeader \<Rightarrow> RequestHeader go" where
  "Req_SetCanonical k v h =
     (let h = Req_parseRawHeaders h in
      if k = StrHost then Inr (Req_SetHostBytes v h)
      else if k = StrContentType then Inr (Req_SetContentTypeBytes v h)
      else if k = StrUserAgent then Inr (Req_SetUserAgentBytes v h)
      else if k = StrCookie then
        go_then (Req_collectCookies h) (\<lambda>h. go_then (parseRequestCookies (rq_cookies h) v) (\<lambda>cs. Inr (h\<lparr>rq_cookies := cs\<rparr>)))
      else if k = StrContentLength then
        (case parseContentLength v of
           (n, None) \<Rightarrow> Inr (h\<lparr>rq_contentLength := n, rq_contentLengthBytes := v\<rparr>)
         | (n, Some err) \<Rightarrow> Inr h)
      else if k = StrConnection then
        (if v = StrClose then Inr (Req_SetConnectionClose h)
         else let h = Req_ResetConnectionClose h in Inr (h\<lparr>rq_h := SetArgBytes (rq_h h) k v\<rparr>))
      else if k = StrTransferEncoding then Inr h
      else Inr (h\<lparr>rq_h := SetArgBytes (rq_h h) k v\<rparr>))"

definition Req_SetByteRange :: "64 word \<Rightarrow> 64 word \<Rightarrow> RequestHeader \<Rightarrow> RequestHeader go" where
  "Req_SetByteRange startPos endPos h =
     (let h = Req_parseRawHeaders h;
          b = StrBytes @ [61];
          endPos = (if sint startPos \<ge> 0 then endPos else - startPos)
      in go_then (if sint startPos \<ge> 0 then AppendUint b (sint startPos) else Inr b) (\<lambda>b.
         let b = b @ [45] in
         go_then (if sint endPos \<ge> 0 then AppendUint b (sint endPos) else Inr b) (\<lambda>b.
         let h = h\<lparr>rq_bufKV := (rq_bufKV h)\<lparr>Value := b\<rparr>\<rparr> in Req_SetCanonical StrRange (Value (rq_bufKV h)) h)))"

definition Req_Set :: "bytes \<Rightarrow> bytes \<Rightarrow> RequestHeader \<Rightarrow> RequestHeader go" where
  "Req_Set k v h =
     (let h = h\<lparr>rq_bufKV := initHeaderKV (rq_bufKV h) k v (rq_disableNormalizing h)\<rparr> in
      Req_SetCanonical (Key (rq_bufKV h)) (Value (rq_bufKV h)) h)"
definition Req_SetBytesKV :: "bytes \<Rightarrow> bytes \<Rightarrow> RequestHeader \<Rightarrow> RequestHeader go" where
  "Req_SetBytesKV k v h =
     (let h = h\<lparr>rq_bufKV := (rq_bufKV h)\<lparr>Key := normalizeHeaderKey k (rq_disableNormalizing h)\<rparr>\<rparr> in
      Req_SetCanonical (Key (rq_bufKV h)) v h)"
definition Req_SetBytesK :: "bytes \<Rightarrow> bytes \<Rightarrow> RequestHeader \<Rightarrow> RequestHeader go" where
  "Req_SetBytesK k v h =
     (let h = h\<lparr>rq_bufKV := (rq_bufKV h)\<lparr>Value := v\<rparr>\<rparr> in Req_SetBytesKV k (Value (rq_bufKV h)) h)"
definition Req_SetBytesV :: "bytes \<Rightarrow> bytes \<Rightarrow> RequestHeader \<Rightarrow> RequestHeader go" where
  "Req_SetBytesV k v h =
     (case getHeaderKeyBytes (rq_bufKV h) k (rq_disableNormalizing h) of
        (k, kv) \<Rightarrow> Req_SetCanonical k v (h\<lparr>rq_bufKV := kv\<rparr>))"

definition Req_SetReferer :: "bytes \<Rightarrow> RequestHeader \<Rightarrow> RequestHeader go" where
  "Req_SetReferer v h = Req_SetBytesK StrReferer v h"
definition Req_SetRefererBytes :: "bytes \<Rightarrow> RequestHeader \<Rightarrow> RequestHeader go" where
  "Req_SetRefererBytes v h = Req_SetCanonical StrReferer v h"

definition Req_Add :: "bytes \<Rightarrow> bytes \<Rightarrow> RequestHeader \<Rightarrow> RequestHeader" where
  "Req_Add k v h =
     (case getHeaderKeyBytes (rq_bufKV h) k (rq_disableNormalizing h) of
        (k, kv) \<Rightarrow> h\<lparr>rq_bufKV := kv, rq_h := AppendArg (rq_h h) k v\<rparr>)"
definition Req_AddBytesK :: "bytes \<Rightarrow> bytes \<Rightarrow> RequestHeader \<Rightarrow> RequestHeader" where "Req_AddBytesK k v h = Req_Add k v h"
definition Req_AddBytesV :: "bytes \<Rightarrow> bytes \<Rightarrow> RequestHeader \<Rightarrow> RequestHeader" where "Req_AddBytesV k v h = Req_Add k v h"
definition Req_AddBytesKV :: "bytes \<Rightarrow> bytes \<Rightarrow> RequestHeader \<Rightarrow> RequestHeader" where "Req_AddBytesKV k v h = Req_Add k v h"

definition Req_del :: "bytes \<Rightarrow> RequestHeader \<Rightarrow> RequestHeader" where
  "Req_del k h =
     (let h = (if k = StrHost then h\<lparr>rq_host := []\<rparr>
               else if k = StrContentType then h\<lparr>rq_contentType := []\<rparr>
               else if k = StrUserAgent then h\<lparr>rq_userAgent := []\<rparr>
               else if k = StrCookie then h\<lparr>rq_cookies := resetArgs (rq_cookies h)\<rparr>
               else if k = StrContentLength then h\<lparr>rq_contentLength := 0, rq_contentLengthBytes := []\<rparr>
               else if k = StrConnection then h\<lparr>rq_connectionClose := False\<rparr>
               else h)
      in h\<lparr>rq_h := DelAllArgsBytes (rq_h h) k\<rparr>)"
definition Req_Del :: "bytes \<Rightarrow> RequestHeader \<Rightarrow> RequestHeader" where
  "Req_Del k h =
     (let h = Req_parseRawHeaders h in
      case getHeaderKeyBytes (rq_bufKV h) k (rq_disableNormalizing h) of (k, kv) \<Rightarrow> Req_del k (h\<lparr>rq_bufKV := kv\<rparr>))"
definition Req_DelBytes :: "bytes \<Rightarrow> RequestHeader \<Rightarrow> RequestHeader" where
  "Req_DelBytes k h =
     (let h = Req_parseRawHeaders h;
          h = h\<lparr>rq_bufKV := (rq_bufKV h)\<lparr>Key := normalizeHeaderKey k (rq_disableNormalizing h)\<rparr>\<rparr>
      in Req_del (Key (rq_bufKV h)) h)"

definition Req_SetCookie :: "bytes \<Rightarrow> bytes \<Rightarrow> RequestHeader \<Rightarrow> RequestHeader go" where
  "Req_SetCookie k v h =
     go_then (Req_collectCookies (Req_parseRawHeaders h)) (\<lambda>h. Inr (h\<lparr>rq_cookies := SetArg (rq_cookies h) k v\<rparr>))"
definition Req_SetCookieBytesK :: "bytes \<Rightarrow> bytes \<Rightarrow> RequestHeader \<Rightarrow> RequestHeader go" where
  "Req_SetCookieBytesK k v h = Req_SetCookie k v h"
definition Req_SetCookieBytesKV :: "bytes \<Rightarrow> bytes \<Rightarrow> RequestHeader \<Rightarrow> RequestHeader go" where
  "Req_SetCookieBytesKV k v h = Req_SetCookie k v h"
definition Req_DelCookie :: "bytes \<Rightarrow> RequestHeader \<Rightarrow> RequestHeader go" where
  "Req_DelCookie k h =
     go_then (Req_collectCookies (Req_parseRawHeaders h)) (\<lambda>h. Inr (h\<lparr>rq_cookies := DelAllArgs (rq_cookies h) k\<rparr>))"
definition Req_DelCookieBytes :: "bytes \<Rightarrow> RequestHeader \<Rightarrow> RequestHeader go" where
  "Req_DelCookieBytes k h = Req_DelCookie k h"
definition Req_DelAllCookies :: "RequestHeader \<Rightarrow> RequestHeader go" where
  "Req_DelAllCookies h =
     go_then (Req_collectCookies (Req_parseRawHeaders h)) (\<lambda>h. Inr (h\<lparr>rq_cookies := resetArgs (rq_cookies h)\<rparr>))"

section \<open>Looking up\<close>

definition Req_peek :: "bytes \<Rightarrow> RequestHeader \<Rightarrow> (bytes option \<times> RequestHeader) go" where
  "Req_peek k h =
     (let h = Req_parseRawHeaders h in
      if k = StrHost then go_then (Req_Host h) (\<lambda>(v, h). Inr (Some v, h))
      else if k = StrContentType then (case Req_ContentType h of (v, h) \<Rightarrow> Inr (Some v, h))
      else if k = StrUserAgent then (case Req_UserAgent h of (v, h) \<Rightarrow> Inr (Some v, h))
      else if k = StrConnection then
        (case Req_ConnectionClose h of (c, h) \<Rightarrow> Inr (if c then Some StrClose else PeekArgBytes (live (rq_h h)) k, h))
      else if k = StrContentLength then Inr (Some (rq_contentLengthBytes h), h)
      else Inr (PeekArgBytes (live (rq_h h)) k, h))"
definition Req_Peek :: "bytes \<Rightarrow> RequestHeader \<Rightarrow> (bytes option \<times> RequestHeader) go" where
  "Req_Peek k h =
     (case getHeaderKeyBytes (rq_bufKV h) k (rq_disableNormalizing h) of (k, kv) \<Rightarrow> Req_peek k (h\<lparr>rq_bufKV := kv\<rparr>))"
definition Req_PeekBytes :: "bytes \<Rightarrow> RequestHeader \<Rightarrow> (bytes option \<times> RequestHeader) go" where
  "Req_PeekBytes k h =
     (let h = h\<lparr>rq_bufKV := (rq_bufKV h)\<lparr>Key := normalizeHeaderKey k (rq_disableNormalizing h)\<rparr>\<rparr> in
      Req_peek (Key (rq_bufKV h)) h)"
definition Req_Referer :: "RequestHeader \<Rightarrow> (bytes option \<times> RequestHeader) go" where
  "Req_Referer h = Req_PeekBytes StrReferer h"

definition Req_ConnectionUpgrade :: "RequestHeader \<Rightarrow> (bool \<times> RequestHeader) go" where
  "Req_ConnectionUpgrade h =
     go_then (Req_Peek StrConnection (Req_parseRawHeaders h)) (\<lambda>(v, h).
       Inr (hasHeaderValue (case v of None \<Rightarrow> [] | Some v \<Rightarrow> v) StrUpgrade, h))"

definition Req_HasAcceptEncodingBytes :: "bytes \<Rightarrow> RequestHeader \<Rightarrow> (bool \<times> RequestHeader) go" where
  "Req_HasAcceptEncodingBytes acceptEncoding h =
     go_then (Req_peek StrAcceptEncoding h) (\<lambda>(ae, h).
       let ae = (case ae of None \<Rightarrow> [] | Some v \<Rightarrow> v) in
       case bytes_Index ae acceptEncoding of
         None \<Rightarrow> Inr (False, h)
       | Some n \<Rightarrow>
           let b = drop (n + length acceptEncoding) ae in
           Inr (if b \<noteq> [] \<and> hd b \<noteq> 44 then False else if n = 0 then True else ae ! (n - 1) = 32, h))"
definition Req_HasAcceptEncoding :: "bytes \<Rightarrow> RequestHeader \<Rightarrow> (bool \<times> RequestHeader) go" where
  "Req_HasAcceptEncoding acceptEncoding h =
     (let h = h\<lparr>rq_bufKV := (rq_bufKV h)\<lparr>Value := acceptEncoding\<rparr>\<rparr> in Req_HasAcceptEncodingBytes (Value (rq_bufKV h)) h)"

definition Req_Cookie :: "bytes \<Rightarrow> RequestHeader \<Rightarrow> (bytes option \<times> RequestHeader) go" where
  "Req_Cookie k h =
     go_then (Req_collectCookies (Req_parseRawHeaders h)) (\<lambda>h. Inr (PeekArgStr (live (rq_cookies h)) k, h))"
definition Req_CookieBytes :: "bytes \<Rightarrow> RequestHeader \<Rightarrow> (bytes option \<times> RequestHeader) go" where
  "Req_CookieBytes k h =
     go_then (Req_collectCookies (Req_parseRawHeaders h)) (\<lambda>h. Inr (PeekArgBytes (live (rq_cookies h)) k, h))"

text \<open>The visitors call a function that changes a state of its own.\<close>

definition Req_VisitAllCookie :: "(bytes \<Rightarrow> bytes \<Rightarrow> 's \<Rightarrow> 's) \<Rightarrow> 's \<Rightarrow> RequestHeader \<Rightarrow> ('s \<times> RequestHeader) go" where
  "Req_VisitAllCookie f s h =
     go_then (Req_collectCookies (Req_parseRawHeaders h)) (\<lambda>h. Inr (VisitArgs (live (rq_cookies h)) f s, h))"

definition Req_VisitAll :: "(bytes \<Rightarrow> bytes \<Rightarrow> 's \<Rightarrow> 's) \<Rightarrow> 's \<Rightarrow> RequestHeader \<Rightarrow> ('s \<times> RequestHeader) go" where
  "Req_VisitAll f s h =
     go_then (Req_Host (Req_parseRawHeaders h)) (\<lambda>(hst, h).
       let s = (if hst \<noteq> [] then f StrHost hst s else s);
           s = (if rq_contentLengthBytes h \<noteq> [] then f StrContentLength (rq_contentLengthBytes h) s else s)
       in case Req_ContentType h of (contentType, h) \<Rightarrow>
       let s = (if contentType \<noteq> [] then f StrContentType contentType s else s) in
       case Req_UserAgent h of (userAgent, h) \<Rightarrow>
       let s = (if userAgent \<noteq> [] then f StrUserAgent userAgent s else s) in
       go_then (Req_collectCookies h) (\<lambda>h.
       let h = (if live (rq_cookies h) \<noteq> []
                then h\<lparr>rq_bufKV := (rq_bufKV h)\<lparr>Value := appendRequestCookieBytes [] (live (rq_cookies h))\<rparr>\<rparr> else h);
           s = (if live (rq_cookies h) \<noteq> [] then f StrCookie (Value (rq_bufKV h)) s else s);
           s = VisitArgs (live (rq_h h)) f s
       in case Req_ConnectionClose h of (c, h) \<Rightarrow> Inr (if c then f StrConnection StrClose s else s, h)))"

definition Req_Len :: "RequestHeader \<Rightarrow> (nat \<times> RequestHeader) go" where
  "Req_Len h = Req_VisitAll (\<lambda>k v n. n + 1) 0 h"

section \<open>Printing\<close>

definition Req_AppendBytes :: "bytes \<Rightarrow> RequestHeader \<Rightarrow> (bytes \<times> RequestHeader) go" where
  "Req_AppendBytes dst h =
     (let dst = dst @ Req_Method h @ [32] @ Req_RequestURI h @ [32] @ StrHTTP11 @ StrCRLF in
      if \<not> rq_rawHeadersParsed h \<and> rq_rawHeaders h \<noteq> [] then Inr (dst @ rq_rawHeaders h, h)
      else case Req_UserAgent h of (userAgent, h) \<Rightarrow>
        let userAgent = (if userAgent = [] then defaultUserAgent else userAgent);
            dst = appendHeaderLine dst StrUserAgent userAgent
        in go_then (Req_Host h) (\<lambda>(hst, h).
        let dst = (if hst \<noteq> [] then appendHeaderLine dst StrHost hst else dst) in
        case Req_ContentType h of (contentType, h) \<Rightarrow>
        case Req_NoBody h of (nb, h) \<Rightarrow>
        let dst = (if \<not> nb then
                     let contentType = (if contentType = [] then StrPostArgsContentType else contentType);
                         dst = appendHeaderLine dst StrContentType contentType
                     in if rq_contentLengthBytes h \<noteq> []
                        then appendHeaderLine dst StrContentLength (rq_contentLengthBytes h) else dst
                   else if contentType \<noteq> [] then appendHeaderLine dst StrContentType contentType
                   else dst);
            dst = foldl (\<lambda>dst kv. appendHeaderLine dst (Key kv) (Value kv)) dst (live (rq_h h));
            dst = (if live (rq_cookies h) \<noteq> []
                   then appendRequestCookieBytes (dst @ StrCookie @ StrColonSpace) (live (rq_cookies h)) @ StrCRLF else dst)
        in case Req_ConnectionClose h of (c, h) \<Rightarrow>
        let dst = (if c then appendHeaderLine dst StrConnection StrClose else dst) in Inr (dst @ StrCRLF, h)))"

definition Req_Header :: "RequestHeader \<Rightarrow> (bytes \<times> RequestHeader) go" where
  "Req_Header h =
     go_then (Req_AppendBytes [] h) (\<lambda>(b, h). Inr (b, h\<lparr>rq_bufKV := (rq_bufKV h)\<lparr>Value := b\<rparr>\<rparr>))"
definition Req_String :: "RequestHeader \<Rightarrow> (bytes \<times> RequestHeader) go" where "Req_String h = Req_Header h"

text \<open>\<open>w\<close> is the \<open>Write\<close> method of the writer.\<close>

definition Req_WriteTo ::
  "(bytes \<Rightarrow> nat \<times> go_error option) \<Rightarrow> RequestHeader \<Rightarrow> ((nat \<times> go_error option) \<times> RequestHeader) go" where
  "Req_WriteTo w h = go_then (Req_Header h) (\<lambda>(b, h). Inr (w b, h))"
definition Req_Write ::
  "(bytes \<Rightarrow> nat \<times> go_error option) \<Rightarrow> RequestHeader \<Rightarrow> (go_error option \<times> RequestHeader) go" where
  "Req_Write w h = go_then (Req_Header h) (\<lambda>(b, h). Inr (snd (w b), h))"

end
