(* ===== verification/Header_Loop.thy ===== *)
theory Header_Loop
  imports Http_Scan
begin

text \<open>
  The loop that both \<open>parseHeaders\<close> methods of \<open>pkg/protocol/http/v1/header.go\<close> run over the header scanner.

  The locale \<open>header_loop\<close> holds the loop with what it does of a line: it takes printed lines one by one, is not affected by
  bytes behind a complete header, and keeps what its lines keep. The request and the response header are its instances.
\<close>

section \<open>The scanner with more bytes\<close>

lemma header_next_more:
  assumes "header_next s = (ok, s')" "ok \<or> serr s' = None"
  shows "header_next (s\<lparr>sb := sb s @ m\<rparr>) = (ok, s'\<lparr>sb := sb s' @ m\<rparr>)"
proof -
  consider "prefix [13, 10] (sb s)" | "prefix [10] (sb s)" | "\<not> prefix [13, 10] (sb s)" "\<not> prefix [10] (sb s)" by blast
  then show ?thesis
  proof cases
    case 1
    then obtain t where "sb s = 13 # 10 # t" by (auto simp: prefix_def)
    then show ?thesis using assms by (auto simp: header_next_def)
  next
    case 2
    then obtain t where "sb s = 10 # t" by (auto simp: prefix_def)
    then show ?thesis using assms by (auto simp: header_next_def)
  next
    case 3
    obtain n where n: "bytes_IndexByte (sb s) 58 = Some n"
      using assms 3 by (auto simp: header_next_def split: option.splits)
    obtain u v where uv: "sb s = u @ 58 # v" "length u = n" "58 \<notin> set u" using n by (auto simp: IndexByte_Some)
    define r where "r = dropWhile (\<lambda>c. c = 32) v"
    obtain k where k: "bytes_IndexByte r 10 = Some k"
      using assms 3 n uv by (auto simp: header_next_def Let_def r_def split: option.splits)
    obtain x y where xy: "r = x @ 10 # y" "length x = k" "10 \<notin> set x" using k by (auto simp: IndexByte_Some)
    have "\<not> (\<forall>c \<in> set v. c = 32)"
    proof
      assume "\<forall>c \<in> set v. c = 32"
      then have "r = []" by (simp add: r_def)
      then show False using xy by simp
    qed
    then have r': "dropWhile (\<lambda>c. c = 32) (v @ m) = r @ m" unfolding r_def by (auto simp: dropWhile_append)
    have np: "\<not> prefix [13, 10] (sb s @ m)" "\<not> prefix [10] (sb s @ m)"
      using 3 uv(1) by (cases u; cases "tl u"; auto)+
    show ?thesis
      using assms 3 np uv xy r' by (auto simp: header_next_def Let_def r_def [symmetric])
  qed
qed

lemma header_next_keeps: "header_next s = (ok, s') \<Longrightarrow> sdis s' = sdis s \<and> length (sb s') \<le> length (sb s) \<and> (ok \<longrightarrow> serr s' = serr s)"
proof -
  have "length (dropWhile (\<lambda>c. c = 32) (drop n (sb s))) - k \<le> length (sb s)" for n k
    using length_dropWhile_le [of "\<lambda>c. c = 32" "drop n (sb s)"] by simp
  note this this [of _ 0, simplified]
  moreover assume "header_next s = (ok, s')"
  ultimately show ?thesis
    by (auto simp: header_next_def Let_def split: if_splits option.splits)
qed

section \<open>Printed lines\<close>

text \<open>The printed form of a list of lines; the parser runs through it line by line.\<close>

definition print_lines :: "(bytes \<times> bytes) list \<Rightarrow> bytes" where
  "print_lines ls = concat (map (\<lambda>(k, v). appendHeaderLine [] k v) ls)"

lemma print_lines_simps [simp]:
  "print_lines [] = []" "print_lines ((k, v) # ls) = appendHeaderLine [] k v @ print_lines ls"
  "print_lines (ls @ ls') = print_lines ls @ print_lines ls'"
  by (simp_all add: print_lines_def)

lemma appendHeaderLine_dst: "appendHeaderLine dst k v = dst @ appendHeaderLine [] k v"
  by (simp add: appendHeaderLine_def)

lemma foldl_lines: "foldl (\<lambda>dst kv. appendHeaderLine dst (Key kv) (Value kv)) dst l = dst @ print_lines (map (\<lambda>kv. (Key kv, Value kv)) l)"
proof (induction l arbitrary: dst)
  case (Cons kv l)
  then show ?case by (simp add: appendHeaderLine_dst [of dst])
qed simp

section \<open>The loop\<close>

locale header_loop =
  fixes line :: "bytes \<Rightarrow> bytes \<Rightarrow> 'h \<Rightarrow> 'h" and loop :: "headerScanner \<Rightarrow> 'h \<Rightarrow> headerScanner \<times> 'h"
  assumes loop_eq: "loop s h =
    (case header_next s of (ok, s') \<Rightarrow> if ok then loop s' (line (skey s') (svalue s') h) else (s', h))"
begin

lemma loop_induct [case_names step]:
  assumes "\<And>s h. (\<And>t. header_next s = (True, t) \<Longrightarrow> P t (line (skey t) (svalue t) h)) \<Longrightarrow> P s h"
  shows "P s h"
proof (induction "length (sb s)" arbitrary: s h rule: less_induct)
  case less
  show ?case by (rule assms, rule less.hyps, erule header_next_shrinks)
qed

lemma loop_more:
  "loop s h = (s', h') \<Longrightarrow> serr s' = None \<Longrightarrow> serr s = None \<Longrightarrow>
   loop (s\<lparr>sb := sb s @ m\<rparr>) h = (s'\<lparr>sb := sb s' @ m\<rparr>, h') \<and> length (sb s') \<le> length (sb s)"
proof (induction s h rule: loop_induct)
  case (step s h)
  obtain ok t where t: "header_next s = (ok, t)" by (cases "header_next s")
  note k = header_next_keeps [OF t]
  show ?case
  proof (cases ok)
    case True
    have "loop t (line (skey t) (svalue t) h) = (s', h')"
      using step(2) t True by (simp add: loop_eq [of s])
    with step(1) [of t] t k True step(3,4) show ?thesis
      using header_next_more [OF t, of m] by (simp add: loop_eq [of "s\<lparr>sb := sb s @ m\<rparr>"])
  next
    case False
    then have "s' = t" "h' = h" using step(2) t by (simp_all add: loop_eq [of s])
    then show ?thesis
      using k False header_next_more [OF t, of m] step(3) by (simp add: loop_eq [of "s\<lparr>sb := sb s @ m\<rparr>"])
  qed
qed

lemma loop_lines:
  "list_all (\<lambda>(k, v). line_ok k v) ls \<Longrightarrow> sb s = print_lines ls @ StrCRLF @ r \<Longrightarrow>
   \<exists>s'. loop s h = (s', fold (\<lambda>(k, v). line (normalizeHeaderKey k (sdis s)) v) ls h) \<and> sb s' = r \<and> serr s' = serr s"
proof (induction ls arbitrary: s h)
  case Nil
  then have "header_next s = (False, s\<lparr>sb := r\<rparr>)" by (intro header_next_end) simp
  then show ?case by (simp add: loop_eq [of s])
next
  case (Cons kv ls)
  obtain k v where kv: "kv = (k, v)" by fastforce
  let ?t = "s\<lparr>skey := normalizeHeaderKey k (sdis s), svalue := v, sb := print_lines ls @ StrCRLF @ r\<rparr>"
  have n: "header_next s = (True, ?t)" using Cons.prems by (intro header_next_line) (simp_all add: kv)
  obtain s' where "loop ?t (line (normalizeHeaderKey k (sdis s)) v h) =
      (s', fold (\<lambda>(k, v). line (normalizeHeaderKey k (sdis ?t)) v) ls (line (normalizeHeaderKey k (sdis s)) v h))"
    "sb s' = r" "serr s' = serr ?t"
    using Cons.IH [of ?t] Cons.prems by auto
  then show ?case using n by (intro exI [of _ s']) (simp add: kv loop_eq [of s])
qed

lemma loop_inv:
  "(\<And>k v h. normalizeHeaderKey k (sdis s) = k \<Longrightarrow> P h \<Longrightarrow> P (line k v h)) \<Longrightarrow> P h \<Longrightarrow> P (snd (loop s h))"
proof (induction s h rule: loop_induct)
  case (step s h)
  obtain ok t where t: "header_next s = (ok, t)" by (cases "header_next s")
  show ?case
  proof (cases ok)
    case True
    have "sdis t = sdis s" using header_next_keeps [OF t] by simp
    moreover have "normalizeHeaderKey (skey t) (sdis s) = skey t"
      using t True by (auto simp: header_next_def Let_def normalizeHeaderKey_idem split: if_splits option.splits)
    ultimately show ?thesis using step(1) [of t] step(2,3) t True by (simp add: loop_eq [of s])
  next
    case False
    then show ?thesis using step(3) t by (simp add: loop_eq [of s])
  qed
qed

end

end
