(* ===== verification/Request_Laws.thy ===== *)
theory Request_Laws
  imports Http_Request Header_Loop
begin

text \<open>
  Laws of the request header of \<open>Http_Request\<close>: parsing is stable under more input, printed headers are parsed back, a
  chunked body cannot be overridden by a content length, names are canonical and looked up without regard to case.
\<close>

interpretation req_loop: header_loop req_line req_parse_loop
  by unfold_locales (rule req_parse_loop.simps)

section \<open>A complete header is parsed regardless of what follows\<close>

lemma nextLine_more: "nextLine b = Inr (l, b') \<Longrightarrow> nextLine (b @ m) = Inr (l, b' @ m)"
proof -
  assume "nextLine b = Inr (l, b')"
  then obtain n where n: "bytes_IndexByte b 10 = Some n" "l = drop_cr (take n b)" "b' = drop (n + 1) b"
    by (auto simp: nextLine_def split: option.splits)
  then obtain u v where "b = u @ 10 # v" "length u = n" "10 \<notin> set u" by (auto simp: IndexByte_Some)
  then show ?thesis using n by (simp add: nextLine_def)
qed

lemma nextLine_suffix: "nextLine b = Inr (l, b') \<Longrightarrow> \<exists>n. b' = drop n b \<and> 0 < n \<and> n \<le> length b"
proof -
  assume "nextLine b = Inr (l, b')"
  then obtain n where n: "bytes_IndexByte b 10 = Some n" "b' = drop (n + 1) b"
    by (auto simp: nextLine_def split: option.splits)
  then have "n < length b" by (auto simp: IndexByte_Some)
  then show ?thesis using n by (intro exI [of _ "n + 1"]) auto
qed

lemma first_line_more:
  "first_line b = Inr (l, b') \<Longrightarrow> first_line (b @ m) = Inr (l, b' @ m) \<and> (\<exists>n. b' = drop n b \<and> n \<le> length b)"
proof (induction b rule: first_line.induct)
  case (1 b)
  then obtain x y where xy: "nextLine b = Inr (x, y)" by (subst (asm) first_line.simps) (auto split: sum.splits)
  obtain k where k: "y = drop k b" "0 < k" "k \<le> length b" using nextLine_suffix [OF xy] by blast
  show ?case
  proof (cases "x = []")
    case True
    then have "first_line y = Inr (l, b')" using 1(2) xy by (simp add: first_line.simps [of b])
    with 1(1) [OF xy refl True] obtain n
      where n: "first_line (y @ m) = Inr (l, b' @ m)" "b' = drop n y" "n \<le> length y" by blast
    have "b' = drop (n + k) b" using n(2) k(1) by (simp add: add.commute)
    moreover have "n + k \<le> length b" using n(3) k by simp
    ultimately show ?thesis using n(1) True nextLine_more [OF xy, of m] by (auto simp: first_line.simps [of "b @ m"])
  next
    case False
    then have "l = x" "b' = y" using 1(2) xy by (simp_all add: first_line.simps [of b])
    then show ?thesis using False k nextLine_more [OF xy, of m] by (auto simp: first_line.simps [of "b @ m"])
  qed
qed

lemma parseFirstLine_more:
  assumes "Req_parseFirstLine buf h = (Inr n, h')"
  shows "Req_parseFirstLine (buf @ m) h = (Inr n, h') \<and> n \<le> length buf"
proof -
  obtain l b' where f: "first_line buf = Inr (l, b')"
    using assms by (auto simp: Req_parseFirstLine_def split: sum.splits)
  obtain k where k: "b' = drop k buf" "k \<le> length buf" and f': "first_line (buf @ m) = Inr (l, b' @ m)"
    using first_line_more [OF f, of m] by blast
  have len: "length (buf @ m) - length (b' @ m) = length buf - length b'" by simp
  have "n = length buf - length b'"
    using assms f by (auto simp: Req_parseFirstLine_def Let_def split: option.splits if_splits)
  moreover have "Req_parseFirstLine (buf @ m) h = Req_parseFirstLine buf h"
    unfolding Req_parseFirstLine_def f f' sum.case prod.case len ..
  ultimately show ?thesis using assms by simp
qed

lemma parseHeaders_more:
  assumes "Req_parseHeaders buf h = (Inr n, h')"
  shows "Req_parseHeaders (buf @ m) h = (Inr n, h') \<and> n \<le> length buf"
proof -
  define h0 where "h0 = h\<lparr>rq_contentLength := - 2\<rparr>"
  let ?s = "\<lambda>b. \<lparr>sb = b, skey = [], svalue = [], serr = None, sdis = rq_disableNormalizing h0\<rparr>"
  obtain s1 h1 where l: "req_parse_loop (?s buf) h0 = (s1, h1)" by (cases "req_parse_loop (?s buf) h0")
  have e: "serr s1 = None"
    using assms l by (auto simp: Req_parseHeaders_def Let_def h0_def [symmetric] split: option.splits)
  have m: "req_parse_loop (?s (buf @ m)) h0 = (s1\<lparr>sb := sb s1 @ m\<rparr>, h1)" "length (sb s1) \<le> length buf"
    using req_loop.loop_more [OF l e, of m] by simp_all
  have len: "length (buf @ m) - length (sb (s1\<lparr>sb := sb s1 @ m\<rparr>)) = length buf - length (sb s1)" by simp
  have "Req_parseHeaders (buf @ m) h = Req_parseHeaders buf h"
    unfolding Req_parseHeaders_def Let_def h0_def [symmetric] l m(1) prod.case e len by (simp add: e)
  moreover have "n = length buf - length (sb s1)"
    using assms l e by (auto simp: Req_parseHeaders_def Let_def h0_def [symmetric] split: prod.splits)
  ultimately show ?thesis using assms by simp
qed

lemma rawHeaders_loop_more:
  "rawHeaders_loop b n = Some k \<Longrightarrow> rawHeaders_loop (b @ m) n = Some k \<and> n \<le> k \<and> k \<le> n + length b"
proof (induction b n rule: rawHeaders_loop.induct)
  case (1 b n)
  then obtain i where i: "bytes_IndexByte b 10 = Some i" by (subst (asm) (2) rawHeaders_loop.simps) (auto split: option.splits)
  obtain u v where uv: "b = u @ 10 # v" "length u = i" "10 \<notin> set u" using i by (auto simp: IndexByte_Some)
  have hd: "hd (b @ m) = hd b" using uv by (cases u) auto
  have im: "bytes_IndexByte (b @ m) 10 = Some i" using uv by simp
  have lt: "i < length b" using uv by simp
  show ?case
  proof (cases "i + 1 = 2 \<and> hd b = 13 \<or> i + 1 = 1")
    case True
    have "rawHeaders_loop b n = Some (n + (i + 1))" "rawHeaders_loop (b @ m) n = Some (n + (i + 1))"
      using True i im hd by (simp_all add: rawHeaders_loop.simps [of b] rawHeaders_loop.simps [of "b @ m"] Let_def)
    then show ?thesis using 1(2) lt by simp
  next
    case False
    then have r: "rawHeaders_loop (drop (i + 1) b) (n + (i + 1)) = Some k"
      using 1(2) i by (simp add: rawHeaders_loop.simps [of b] Let_def split: if_splits)
    from 1(1) [OF i refl refl False r]
    have r': "rawHeaders_loop (drop (i + 1) b @ m) (n + (i + 1)) = Some k" "n + (i + 1) \<le> k"
      "k \<le> n + (i + 1) + length (drop (i + 1) b)"
      by simp_all
    have "rawHeaders_loop (b @ m) n = rawHeaders_loop (drop (i + 1) b @ m) (n + (i + 1))"
      using False im hd lt by (auto simp: rawHeaders_loop.simps [of "b @ m"] Let_def)
    then show ?thesis using r' lt by simp
  qed
qed

lemma readRawHeaders_more:
  assumes "readRawHeaders dst buf = Inr (raw, n)"
  shows "readRawHeaders dst (buf @ m) = Inr (raw, n) \<and> n \<le> length buf"
proof -
  obtain i where i: "bytes_IndexByte buf 10 = Some i" using assms by (auto simp: readRawHeaders_def split: option.splits)
  obtain u v where uv: "buf = u @ 10 # v" "length u = i" "10 \<notin> set u" using i by (auto simp: IndexByte_Some)
  have hd: "hd (buf @ m) = hd buf" using uv by (cases u) auto
  have im: "bytes_IndexByte (buf @ m) 10 = Some i" using uv by simp
  have lt: "i < length buf" using uv by simp
  show ?thesis
  proof (cases "i = 1 \<and> hd buf = 13 \<or> i = 0")
    case True
    then have "readRawHeaders dst buf = Inr (dst, i + 1)" "readRawHeaders dst (buf @ m) = Inr (dst, i + 1)"
      unfolding readRawHeaders_def i im option.case hd by simp_all
    then show ?thesis using assms lt by simp
  next
    case False
    note a = assms [unfolded readRawHeaders_def i option.case if_not_P [OF False]]
    obtain k where k1: "rawHeaders_loop (drop (i + 1) buf) (i + 1) = Some k"
      using a by (cases "rawHeaders_loop (drop (i + 1) buf) (i + 1)") simp_all
    have k: "raw = dst @ take k buf" "n = k" using a unfolding k1 by auto
    note km = rawHeaders_loop_more [OF k1, of m]
    have "k \<le> length buf" using km lt by auto
    moreover have "drop (i + 1) (buf @ m) = drop (i + 1) buf @ m" using lt by simp
    ultimately have "readRawHeaders dst (buf @ m) = Inr (raw, n)"
      unfolding readRawHeaders_def im option.case hd if_not_P [OF False] using km k1 k by simp
    then show ?thesis using \<open>k \<le> length buf\<close> k by simp
  qed
qed

lemma Parse_more:
  assumes "Req_Parse buf h = (Inr n, h')"
  shows "Req_Parse (buf @ m) h = (Inr n, h') \<and> n \<le> length buf"
proof -
  obtain k h1 where k: "Req_parseFirstLine buf h = (Inr k, h1)"
    using assms by (auto simp: Req_Parse_def split: sum.splits prod.splits)
  note km = parseFirstLine_more [OF k, of m]
  then have d: "drop k (buf @ m) = drop k buf @ m" by simp
  obtain nb h2 where nb: "Req_NoBody h1 = (nb, h2)" by (cases "Req_NoBody h1")
  show ?thesis
  proof (cases "\<not> nb \<or> rq_noHTTP11 h2")
    case True
    then obtain j h3 where j: "Req_parseHeaders (drop k buf) h2 = (Inr j, h3)" "n = k + j" "h' = h3\<lparr>rq_rawHeadersParsed := True\<rparr>"
      using assms k nb by (auto simp: Req_Parse_def split: sum.splits prod.splits if_splits)
    show ?thesis using parseHeaders_more [OF j(1), of m] True km nb j k d by (auto simp: Req_Parse_def)
  next
    case False
    then obtain raw j where j: "readRawHeaders [] (drop k buf) = Inr (raw, j)" "n = k + j" "h' = h2\<lparr>rq_rawHeaders := raw\<rparr>"
      using assms k nb by (auto simp: Req_Parse_def split: sum.splits prod.splits if_splits)
    show ?thesis using readRawHeaders_more [OF j(1), of m] False km nb j k d by (auto simp: Req_Parse_def)
  qed
qed
section \<open>Header lines as a list\<close>

definition run_lines :: "bool \<Rightarrow> (bytes \<times> bytes) list \<Rightarrow> RequestHeader \<Rightarrow> RequestHeader" where
  "run_lines d ls h = fold (\<lambda>(k, v). req_line (normalizeHeaderKey k d) v) ls h"

lemma run_lines_simps [simp]:
  "run_lines d [] h = h" "run_lines d ((k, v) # ls) h = run_lines d ls (req_line (normalizeHeaderKey k d) v h)"
  "run_lines d (ls @ ls') h = run_lines d ls' (run_lines d ls h)"
  by (simp_all add: run_lines_def)

text \<open>What \<open>parseHeaders\<close> does after the loop.\<close>

definition req_finish :: "RequestHeader \<Rightarrow> RequestHeader" where
  "req_finish h =
     (let h = (if rq_contentLength h < 0 then h\<lparr>rq_contentLengthBytes := []\<rparr> else h) in
      case Req_NoBody h of (nb, h) \<Rightarrow>
      let h = (if nb then h\<lparr>rq_contentLength := 0, rq_contentLengthBytes := []\<rparr> else h)
      in (if rq_noHTTP11 h \<and> \<not> rq_connectionClose h
          then let v = (case PeekArgBytes (live (rq_h h)) StrConnection of None \<Rightarrow> [] | Some v \<Rightarrow> v)
               in h\<lparr>rq_connectionClose := \<not> hasHeaderValue v StrKeepAlive \<and> \<not> hasHeaderValue v StrKeepAliveCamelCase\<rparr>
          else h))"

lemma parseHeaders_lines:
  assumes "list_all (\<lambda>(k, v). line_ok k v) ls"
  shows "Req_parseHeaders (print_lines ls @ StrCRLF @ r) h =
     (Inr (length (print_lines ls @ StrCRLF)),
      req_finish (run_lines (rq_disableNormalizing h) ls (h\<lparr>rq_contentLength := - 2\<rparr>)))"
proof -
  let ?h = "h\<lparr>rq_contentLength := - 2\<rparr>"
  let ?s = "\<lparr>sb = print_lines ls @ StrCRLF @ r, skey = [], svalue = [], serr = None, sdis = rq_disableNormalizing ?h\<rparr>"
  obtain s' where s': "req_parse_loop ?s ?h = (s', run_lines (sdis ?s) ls ?h)" "sb s' = r" "serr s' = None"
    using req_loop.loop_lines [OF assms, of ?s r ?h] by (auto simp: run_lines_def)
  show ?thesis
    unfolding Req_parseHeaders_def Let_def s'(1) prod.case s'(2,3) option.case
    by (simp add: req_finish_def Let_def split_beta)
qed

text \<open>Lines with other names are appended to the list of pairs.\<close>

definition plain_key :: "bytes \<Rightarrow> bool" where
  "plain_key k \<longleftrightarrow> k \<notin> {StrHost, StrUserAgent, StrContentType, StrContentLength, StrTransferEncoding, StrConnection}"

lemma run_plain:
  "\<forall>kv \<in> set l. plain_key (Key kv) \<and> normalizeHeaderKey (Key kv) d = Key kv \<Longrightarrow>
   \<exists>x. run_lines d (map (\<lambda>kv. (Key kv, Value kv)) l) h = h\<lparr>rq_h := x\<rparr> \<and> live x = live (rq_h h) @ l"
proof (induction l arbitrary: h)
  case Nil
  then show ?case by (intro exI [of _ "rq_h h"]) simp
next
  case (Cons kv l)
  let ?h = "h\<lparr>rq_h := AppendArgBytes (rq_h h) (Key kv) (Value kv)\<rparr>"
  have "req_line (Key kv) (Value kv) h = ?h" using Cons.prems by (simp add: req_line_def plain_key_def)
  moreover obtain x where "run_lines d (map (\<lambda>kv. (Key kv, Value kv)) l) ?h = ?h\<lparr>rq_h := x\<rparr>" "live x = live (rq_h ?h) @ l"
    using Cons.IH [of ?h] Cons.prems by auto
  ultimately show ?case using Cons.prems by (intro exI [of _ x]) (simp add: AppendArgBytes_def AppendArg_live)
qed

section \<open>Framing\<close>

lemma req_line_chunked_stays: "rq_contentLength h = - 1 \<Longrightarrow> rq_contentLength (req_line k v h) = - 1"
  by (simp add: req_line_def)

lemma run_lines_chunked_stays: "rq_contentLength h = - 1 \<Longrightarrow> rq_contentLength (run_lines d ls h) = - 1"
  by (induction ls arbitrary: h) (auto simp: req_line_chunked_stays)

lemma run_lines_chunked:
  "(k, v) \<in> set ls \<Longrightarrow> normalizeHeaderKey k d = StrTransferEncoding \<Longrightarrow> v \<noteq> StrIdentity \<Longrightarrow>
   rq_contentLength (run_lines d ls h) = - 1"
proof (induction ls arbitrary: h)
  case (Cons x ls)
  show ?case
  proof (cases "x = (k, v)")
    case True
    have "rq_contentLength (req_line StrTransferEncoding v h) = - 1"
      using Cons.prems(3) by (simp add: req_line_def header_strings)
    then show ?thesis using True Cons.prems(2) by (simp add: run_lines_chunked_stays)
  next
    case False
    then show ?thesis using Cons by (cases x) auto
  qed
qed simp

section \<open>Printing\<close>

lemma canonical_names [simp]:
  "normalizeHeaderKey StrHost d = StrHost" "normalizeHeaderKey StrUserAgent d = StrUserAgent"
  "normalizeHeaderKey StrContentType d = StrContentType" "normalizeHeaderKey StrContentLength d = StrContentLength"
  "normalizeHeaderKey StrTransferEncoding d = StrTransferEncoding" "normalizeHeaderKey StrConnection d = StrConnection"
  "normalizeHeaderKey StrCookie d = StrCookie" "normalizeHeaderKey StrReferer d = StrReferer" "normalizeHeaderKey StrRange d = StrRange"
  by (cases d; simp add: normalizeHeaderKey_def header_strings ToUpperTable_def ToLowerTable_def)+

lemma req_line_simps:
  "req_line StrHost v h = h\<lparr>rq_host := v\<rparr>"
  "req_line StrUserAgent v h = h\<lparr>rq_userAgent := v\<rparr>"
  "req_line StrContentType v h = h\<lparr>rq_contentType := v\<rparr>"
  "req_line StrConnection StrClose h = h\<lparr>rq_connectionClose := True\<rparr>"
  "req_line StrCookie v h = h\<lparr>rq_h := AppendArgBytes (rq_h h) StrCookie v\<rparr>"
  by (simp_all add: req_line_def header_strings)

lemma req_line_contentLength:
  "rq_contentLength h \<noteq> - 1 \<Longrightarrow> parseContentLength v = (n, None) \<Longrightarrow>
   req_line StrContentLength v h = h\<lparr>rq_contentLength := n, rq_contentLengthBytes := v\<rparr>"
  by (simp add: req_line_def header_strings)

definition req_lines :: "RequestHeader \<Rightarrow> (bytes \<times> bytes) list" where
  "req_lines h =
     [(StrUserAgent, if rq_userAgent h = [] then defaultUserAgent else rq_userAgent h)] @
     (if rq_host h = [] then [] else [(StrHost, rq_host h)]) @
     [(StrContentType, if rq_contentType h = [] then StrPostArgsContentType else rq_contentType h)] @
     (if rq_contentLengthBytes h = [] then [] else [(StrContentLength, rq_contentLengthBytes h)]) @
     map (\<lambda>kv. (Key kv, Value kv)) (live (rq_h h)) @
     (if live (rq_cookies h) = [] then [] else [(StrCookie, appendRequestCookieBytes [] (live (rq_cookies h)))]) @
     (if rq_connectionClose h then [(StrConnection, StrClose)] else [])"

definition request_line :: "bytes \<Rightarrow> bytes \<Rightarrow> bytes" where
  "request_line m u = m @ 32 # u @ 32 # StrHTTP11 @ StrCRLF"

lemma parsed_id [simp]: "rq_rawHeadersParsed h \<Longrightarrow> Req_parseRawHeaders h = h"
  by (simp add: Req_parseRawHeaders_def)

lemma Host_parsed [simp]: "rq_rawHeadersParsed h \<Longrightarrow> Req_Host h = Inr (rq_host h, h)"
  by (simp add: Req_Host_def Let_def)

definition has_body :: "RequestHeader \<Rightarrow> bool" where
  "has_body h \<longleftrightarrow> \<not> rq_isGet h \<and> Req_Method h \<noteq> StrGet \<and> Req_Method h \<noteq> StrHead"

lemma NoBody_has_body: "has_body h \<Longrightarrow> Req_NoBody h = (False, h)"
  by (auto simp: Req_NoBody_def Req_IsGet_def Req_IsHead_def has_body_def Req_Method_def Let_def split: if_splits)

lemma AppendBytes_eq:
  assumes "rq_rawHeadersParsed h" "has_body h"
  shows "Req_AppendBytes [] h =
     Inr (request_line (Req_Method h) (Req_RequestURI h) @ print_lines (req_lines h) @ StrCRLF, h)"
  unfolding Req_AppendBytes_def foldl_lines
  using assms
  by (cases "live (rq_cookies h)")
    (simp_all add: appendRequestCookieBytes_eq Req_UserAgent_def Req_ContentType_def Req_ConnectionClose_def NoBody_has_body
      Let_def req_lines_def request_line_def appendHeaderLine_def del: appendRequestCookieBytes.simps)

section \<open>Parsing what was printed\<close>

lemma LastIndexByte_append [simp]: "c \<notin> set v \<Longrightarrow> bytes_LastIndexByte (u @ c # v) c = Some (length u)"
  using IndexByte_append [of c "rev v" "rev u"] by (simp add: bytes_LastIndexByte_def)

lemma nextLine_line: "10 \<notin> set l \<Longrightarrow> nextLine (l @ 13 # 10 # r) = Inr (l, r)"
  using IndexByte_append [of 10 "l @ [13]" r] by (simp add: nextLine_def drop_cr_def)

lemma parseFirstLine_request_line:
  assumes "m \<noteq> []" "32 \<notin> set m" "10 \<notin> set m" "u \<noteq> []" "10 \<notin> set u"
  shows "Req_parseFirstLine (request_line m u @ r) h =
     (Inr (length (request_line m u)), h\<lparr>rq_method := m, rq_requestURI := u\<rparr>)"
proof -
  let ?l = "m @ 32 # u @ 32 # StrHTTP11"
  have l: "10 \<notin> set ?l" using assms by (simp add: StrHTTP11_def)
  have "nextLine (request_line m u @ r) = Inr (?l, r)"
    using nextLine_line [OF l, of r] by (simp add: request_line_def StrCRLF_def)
  then have f: "first_line (request_line m u @ r) = Inr (?l, r)" using assms(1) by (simp add: first_line.simps)
  have i: "bytes_IndexByte ?l 32 = Some (length m)" using assms(2) by simp
  have j: "bytes_LastIndexByte (u @ 32 # StrHTTP11) 32 = Some (length u)" by (rule LastIndexByte_append) (simp add: StrHTTP11_def)
  show ?thesis
    unfolding Req_parseFirstLine_def f using assms(1,4) i j by (simp add: Let_def)
qed

lemma Parse_lines:
  assumes "m \<noteq> []" "32 \<notin> set m" "10 \<notin> set m" "u \<noteq> []" "10 \<notin> set u" "m \<noteq> StrGet" "m \<noteq> StrHead"
    and "\<not> rq_isGet g" "list_all (\<lambda>(k, v). line_ok k v) ls"
  shows "Req_Parse (request_line m u @ print_lines ls @ StrCRLF @ r) g =
     (Inr (length (request_line m u @ print_lines ls @ StrCRLF)),
      (req_finish (run_lines (rq_disableNormalizing g) ls (g\<lparr>rq_method := m, rq_requestURI := u, rq_contentLength := - 2\<rparr>)))
        \<lparr>rq_rawHeadersParsed := True\<rparr>)"
proof -
  have "has_body (g\<lparr>rq_method := m, rq_requestURI := u\<rparr>)" using assms by (simp add: has_body_def Req_Method_def)
  then show ?thesis
    using parseFirstLine_request_line [OF assms(1-5), of "print_lines ls @ StrCRLF @ r" g]
      parseHeaders_lines [OF assms(9), of r "g\<lparr>rq_method := m, rq_requestURI := u\<rparr>"]
    by (simp add: Req_Parse_def NoBody_has_body)
qed

lemma has_body_clear [simp]: "has_body (h\<lparr>rq_contentLengthBytes := b\<rparr>) = has_body h"
  by (simp add: has_body_def Req_Method_def)

lemma req_finish_body:
  "has_body h \<Longrightarrow> \<not> rq_noHTTP11 h \<Longrightarrow>
   req_finish h = (if rq_contentLength h < 0 then h\<lparr>rq_contentLengthBytes := []\<rparr> else h)"
  by (simp add: req_finish_def Let_def NoBody_has_body)

text \<open>The lines of a header, one after the other, into a header that was reset.\<close>

lemma run_req_lines:
  assumes plain: "\<forall>kv \<in> set (live (rq_h h)). plain_key (Key kv) \<and> normalizeHeaderKey (Key kv) d = Key kv"
    and cl: "rq_contentLengthBytes h \<noteq> [] \<Longrightarrow> parseContentLength (rq_contentLengthBytes h) = (n, None)"
    and g: "rq_contentLength g = - 2"
  shows "\<exists>x. run_lines d (req_lines h) g = g\<lparr>
      rq_userAgent := (if rq_userAgent h = [] then defaultUserAgent else rq_userAgent h),
      rq_host := (if rq_host h = [] then rq_host g else rq_host h),
      rq_contentType := (if rq_contentType h = [] then StrPostArgsContentType else rq_contentType h),
      rq_contentLength := (if rq_contentLengthBytes h = [] then - 2 else n),
      rq_contentLengthBytes := (if rq_contentLengthBytes h = [] then rq_contentLengthBytes g else rq_contentLengthBytes h),
      rq_connectionClose := rq_connectionClose h \<or> rq_connectionClose g, rq_h := x\<rparr> \<and>
    live x = live (rq_h g) @ live (rq_h h) @
      (if live (rq_cookies h) = [] then []
       else [\<lparr>Key = StrCookie, Value = appendRequestCookieBytes [] (live (rq_cookies h))\<rparr>])"
proof -
  let ?g = "g\<lparr>rq_userAgent := (if rq_userAgent h = [] then defaultUserAgent else rq_userAgent h),
      rq_host := (if rq_host h = [] then rq_host g else rq_host h),
      rq_contentType := (if rq_contentType h = [] then StrPostArgsContentType else rq_contentType h),
      rq_contentLength := (if rq_contentLengthBytes h = [] then - 2 else n),
      rq_contentLengthBytes := (if rq_contentLengthBytes h = [] then rq_contentLengthBytes g else rq_contentLengthBytes h)\<rparr>"
  obtain x where x: "run_lines d (map (\<lambda>kv. (Key kv, Value kv)) (live (rq_h h))) ?g = ?g\<lparr>rq_h := x\<rparr>"
    "live x = live (rq_h ?g) @ live (rq_h h)" using run_plain [OF plain] by blast
  define y where "y = (if live (rq_cookies h) = [] then x
      else AppendArgBytes x StrCookie (appendRequestCookieBytes [] (live (rq_cookies h))))"
  have "run_lines d
     ([(StrUserAgent, if rq_userAgent h = [] then defaultUserAgent else rq_userAgent h)] @
      (if rq_host h = [] then [] else [(StrHost, rq_host h)]) @
      [(StrContentType, if rq_contentType h = [] then StrPostArgsContentType else rq_contentType h)] @
      (if rq_contentLengthBytes h = [] then [] else [(StrContentLength, rq_contentLengthBytes h)])) g = ?g"
    using cl g by (cases g) (simp add: req_line_simps req_line_contentLength)
  then have "run_lines d (req_lines h) g = run_lines d
     ((if live (rq_cookies h) = [] then [] else [(StrCookie, appendRequestCookieBytes [] (live (rq_cookies h)))]) @
      (if rq_connectionClose h then [(StrConnection, StrClose)] else []))
     (run_lines d (map (\<lambda>kv. (Key kv, Value kv)) (live (rq_h h))) ?g)"
    unfolding req_lines_def run_lines_simps(3) append_assoc [symmetric] by simp
  then have "run_lines d (req_lines h) g = ?g\<lparr>rq_connectionClose := rq_connectionClose h \<or> rq_connectionClose g, rq_h := y\<rparr>"
    unfolding x(1) by (simp add: req_line_simps y_def)
  moreover have "live y = live (rq_h g) @ live (rq_h h) @
      (if live (rq_cookies h) = [] then []
       else [\<lparr>Key = StrCookie, Value = appendRequestCookieBytes [] (live (rq_cookies h))\<rparr>])"
    using x(2) by (simp add: y_def AppendArgBytes_def AppendArg_live)
  ultimately show ?thesis by (intro exI [of _ y]) simp
qed

section \<open>What parsing keeps\<close>

lemma parseHeaders_eq:
  "snd (Req_parseHeaders buf h) =
     (case req_parse_loop \<lparr>sb = buf, skey = [], svalue = [], serr = None, sdis = rq_disableNormalizing h\<rparr>
             (h\<lparr>rq_contentLength := - 2\<rparr>) of
        (s, h) \<Rightarrow> if serr s = None then req_finish h else h\<lparr>rq_connectionClose := True\<rparr>)"
  by (simp add: Req_parseHeaders_def Let_def req_finish_def split_beta split: option.split)

lemma req_finish_inv:
  assumes P: "P h" and n: "\<And>h n. P h \<Longrightarrow> P (h\<lparr>rq_contentLength := n\<rparr>)"
    and b: "\<And>h b. P h \<Longrightarrow> P (h\<lparr>rq_contentLengthBytes := b\<rparr>)"
    and g: "\<And>h g. P h \<Longrightarrow> P (h\<lparr>rq_isGet := g\<rparr>)" and c: "\<And>h c. P h \<Longrightarrow> P (h\<lparr>rq_connectionClose := c\<rparr>)"
  shows "P (req_finish h)"
proof -
  define h1 where "h1 = (if rq_contentLength h < 0 then h\<lparr>rq_contentLengthBytes := []\<rparr> else h)"
  have p1: "P h1" unfolding h1_def using P b by auto
  obtain nb h2 where h2: "Req_NoBody h1 = (nb, h2)" by (cases "Req_NoBody h1")
  have "h2 = h1 \<or> (\<exists>x. h2 = h1\<lparr>rq_isGet := x\<rparr>)"
    using h2 by (auto simp: Req_NoBody_def Req_IsGet_def Let_def split: if_splits)
  then have p2: "P h2" using p1 g by auto
  define h3 where "h3 = (if nb then h2\<lparr>rq_contentLength := 0, rq_contentLengthBytes := []\<rparr> else h2)"
  have p3: "P h3" unfolding h3_def using p2 by (auto intro: n b)
  show ?thesis
    unfolding req_finish_def Let_def h1_def [symmetric] h2 prod.case h3_def [symmetric] using p3 by (auto intro: c)
qed

lemma parseHeaders_inv:
  assumes step: "\<And>k v h. normalizeHeaderKey k (rq_disableNormalizing h0) = k \<Longrightarrow> P h \<Longrightarrow> P (req_line k v h)" and P: "P h0"
    and n: "\<And>h n. P h \<Longrightarrow> P (h\<lparr>rq_contentLength := n\<rparr>)" and b: "\<And>h b. P h \<Longrightarrow> P (h\<lparr>rq_contentLengthBytes := b\<rparr>)"
    and g: "\<And>h g. P h \<Longrightarrow> P (h\<lparr>rq_isGet := g\<rparr>)" and c: "\<And>h c. P h \<Longrightarrow> P (h\<lparr>rq_connectionClose := c\<rparr>)"
  shows "P (snd (Req_parseHeaders buf h0))"
proof -
  let ?s = "\<lparr>sb = buf, skey = [], svalue = [], serr = None, sdis = rq_disableNormalizing h0\<rparr>"
  let ?h = "h0\<lparr>rq_contentLength := - 2\<rparr>"
  obtain s h where sh: "req_parse_loop ?s ?h = (s, h)" by (cases "req_parse_loop ?s ?h")
  have "P (snd (req_parse_loop ?s ?h))" by (rule req_loop.loop_inv) (simp_all add: step n P)
  then have p: "P h" using sh by simp
  show ?thesis
    unfolding parseHeaders_eq sh prod.case using req_finish_inv [of P h, OF p n b g c] c [OF p] by simp
qed

lemma parseRawHeaders_inv:
  assumes step: "\<And>k v h. normalizeHeaderKey k (rq_disableNormalizing h0) = k \<Longrightarrow> P h \<Longrightarrow> P (req_line k v h)" and P: "P h0"
    and n: "\<And>h n. P h \<Longrightarrow> P (h\<lparr>rq_contentLength := n\<rparr>)" and b: "\<And>h b. P h \<Longrightarrow> P (h\<lparr>rq_contentLengthBytes := b\<rparr>)"
    and g: "\<And>h g. P h \<Longrightarrow> P (h\<lparr>rq_isGet := g\<rparr>)" and c: "\<And>h c. P h \<Longrightarrow> P (h\<lparr>rq_connectionClose := c\<rparr>)"
    and r: "P (h0\<lparr>rq_rawHeadersParsed := True\<rparr>)"
  shows "P (Req_parseRawHeaders h0)"
proof -
  have "P (snd (Req_parseHeaders (rq_rawHeaders h0) (h0\<lparr>rq_rawHeadersParsed := True\<rparr>)))"
    by (rule parseHeaders_inv) (use step r n b g c in auto)
  then show ?thesis using P r by (simp add: Req_parseRawHeaders_def Let_def)
qed

lemma parseRawHeaders_dis [simp]: "rq_disableNormalizing (Req_parseRawHeaders h) = rq_disableNormalizing h"
  by (rule parseRawHeaders_inv [of h "\<lambda>x. rq_disableNormalizing x = rq_disableNormalizing h"])
    (auto simp: req_line_def split: prod.split option.split)

lemma parseHeaders_parsed: "rq_rawHeadersParsed (snd (Req_parseHeaders b h)) = rq_rawHeadersParsed h"
  by (rule parseHeaders_inv [of h "\<lambda>x. rq_rawHeadersParsed x = rq_rawHeadersParsed h"])
    (auto simp: req_line_def split: prod.split option.split)

lemma parseRawHeaders_parsed [simp]: "rq_rawHeadersParsed (Req_parseRawHeaders h)"
  by (simp add: Req_parseRawHeaders_def Let_def parseHeaders_parsed)

lemma names_distinct [simp]:
  "StrHost \<noteq> StrUserAgent" "StrHost \<noteq> StrContentType" "StrHost \<noteq> StrContentLength"
  "StrHost \<noteq> StrTransferEncoding" "StrHost \<noteq> StrConnection" "StrHost \<noteq> StrCookie"
  "StrUserAgent \<noteq> StrHost" "StrUserAgent \<noteq> StrContentType" "StrUserAgent \<noteq> StrContentLength"
  "StrUserAgent \<noteq> StrTransferEncoding" "StrUserAgent \<noteq> StrConnection" "StrUserAgent \<noteq> StrCookie"
  "StrContentType \<noteq> StrHost" "StrContentType \<noteq> StrUserAgent" "StrContentType \<noteq> StrContentLength"
  "StrContentType \<noteq> StrTransferEncoding" "StrContentType \<noteq> StrConnection"
  "StrContentType \<noteq> StrCookie" "StrContentLength \<noteq> StrHost" "StrContentLength \<noteq> StrUserAgent"
  "StrContentLength \<noteq> StrContentType" "StrContentLength \<noteq> StrTransferEncoding"
  "StrContentLength \<noteq> StrConnection" "StrContentLength \<noteq> StrCookie"
  "StrTransferEncoding \<noteq> StrHost" "StrTransferEncoding \<noteq> StrUserAgent"
  "StrTransferEncoding \<noteq> StrContentType" "StrTransferEncoding \<noteq> StrContentLength"
  "StrTransferEncoding \<noteq> StrConnection" "StrTransferEncoding \<noteq> StrCookie"
  "StrConnection \<noteq> StrHost" "StrConnection \<noteq> StrUserAgent" "StrConnection \<noteq> StrContentType"
  "StrConnection \<noteq> StrContentLength" "StrConnection \<noteq> StrTransferEncoding"
  "StrConnection \<noteq> StrCookie" "StrCookie \<noteq> StrHost" "StrCookie \<noteq> StrUserAgent"
  "StrCookie \<noteq> StrContentType" "StrCookie \<noteq> StrContentLength" "StrCookie \<noteq> StrTransferEncoding"
  "StrCookie \<noteq> StrConnection"
  by (simp_all add: header_strings)

section \<open>Looking up what was set\<close>

lemma SetCanonical_peek:
  assumes "rq_rawHeadersParsed h" "k \<notin> {StrCookie, StrTransferEncoding}"
    and "k = StrContentLength \<Longrightarrow> snd (parseContentLength v) = None"
  shows "\<exists>h1. Req_SetCanonical k v h = Inr h1 \<and> rq_rawHeadersParsed h1 \<and>
     rq_disableNormalizing h1 = rq_disableNormalizing h \<and> Req_peek k h1 = Inr (Some v, h1)"
proof -
  note d = Req_SetCanonical_def Req_peek_def Let_def
  consider "k = StrHost" | "k = StrContentType" | "k = StrUserAgent" | "k = StrContentLength" | "k = StrConnection" "v = StrClose"
    | "k = StrConnection" "v \<noteq> StrClose" | "plain_key k" using assms(2) by (auto simp: plain_key_def)
  then show ?thesis
  proof cases
    case 1
    then show ?thesis using assms by (simp add: d Req_SetHostBytes_def)
  next
    case 2
    then show ?thesis using assms by (simp add: d Req_SetContentTypeBytes_def Req_ContentType_def)
  next
    case 3
    then show ?thesis using assms by (simp add: d Req_SetUserAgentBytes_def Req_UserAgent_def)
  next
    case 4
    then obtain n where "parseContentLength v = (n, None)" using assms(3) by (cases "parseContentLength v") auto
    then show ?thesis using 4 assms by (simp add: d)
  next
    case 5
    then show ?thesis using assms
      by (simp add: d Req_SetConnectionClose_def Req_ConnectionClose_def)
  next
    case 6
    then show ?thesis using assms
      by (simp add: d Req_ResetConnectionClose_def Req_ConnectionClose_def PeekArgBytes_eq SetArgBytes_def Peek_SetArg)
  next
    case 7
    then show ?thesis using assms
      by (auto simp: d plain_key_def PeekArgBytes_eq SetArgBytes_def Peek_SetArg)
  qed
qed

section \<open>Canonical names\<close>

definition keys_ok :: "kvs \<Rightarrow> bool" where
  "keys_ok x \<longleftrightarrow> (\<forall>k \<in> Key ` set (live x). normalizeHeaderKey k False = k)"

definition canon :: "RequestHeader \<Rightarrow> bool" where
  "canon h \<longleftrightarrow> \<not> rq_disableNormalizing h \<and> keys_ok (rq_h h)"

lemma keys_AppendArg: "Key ` set (live (AppendArg h k v)) = insert k (Key ` set (live h))"
  by (simp add: AppendArg_live)

lemma keys_setArg_loop: "setArg_loop l k v = Some l' \<Longrightarrow> map Key l' = map Key l"
  by (induction l arbitrary: l') (auto split: if_splits option.splits)

lemma keys_SetArg: "Key ` set (live (SetArg h k v)) \<subseteq> insert k (Key ` set (live h))"
proof (cases "setArg_loop (live h) k v")
  case None
  then show ?thesis by (simp add: SetArg_def keys_AppendArg)
next
  case (Some l)
  then have "Key ` set l = Key ` set (live h)" using keys_setArg_loop [OF Some] by (metis set_map)
  then show ?thesis using Some by (auto simp: SetArg_def)
qed

lemma del_skip_subset: "set (del_skip k l) \<subseteq> set l"
  by (induction k l rule: del_skip.induct) auto

lemma CopyArgs_live: "live (CopyArgs dst src) = src"
  by (rule nth_equalityI) (auto simp: CopyArgs_def Let_def)

lemma keys_ok_ops [simp]:
  "keys_ok x \<Longrightarrow> normalizeHeaderKey k False = k \<Longrightarrow> keys_ok (SetArg x k v)"
  "keys_ok x \<Longrightarrow> normalizeHeaderKey k False = k \<Longrightarrow> keys_ok (SetArgBytes x k v)"
  "keys_ok x \<Longrightarrow> normalizeHeaderKey k False = k \<Longrightarrow> keys_ok (AppendArg x k v)"
  "keys_ok x \<Longrightarrow> normalizeHeaderKey k False = k \<Longrightarrow> keys_ok (AppendArgBytes x k v)"
  "keys_ok x \<Longrightarrow> keys_ok (DelAllArgs x k)"
  "keys_ok x \<Longrightarrow> keys_ok (DelAllArgsBytes x k)"
  "keys_ok (resetArgs x)"
  "keys_ok x \<Longrightarrow> keys_ok (CopyArgs y (live x))"
  "keys_ok x \<Longrightarrow> keys_ok \<lparr>live = take i (live x) @ drop j (live x), spare = sp\<rparr>"
  using keys_SetArg [of x k v] keys_AppendArg [of x k v] del_skip_subset [of k "live x"]
  by (auto simp: keys_ok_def SetArgBytes_def AppendArgBytes_def DelAllArgsBytes_def DelAllArgs_spec resetArgs_def CopyArgs_live
      dest: in_set_takeD in_set_dropD)

lemma canon_req_line: "canon h \<Longrightarrow> normalizeHeaderKey k False = k \<Longrightarrow> canon (req_line k v h)"
  by (simp add: canon_def req_line_def split: prod.split option.split)

lemma canon_parseHeaders: "canon h \<Longrightarrow> canon (snd (Req_parseHeaders b h))"
  by (rule parseHeaders_inv [of h canon]) (simp_all add: canon_req_line [unfolded canon_def] canon_def)

lemma canon_parseRawHeaders: "canon h \<Longrightarrow> canon (Req_parseRawHeaders h)"
  by (rule parseRawHeaders_inv [of h canon]) (simp_all add: canon_req_line [unfolded canon_def] canon_def)

lemma canon_collect_loop: "canon h \<Longrightarrow> collect_loop i h = Inr h' \<Longrightarrow> canon h'"
proof (induction i h rule: collect_loop.induct)
  case (1 i h)
  show ?case
  proof (cases "i < length (live (rq_h h))")
    case i: True
    define kv where "kv = live (rq_h h) ! i"
    show ?thesis
    proof (cases "Key kv = StrCookie")
      case True
      obtain cs where cs: "parseRequestCookies (rq_cookies h) (Value kv) = Inr cs"
        using 1(4) i True by (cases "parseRequestCookies (rq_cookies h) (Value kv)")
          (simp_all add: collect_loop.simps [of i h] kv_def [symmetric] Let_def)
      let ?h = "h\<lparr>rq_cookies := cs, rq_h := \<lparr>live = take i (live (rq_h h)) @ drop (i + 1) (live (rq_h h)), spare = kv # spare (rq_h h)\<rparr>\<rparr>"
      have "canon ?h" using 1(3) by (simp add: canon_def)
      moreover have "collect_loop i ?h = Inr h'"
        using 1(4) i True cs by (simp add: collect_loop.simps [of i h] kv_def [symmetric] Let_def)
      ultimately show ?thesis using 1(1) [OF i kv_def True cs] by simp
    next
      case False
      then have "collect_loop (i + 1) h = Inr h'"
        using 1(4) i by (simp add: collect_loop.simps [of i h] kv_def [symmetric] Let_def)
      then show ?thesis using 1(2) [OF i kv_def False 1(3)] by simp
    qed
  next
    case False
    then show ?thesis using 1(3,4) by (simp add: collect_loop.simps [of i h])
  qed
qed

lemma canon_collectCookies: "canon h \<Longrightarrow> Req_collectCookies h = Inr h' \<Longrightarrow> canon h'"
proof (cases "rq_cookiesCollected h")
  case False
  assume c: "canon h" and r: "Req_collectCookies h = Inr h'"
  obtain h1 where "collect_loop 0 h = Inr h1" "h' = h1\<lparr>rq_cookiesCollected := True\<rparr>"
    using r False by (cases "collect_loop 0 h") (auto simp: Req_collectCookies_def)
  then show ?thesis using canon_collect_loop [OF c] by (auto simp: canon_def)
qed (simp add: Req_collectCookies_def)

lemma canon_parseFirstLine: "canon h \<Longrightarrow> canon (snd (Req_parseFirstLine b h))"
  by (simp add: Req_parseFirstLine_def Let_def canon_def split: sum.split option.split prod.split)

lemma canon_NoBody: "canon h \<Longrightarrow> canon (snd (Req_NoBody h))"
  by (simp add: Req_NoBody_def Req_IsGet_def Let_def split_beta canon_def)

lemma canon_Parse:
  assumes "canon h"
  shows "canon (snd (Req_Parse b h))"
proof -
  obtain r h1 where f: "Req_parseFirstLine b h = (r, h1)" by (cases "Req_parseFirstLine b h")
  obtain nb h2 where n: "Req_NoBody h1 = (nb, h2)" by (cases "Req_NoBody h1")
  have c1: "canon h1" using canon_parseFirstLine [OF assms, of b] f by simp
  have c2: "canon h2" using canon_NoBody [OF c1] n by simp
  show ?thesis
  proof (cases r)
    case (Inl e)
    then show ?thesis using f c1 by (simp add: Req_Parse_def)
  next
    case (Inr m)
    obtain q h3 where p: "Req_parseHeaders (drop m b) h2 = (q, h3)" by (cases "Req_parseHeaders (drop m b) h2")
    have "canon h3" using canon_parseHeaders [OF c2, of "drop m b"] p by simp
    then show ?thesis
      using Inr f n p c2 by (cases q) (auto simp: Req_Parse_def canon_def split: sum.splits)
  qed
qed

lemma canon_SetCanonical:
  assumes "canon h" "normalizeHeaderKey k False = k" "Req_SetCanonical k v h = Inr h'"
  shows "canon h'"
proof (cases "k = StrCookie")
  case True
  let ?h = "Req_parseRawHeaders h"
  obtain h1 where h1: "Req_collectCookies ?h = Inr h1"
    using assms(3) True by (cases "Req_collectCookies ?h") (simp_all add: Req_SetCanonical_def Let_def)
  then obtain cs where "h' = h1\<lparr>rq_cookies := cs\<rparr>"
    using assms(3) True by (cases "parseRequestCookies (rq_cookies h1) v") (auto simp: Req_SetCanonical_def Let_def)
  then show ?thesis using canon_collectCookies [OF canon_parseRawHeaders [OF assms(1)] h1] by (simp add: canon_def)
next
  case False
  have "canon (Req_parseRawHeaders h)" by (rule canon_parseRawHeaders [OF assms(1)])
  then show ?thesis
    using assms(2,3) False
    by (auto simp: Req_SetCanonical_def Let_def canon_def Req_SetHostBytes_def Req_SetContentTypeBytes_def
        Req_SetUserAgentBytes_def Req_SetConnectionClose_def Req_ResetConnectionClose_def split: if_splits prod.splits option.splits)
qed

text \<open>
  The headers a program can make with every method of the header that changes it, the lookups that parse on demand, the visitors and
  the printers included, when it does not switch the canonical form off. \<open>SetCanonical\<close> takes its key as it is and demands that it
  is in canonical form already. What the visitors do with the state of their own has no effect on the header; it is a list here.
\<close>

inductive req_reach :: "RequestHeader \<Rightarrow> bool" where
  req_zero: "req_reach zeroRequest"
| req_Reset: "req_reach (Req_Reset h)"
| req_ResetSkipNormalize: "req_reach h \<Longrightarrow> req_reach (Req_ResetSkipNormalize h)"
| req_CopyTo: "req_reach h \<Longrightarrow> req_reach (Req_CopyTo h dst)"
| req_Parse: "req_reach h \<Longrightarrow> req_reach (snd (Req_Parse b h))"
| req_parseRawHeaders: "req_reach h \<Longrightarrow> req_reach (Req_parseRawHeaders h)"
| req_collectCookies: "req_reach h \<Longrightarrow> Req_collectCookies h = Inr h' \<Longrightarrow> req_reach h'"
| req_SetMethod: "req_reach h \<Longrightarrow> req_reach (Req_SetMethod x h)"
| req_SetMethodBytes: "req_reach h \<Longrightarrow> req_reach (Req_SetMethodBytes x h)"
| req_SetRequestURI: "req_reach h \<Longrightarrow> req_reach (Req_SetRequestURI x h)"
| req_SetRequestURIBytes: "req_reach h \<Longrightarrow> req_reach (Req_SetRequestURIBytes x h)"
| req_SetContentType: "req_reach h \<Longrightarrow> req_reach (Req_SetContentType x h)"
| req_SetContentTypeBytes: "req_reach h \<Longrightarrow> req_reach (Req_SetContentTypeBytes x h)"
| req_SetMultipartFormBoundary: "req_reach h \<Longrightarrow> req_reach (Req_SetMultipartFormBoundary x h)"
| req_SetMultipartFormBoundaryBytes: "req_reach h \<Longrightarrow> req_reach (Req_SetMultipartFormBoundaryBytes x h)"
| req_SetHost: "req_reach h \<Longrightarrow> req_reach (Req_SetHost x h)"
| req_SetHostBytes: "req_reach h \<Longrightarrow> req_reach (Req_SetHostBytes x h)"
| req_SetUserAgent: "req_reach h \<Longrightarrow> req_reach (Req_SetUserAgent x h)"
| req_SetUserAgentBytes: "req_reach h \<Longrightarrow> req_reach (Req_SetUserAgentBytes x h)"
| req_SetConnectionClose: "req_reach h \<Longrightarrow> req_reach (Req_SetConnectionClose h)"
| req_ResetConnectionClose: "req_reach h \<Longrightarrow> req_reach (Req_ResetConnectionClose h)"
| req_IsGet: "req_reach h \<Longrightarrow> req_reach (snd (Req_IsGet h))"
| req_NoBody: "req_reach h \<Longrightarrow> req_reach (snd (Req_NoBody h))"
| req_ConnectionClose: "req_reach h \<Longrightarrow> req_reach (snd (Req_ConnectionClose h))"
| req_ContentLength: "req_reach h \<Longrightarrow> req_reach (snd (Req_ContentLength h))"
| req_ContentType: "req_reach h \<Longrightarrow> req_reach (snd (Req_ContentType h))"
| req_MultipartFormBoundary: "req_reach h \<Longrightarrow> req_reach (snd (Req_MultipartFormBoundary h))"
| req_UserAgent: "req_reach h \<Longrightarrow> req_reach (snd (Req_UserAgent h))"
| req_Host: "req_reach h \<Longrightarrow> Req_Host h = Inr (r, h') \<Longrightarrow> req_reach h'"
| req_SetContentLength: "req_reach h \<Longrightarrow> Req_SetContentLength n h = Inr h' \<Longrightarrow> req_reach h'"
| req_SetByteRange: "req_reach h \<Longrightarrow> Req_SetByteRange i j h = Inr h' \<Longrightarrow> req_reach h'"
| req_SetCanonical: "req_reach h \<Longrightarrow> normalizeHeaderKey k False = k \<Longrightarrow> Req_SetCanonical k v h = Inr h' \<Longrightarrow> req_reach h'"
| req_Set: "req_reach h \<Longrightarrow> Req_Set k v h = Inr h' \<Longrightarrow> req_reach h'"
| req_SetBytesKV: "req_reach h \<Longrightarrow> Req_SetBytesKV k v h = Inr h' \<Longrightarrow> req_reach h'"
| req_SetBytesK: "req_reach h \<Longrightarrow> Req_SetBytesK k v h = Inr h' \<Longrightarrow> req_reach h'"
| req_SetBytesV: "req_reach h \<Longrightarrow> Req_SetBytesV k v h = Inr h' \<Longrightarrow> req_reach h'"
| req_SetReferer: "req_reach h \<Longrightarrow> Req_SetReferer v h = Inr h' \<Longrightarrow> req_reach h'"
| req_SetRefererBytes: "req_reach h \<Longrightarrow> Req_SetRefererBytes v h = Inr h' \<Longrightarrow> req_reach h'"
| req_Add: "req_reach h \<Longrightarrow> req_reach (Req_Add k v h)"
| req_AddBytesK: "req_reach h \<Longrightarrow> req_reach (Req_AddBytesK k v h)"
| req_AddBytesV: "req_reach h \<Longrightarrow> req_reach (Req_AddBytesV k v h)"
| req_AddBytesKV: "req_reach h \<Longrightarrow> req_reach (Req_AddBytesKV k v h)"
| req_Del: "req_reach h \<Longrightarrow> req_reach (Req_Del k h)"
| req_DelBytes: "req_reach h \<Longrightarrow> req_reach (Req_DelBytes k h)"
| req_SetCookie: "req_reach h \<Longrightarrow> Req_SetCookie k v h = Inr h' \<Longrightarrow> req_reach h'"
| req_SetCookieBytesK: "req_reach h \<Longrightarrow> Req_SetCookieBytesK k v h = Inr h' \<Longrightarrow> req_reach h'"
| req_SetCookieBytesKV: "req_reach h \<Longrightarrow> Req_SetCookieBytesKV k v h = Inr h' \<Longrightarrow> req_reach h'"
| req_DelCookie: "req_reach h \<Longrightarrow> Req_DelCookie k h = Inr h' \<Longrightarrow> req_reach h'"
| req_DelCookieBytes: "req_reach h \<Longrightarrow> Req_DelCookieBytes k h = Inr h' \<Longrightarrow> req_reach h'"
| req_DelAllCookies: "req_reach h \<Longrightarrow> Req_DelAllCookies h = Inr h' \<Longrightarrow> req_reach h'"
| req_Peek: "req_reach h \<Longrightarrow> Req_Peek k h = Inr (r, h') \<Longrightarrow> req_reach h'"
| req_PeekBytes: "req_reach h \<Longrightarrow> Req_PeekBytes k h = Inr (r, h') \<Longrightarrow> req_reach h'"
| req_Referer: "req_reach h \<Longrightarrow> Req_Referer h = Inr (r, h') \<Longrightarrow> req_reach h'"
| req_ConnectionUpgrade: "req_reach h \<Longrightarrow> Req_ConnectionUpgrade h = Inr (r, h') \<Longrightarrow> req_reach h'"
| req_HasAcceptEncodingBytes: "req_reach h \<Longrightarrow> Req_HasAcceptEncodingBytes x h = Inr (r, h') \<Longrightarrow> req_reach h'"
| req_HasAcceptEncoding: "req_reach h \<Longrightarrow> Req_HasAcceptEncoding x h = Inr (r, h') \<Longrightarrow> req_reach h'"
| req_Cookie: "req_reach h \<Longrightarrow> Req_Cookie k h = Inr (r, h') \<Longrightarrow> req_reach h'"
| req_CookieBytes: "req_reach h \<Longrightarrow> Req_CookieBytes k h = Inr (r, h') \<Longrightarrow> req_reach h'"
| req_VisitAllCookie: "req_reach h \<Longrightarrow> Req_VisitAllCookie f s h = Inr (r :: (bytes \<times> bytes) list, h') \<Longrightarrow> req_reach h'"
| req_VisitAll: "req_reach h \<Longrightarrow> Req_VisitAll f s h = Inr (r :: (bytes \<times> bytes) list, h') \<Longrightarrow> req_reach h'"
| req_Len: "req_reach h \<Longrightarrow> Req_Len h = Inr (r, h') \<Longrightarrow> req_reach h'"
| req_AppendBytes: "req_reach h \<Longrightarrow> Req_AppendBytes dst h = Inr (r, h') \<Longrightarrow> req_reach h'"
| req_Header: "req_reach h \<Longrightarrow> Req_Header h = Inr (r, h') \<Longrightarrow> req_reach h'"
| req_String: "req_reach h \<Longrightarrow> Req_String h = Inr (r, h') \<Longrightarrow> req_reach h'"
| req_WriteTo: "req_reach h \<Longrightarrow> Req_WriteTo w h = Inr (r, h') \<Longrightarrow> req_reach h'"
| req_Write: "req_reach h \<Longrightarrow> Req_Write w h = Inr (r, h') \<Longrightarrow> req_reach h'"

lemma canon_setters:
  assumes "canon h"
  shows "Req_Set k v h = Inr h' \<Longrightarrow> canon h'" "Req_SetBytesV k v h = Inr h' \<Longrightarrow> canon h'" "Req_SetBytesKV k v h = Inr h' \<Longrightarrow> canon h'"
proof -
  have d: "\<not> rq_disableNormalizing h" and u: "canon (h\<lparr>rq_bufKV := x\<rparr>)" for x using assms by (simp_all add: canon_def)
  show "Req_Set k v h = Inr h' \<Longrightarrow> canon h'"
    using d by (intro canon_SetCanonical [OF u normalizeHeaderKey_idem]) (simp add: Req_Set_def initHeaderKV_def getHeaderKeyBytes_def Let_def)
  show "Req_SetBytesV k v h = Inr h' \<Longrightarrow> canon h'"
    using d by (intro canon_SetCanonical [OF u normalizeHeaderKey_idem]) (simp add: Req_SetBytesV_def getHeaderKeyBytes_def Let_def)
  show "Req_SetBytesKV k v h = Inr h' \<Longrightarrow> canon h'"
    using d by (intro canon_SetCanonical [OF u normalizeHeaderKey_idem]) (simp add: Req_SetBytesKV_def Let_def)
qed

lemma canon_SetContentLength: "canon h \<Longrightarrow> Req_SetContentLength n h = Inr h' \<Longrightarrow> canon h'"
  using canon_parseRawHeaders [of h]
  by (cases "AppendUint [] n") (auto simp: Req_SetContentLength_def Let_def canon_def split: if_splits)

lemma canon_SetByteRange:
  assumes "canon h" "Req_SetByteRange i j h = Inr h'"
  shows "canon h'"
proof -
  obtain x v where "Req_SetCanonical StrRange v ((Req_parseRawHeaders h)\<lparr>rq_bufKV := x\<rparr>) = Inr h'"
    using assms(2) by (auto simp: Req_SetByteRange_def Let_def go_then_def split: sum.splits if_splits)
  moreover have "canon ((Req_parseRawHeaders h)\<lparr>rq_bufKV := x\<rparr>)"
    using canon_parseRawHeaders [OF assms(1)] by (simp add: canon_def)
  ultimately show ?thesis using canon_SetCanonical by (metis canonical_names(9))
qed

lemma canon_fields [simp]:
  "canon (h\<lparr>rq_method := x\<rparr>) = canon h" "canon (h\<lparr>rq_requestURI := x\<rparr>) = canon h" "canon (h\<lparr>rq_contentType := x\<rparr>) = canon h"
  "canon (h\<lparr>rq_host := x\<rparr>) = canon h" "canon (h\<lparr>rq_userAgent := x\<rparr>) = canon h" "canon (h\<lparr>rq_bufKV := y\<rparr>) = canon h"
  "canon (h\<lparr>rq_connectionClose := z\<rparr>) = canon h" "canon (h\<lparr>rq_isGet := z\<rparr>) = canon h" "canon (h\<lparr>rq_cookies := w\<rparr>) = canon h"
  by (simp_all add: canon_def)

lemma canon_reset: "canon (Req_Reset h)" "canon h \<Longrightarrow> canon (Req_ResetSkipNormalize h)" "canon h \<Longrightarrow> canon (Req_CopyTo h dst)"
  by (simp_all add: canon_def Req_Reset_def Req_ResetSkipNormalize_def Req_CopyTo_def Let_def)

lemma canon_fields_set:
  assumes "canon h"
  shows "canon (Req_SetMethod x h)" "canon (Req_SetMethodBytes x h)" "canon (Req_SetRequestURI x h)" "canon (Req_SetRequestURIBytes x h)"
    "canon (Req_SetContentType x h)" "canon (Req_SetContentTypeBytes x h)" "canon (Req_SetMultipartFormBoundary x h)"
    "canon (Req_SetMultipartFormBoundaryBytes x h)" "canon (Req_SetHost x h)" "canon (Req_SetHostBytes x h)"
    "canon (Req_SetUserAgent x h)" "canon (Req_SetUserAgentBytes x h)" "canon (Req_SetConnectionClose h)"
  by (simp_all add: assms canon_parseRawHeaders Req_SetMethod_def Req_SetMethodBytes_def Req_SetRequestURI_def
      Req_SetRequestURIBytes_def Req_SetContentType_def Req_SetContentTypeBytes_def Req_SetMultipartFormBoundary_def
      Req_SetMultipartFormBoundaryBytes_def Req_SetHost_def Req_SetHostBytes_def Req_SetUserAgent_def Req_SetUserAgentBytes_def
      Req_SetConnectionClose_def Let_def)

lemma canon_fields_get:
  assumes "canon h"
  shows "canon (snd (Req_IsGet h))" "canon (snd (Req_ConnectionClose h))" "canon (snd (Req_ContentLength h))"
    "canon (snd (Req_ContentType h))" "canon (snd (Req_MultipartFormBoundary h))" "canon (snd (Req_UserAgent h))"
  using assms canon_NoBody [OF assms]
  by (simp_all add: canon_parseRawHeaders Req_IsGet_def Req_ConnectionClose_def Req_ContentLength_def Req_ContentType_def
      Req_MultipartFormBoundary_def Req_UserAgent_def Let_def split_beta)

lemma canon_lists:
  assumes "canon h"
  shows "canon (Req_ResetConnectionClose h)" "canon (Req_Add k v h)" "canon (Req_Del k h)" "canon (Req_DelBytes k h)"
  using canon_parseRawHeaders [OF assms] assms
  by (simp_all add: canon_def Req_ResetConnectionClose_def Req_Add_def Req_Del_def Req_DelBytes_def Req_del_def
      getHeaderKeyBytes_def Let_def normalizeHeaderKey_idem)

text \<open>The methods that may panic.\<close>

lemma canon_Host: "canon h \<Longrightarrow> Req_Host h = Inr (r, h') \<Longrightarrow> canon h'"
  by (auto simp: Req_Host_def Let_def go_then_def canon_parseRawHeaders split: if_splits sum.splits option.splits)

lemma canon_cookies:
  assumes "canon h"
  shows "Req_SetCookie k v h = Inr h' \<Longrightarrow> canon h'" "Req_DelCookie k h = Inr h' \<Longrightarrow> canon h'" "Req_DelAllCookies h = Inr h' \<Longrightarrow> canon h'"
    "Req_Cookie k h = Inr (r, h') \<Longrightarrow> canon h'" "Req_CookieBytes k h = Inr (r, h') \<Longrightarrow> canon h'"
    "Req_VisitAllCookie f s h = Inr (q, h') \<Longrightarrow> canon h'"
  using canon_collectCookies [OF canon_parseRawHeaders [OF assms]]
  by (auto simp: Req_SetCookie_def Req_DelCookie_def Req_DelAllCookies_def Req_Cookie_def Req_CookieBytes_def Req_VisitAllCookie_def
      go_then_def split: sum.splits)

lemma canon_peek: "canon h \<Longrightarrow> Req_peek k h = Inr (r, h') \<Longrightarrow> canon h'"
  using canon_Host [OF canon_parseRawHeaders [of h]]
  by (auto simp: Req_peek_def Req_ContentType_def Req_UserAgent_def Req_ConnectionClose_def Let_def go_then_def canon_parseRawHeaders
      split: if_splits sum.splits)

lemma canon_lookups:
  assumes "canon h"
  shows "Req_Peek k h = Inr (r, h') \<Longrightarrow> canon h'" "Req_PeekBytes k h = Inr (r, h') \<Longrightarrow> canon h'"
    "Req_HasAcceptEncodingBytes x h = Inr (t, h') \<Longrightarrow> canon h'"
proof -
  have c: "canon (h\<lparr>rq_bufKV := y\<rparr>)" for y using assms by simp
  show "Req_Peek k h = Inr (r, h') \<Longrightarrow> canon h'"
    using canon_peek [OF c] by (auto simp: Req_Peek_def split: prod.splits)
  show "Req_PeekBytes k h = Inr (r, h') \<Longrightarrow> canon h'"
    using canon_peek [OF c] by (auto simp: Req_PeekBytes_def Let_def)
  assume a: "Req_HasAcceptEncodingBytes x h = Inr (t, h')"
  then obtain ae h1 where 1: "Req_peek StrAcceptEncoding h = Inr (ae, h1)"
    by (cases "Req_peek StrAcceptEncoding h") (auto simp: Req_HasAcceptEncodingBytes_def)
  moreover have "h' = h1" using a 1 by (auto simp: Req_HasAcceptEncodingBytes_def Let_def split: option.splits)
  ultimately show "canon h'" using canon_peek [OF assms] by blast
qed

lemma canon_upgrade: "canon h \<Longrightarrow> Req_ConnectionUpgrade h = Inr (r, h') \<Longrightarrow> canon h'"
  using canon_lookups(1) [OF canon_parseRawHeaders]
  by (auto simp: Req_ConnectionUpgrade_def go_then_def split: sum.splits)

lemma canon_VisitAll:
  assumes "canon h" "Req_VisitAll f s h = Inr (q, h')"
  shows "canon h'"
proof -
  obtain hst h1 where 1: "Req_Host (Req_parseRawHeaders h) = Inr (hst, h1)"
    using assms(2) by (cases "Req_Host (Req_parseRawHeaders h)") (auto simp: Req_VisitAll_def)
  let ?h2 = "Req_parseRawHeaders (Req_parseRawHeaders h1)"
  have c2: "canon ?h2"
    by (intro canon_parseRawHeaders canon_Host [OF _ 1] assms(1))
  obtain h3 where 3: "Req_collectCookies ?h2 = Inr h3"
    using assms(2) 1 by (cases "Req_collectCookies ?h2") (auto simp: Req_VisitAll_def Let_def Req_ContentType_def Req_UserAgent_def)
  have c3: "canon h3" by (rule canon_collectCookies [OF c2 3])
  have "h' = Req_parseRawHeaders h3 \<or> (\<exists>x. h' = Req_parseRawHeaders (h3\<lparr>rq_bufKV := x\<rparr>))"
    using assms(2) 1 3 by (auto simp: Req_VisitAll_def Let_def Req_ContentType_def Req_UserAgent_def Req_ConnectionClose_def split: if_splits)
  then show ?thesis using c3 by (auto intro: canon_parseRawHeaders)
qed

lemma canon_AppendBytes:
  assumes "canon h" "Req_AppendBytes dst h = Inr (q, h')"
  shows "canon h'"
proof (cases "\<not> rq_rawHeadersParsed h \<and> rq_rawHeaders h \<noteq> []")
  case True
  then show ?thesis using assms by (simp add: Req_AppendBytes_def Let_def)
next
  case False
  let ?h1 = "Req_parseRawHeaders h"
  obtain hst h2 where 2: "Req_Host ?h1 = Inr (hst, h2)"
    using assms(2) False by (cases "Req_Host ?h1") (auto simp: Req_AppendBytes_def Let_def Req_UserAgent_def)
  have "h' = Req_parseRawHeaders (snd (Req_NoBody (Req_parseRawHeaders h2)))"
    using assms(2) False 2 by (auto simp: Req_AppendBytes_def Let_def Req_UserAgent_def Req_ContentType_def Req_ConnectionClose_def split: prod.splits)
  then show ?thesis
    using canon_Host [OF _ 2] assms(1) by (simp add: canon_parseRawHeaders canon_NoBody)
qed

lemma canon_Header: "canon h \<Longrightarrow> Req_Header h = Inr (r, h') \<Longrightarrow> canon h'"
  using canon_AppendBytes [of h "[]"] by (auto simp: Req_Header_def go_then_def split: sum.splits)

lemma canon_Write: "canon h \<Longrightarrow> Req_WriteTo w h = Inr (r, h') \<Longrightarrow> canon h'" "canon h \<Longrightarrow> Req_Write w h = Inr (e, h') \<Longrightarrow> canon h'"
  using canon_Header [of h] by (auto simp: Req_WriteTo_def Req_Write_def go_then_def split: sum.splits)

lemma canon_derived:
  assumes "canon h"
  shows "Req_SetBytesK k v h = Inr h' \<Longrightarrow> canon h'" "Req_SetReferer v h = Inr h' \<Longrightarrow> canon h'" "Req_SetRefererBytes v h = Inr h' \<Longrightarrow> canon h'"
    "Req_Referer h = Inr (r, h') \<Longrightarrow> canon h'" "Req_HasAcceptEncoding x h = Inr (t, h') \<Longrightarrow> canon h'" "Req_Len h = Inr (n, h') \<Longrightarrow> canon h'"
proof -
  have K: "Req_SetBytesK k v h = Inr h' \<Longrightarrow> canon h'" for k
    using canon_setters(3) [of "h\<lparr>rq_bufKV := x\<rparr>" for x] assms by (auto simp: Req_SetBytesK_def Let_def)
  then show "Req_SetBytesK k v h = Inr h' \<Longrightarrow> canon h'" "Req_SetReferer v h = Inr h' \<Longrightarrow> canon h'" by (auto simp: Req_SetReferer_def)
  show "Req_SetRefererBytes v h = Inr h' \<Longrightarrow> canon h'"
    unfolding Req_SetRefererBytes_def by (rule canon_SetCanonical [OF assms]) (simp_all add: StrReferer_def normalizeHeaderKey_def ToUpperTable_def ToLowerTable_def)
  show "Req_Referer h = Inr (r, h') \<Longrightarrow> canon h'" unfolding Req_Referer_def by (rule canon_lookups(2) [OF assms])
  show "Req_HasAcceptEncoding x h = Inr (t, h') \<Longrightarrow> canon h'"
    using canon_lookups(3) [of "h\<lparr>rq_bufKV := y\<rparr>" for y] assms by (auto simp: Req_HasAcceptEncoding_def Let_def)
  show "Req_Len h = Inr (n, h') \<Longrightarrow> canon h'" unfolding Req_Len_def by (rule canon_VisitAll [OF assms])
qed

lemma reach_canon: "req_reach h \<Longrightarrow> canon h"
proof (induction rule: req_reach.induct)
  case req_zero
  then show ?case by (simp add: canon_def zeroRequest_def keys_ok_def)
qed (auto simp: Req_AddBytesK_def Req_AddBytesV_def Req_AddBytesKV_def Req_SetCookieBytesK_def Req_SetCookieBytesKV_def
    Req_DelCookieBytes_def Req_String_def
    intro: canon_reset canon_Parse canon_parseRawHeaders canon_collectCookies canon_fields_set canon_fields_get canon_NoBody canon_lists
      canon_Host canon_SetContentLength canon_SetByteRange canon_SetCanonical canon_setters canon_cookies canon_lookups canon_upgrade
      canon_VisitAll canon_AppendBytes canon_Header canon_Write canon_derived)

section \<open>Frames\<close>

lemma run_lines_frame:
  "rq_method (run_lines d ls h) = rq_method h \<and> rq_isGet (run_lines d ls h) = rq_isGet h \<and> rq_noHTTP11 (run_lines d ls h) = rq_noHTTP11 h"
proof (induction ls arbitrary: h)
  case (Cons x ls)
  have "rq_method (req_line k v h) = rq_method h \<and> rq_isGet (req_line k v h) = rq_isGet h \<and> rq_noHTTP11 (req_line k v h) = rq_noHTTP11 h" for k v
    by (simp add: req_line_def split: prod.split option.split)
  then show ?case using Cons by (cases x) simp
qed simp

lemma req_finish_host: "rq_host (req_finish h) = rq_host h"
  by (rule req_finish_inv [of "\<lambda>x. rq_host x = rq_host h"]) simp_all

lemma peek_bufKV:
  assumes "rq_rawHeadersParsed h" "Req_peek k h = Inr (v, h)"
  shows "Req_peek k (h\<lparr>rq_bufKV := x\<rparr>) = Inr (v, h\<lparr>rq_bufKV := x\<rparr>)"
  using assms by (auto simp: Req_peek_def Let_def Req_ContentType_def Req_UserAgent_def Req_ConnectionClose_def split: if_splits)

section \<open>Properties\<close>

text \<open>
  C3. Request headers round trip: parsing what \<open>AppendBytes\<close> prints for a request with a body, into any header that was
  reset and with any bytes behind it, consumes exactly the printed bytes and gives the method, the URI, the host, the
  content type and length, the list of headers with the cookies as one Cookie header at its end, and the close flag. The
  lines have no line breaks and no outer spaces, and the list has canonical names without a field of their own; a request
  without a Content-Length gets the length -2, and a missing user agent or content type its default.
\<close>

theorem request_header_roundtrip:
  assumes parsed: "rq_rawHeadersParsed h" and body: "has_body h"
    and m: "rq_method h \<noteq> []" "32 \<notin> set (rq_method h)" "10 \<notin> set (rq_method h)"
    and u: "rq_requestURI h \<noteq> []" "10 \<notin> set (rq_requestURI h)"
    and lines: "list_all (\<lambda>(k, v). line_ok k v) (req_lines h)"
    and plain: "\<forall>kv \<in> set (live (rq_h h)). plain_key (Key kv) \<and> normalizeHeaderKey (Key kv) False = Key kv"
    and cl: "rq_contentLengthBytes h \<noteq> [] \<Longrightarrow>
      parseContentLength (rq_contentLengthBytes h) = (rq_contentLength h, None) \<and> 0 \<le> rq_contentLength h"
  shows "\<exists>b h'. Req_AppendBytes [] h = Inr (b, h) \<and> Req_Parse (b @ r) (Req_Reset g) = (Inr (length b), h') \<and>
     rq_method h' = rq_method h \<and> rq_requestURI h' = rq_requestURI h \<and> rq_host h' = rq_host h \<and>
     rq_userAgent h' = (if rq_userAgent h = [] then defaultUserAgent else rq_userAgent h) \<and>
     rq_contentType h' = (if rq_contentType h = [] then StrPostArgsContentType else rq_contentType h) \<and>
     rq_contentLengthBytes h' = rq_contentLengthBytes h \<and>
     rq_contentLength h' = (if rq_contentLengthBytes h = [] then - 2 else rq_contentLength h) \<and>
     rq_connectionClose h' = rq_connectionClose h \<and>
     live (rq_h h') = live (rq_h h) @ (if live (rq_cookies h) = [] then []
       else [\<lparr>Key = StrCookie, Value = appendRequestCookieBytes [] (live (rq_cookies h))\<rparr>])"
proof -
  let ?m = "rq_method h" and ?u = "rq_requestURI h"
  have mu: "Req_Method h = ?m" "Req_RequestURI h = ?u" using m u by (simp_all add: Req_Method_def Req_RequestURI_def)
  have gh: "?m \<noteq> StrGet" "?m \<noteq> StrHead" using body mu by (simp_all add: has_body_def)
  let ?b = "request_line ?m ?u @ print_lines (req_lines h) @ StrCRLF"
  define g1 where "g1 = (Req_Reset g)\<lparr>rq_method := ?m, rq_requestURI := ?u, rq_contentLength := - 2\<rparr>"
  have g: "rq_contentLength g1 = - 2" "\<not> rq_disableNormalizing (Req_Reset g)" "\<not> rq_isGet (Req_Reset g)"
    by (simp_all add: g1_def Req_Reset_def Req_ResetSkipNormalize_def)
  obtain x where x: "run_lines False (req_lines h) g1 = g1\<lparr>
      rq_userAgent := (if rq_userAgent h = [] then defaultUserAgent else rq_userAgent h),
      rq_host := (if rq_host h = [] then rq_host g1 else rq_host h),
      rq_contentType := (if rq_contentType h = [] then StrPostArgsContentType else rq_contentType h),
      rq_contentLength := (if rq_contentLengthBytes h = [] then - 2 else rq_contentLength h),
      rq_contentLengthBytes := (if rq_contentLengthBytes h = [] then rq_contentLengthBytes g1 else rq_contentLengthBytes h),
      rq_connectionClose := rq_connectionClose h \<or> rq_connectionClose g1, rq_h := x\<rparr>" (is "_ = ?h")
    and lx: "live x = live (rq_h g1) @ live (rq_h h) @ (if live (rq_cookies h) = [] then []
       else [\<lparr>Key = StrCookie, Value = appendRequestCookieBytes [] (live (rq_cookies h))\<rparr>])"
    using run_req_lines [OF plain _ g(1), of "rq_contentLength h"] cl by blast
  have fin: "req_finish ?h = (if rq_contentLength ?h < 0 then ?h\<lparr>rq_contentLengthBytes := []\<rparr> else ?h)"
    using gh m by (intro req_finish_body) (simp_all add: has_body_def Req_Method_def g1_def Req_Reset_def Req_ResetSkipNormalize_def)
  have fin': "req_finish ?h = ?h\<lparr>rq_contentLengthBytes := rq_contentLengthBytes h\<rparr>"
    unfolding fin using cl by (cases "rq_contentLengthBytes h = []") simp_all
  have "Req_Parse (?b @ r) (Req_Reset g) =
      (Inr (length ?b), ?h\<lparr>rq_contentLengthBytes := rq_contentLengthBytes h, rq_rawHeadersParsed := True\<rparr>)"
    using Parse_lines [OF m u gh g(3) lines, of r] g(2) by (simp add: g1_def [symmetric] x fin')
  moreover have "Req_AppendBytes [] h = Inr (?b, h)" using AppendBytes_eq [OF parsed body] by (simp add: mu)
  ultimately show ?thesis
    using lx
    by (intro exI [of _ ?b] exI [of _ "?h\<lparr>rq_contentLengthBytes := rq_contentLengthBytes h, rq_rawHeadersParsed := True\<rparr>"])
      (simp add: g1_def Req_Reset_def Req_ResetSkipNormalize_def resetArgs_def)
qed

theorem request_header_roundtrip_witness:
  "\<exists>b h'. Req_AppendBytes [] (zeroRequest\<lparr>rq_rawHeadersParsed := True, rq_method := StrPost, rq_requestURI := [47], rq_host := [97],
       rq_contentLength := 5, rq_contentLengthBytes := [53]\<rparr>) = Inr (b, zeroRequest\<lparr>rq_rawHeadersParsed := True, rq_method := StrPost,
       rq_requestURI := [47], rq_host := [97], rq_contentLength := 5, rq_contentLengthBytes := [53]\<rparr>) \<and>
     Req_Parse (b @ [120]) (Req_Reset zeroRequest) = (Inr (length b), h') \<and> rq_host h' = [97] \<and> rq_contentLength h' = 5"
proof -
  let ?h = "zeroRequest\<lparr>rq_rawHeadersParsed := True, rq_method := StrPost, rq_requestURI := [47], rq_host := [97],
       rq_contentLength := 5, rq_contentLengthBytes := [53]\<rparr>"
  have 1: "has_body ?h" by (simp add: has_body_def Req_Method_def zeroRequest_def header_strings)
  have 2: "rq_method ?h \<noteq> []" "32 \<notin> set (rq_method ?h)" "10 \<notin> set (rq_method ?h)" by (simp_all add: StrPost_def)
  have 3: "list_all (\<lambda>(k, v). line_ok k v) (req_lines ?h)" by (simp add: req_lines_def zeroRequest_def line_ok_def header_strings)
  have 4: "parseContentLength [53] = (5, None)" by code_simp
  have 5: "live (rq_h ?h) = []" by (simp add: zeroRequest_def)
  have 6: "rq_requestURI ?h \<noteq> []" "10 \<notin> set (rq_requestURI ?h)" "rq_rawHeadersParsed ?h" by simp_all
  obtain b h' where "Req_AppendBytes [] ?h = Inr (b, ?h)" "Req_Parse (b @ [120]) (Req_Reset zeroRequest) = (Inr (length b), h')"
    "rq_host h' = rq_host ?h" "rq_contentLength h' = (if rq_contentLengthBytes ?h = [] then - 2 else rq_contentLength ?h)"
    using request_header_roundtrip [OF 6(3) 1 2 6(1,2) 3, of "[120]" zeroRequest] 4 5 by auto
  then show ?thesis by auto
qed

text \<open>
  C37. A complete header is parsed alike whatever follows it: if \<open>Parse\<close> accepts a buffer it consumes no more than the buffer,
  and with more bytes appended it consumes the same number and leaves the same header.
\<close>

theorem parse_ignores_rest:
  assumes "Req_Parse buf h = (Inr n, h')"
  shows "n \<le> length buf \<and> Req_Parse (buf @ more_bytes) h = (Inr n, h')"
  using Parse_more [OF assms] by blast

theorem parse_ignores_rest_witness:
  "\<exists>h'. Req_Parse (request_line StrPost [47] @ StrCRLF @ [71, 69, 84]) zeroRequest = (Inr (length (request_line StrPost [47] @ StrCRLF)), h')"
proof -
  have "Req_Parse (request_line StrPost [47] @ print_lines [] @ StrCRLF @ []) zeroRequest =
      (Inr (length (request_line StrPost [47] @ print_lines [] @ StrCRLF)),
       (req_finish (run_lines (rq_disableNormalizing zeroRequest) [] (zeroRequest\<lparr>rq_method := StrPost, rq_requestURI := [47], rq_contentLength := - 2\<rparr>)))
         \<lparr>rq_rawHeadersParsed := True\<rparr>)"
    by (rule Parse_lines) (simp_all add: header_strings zeroRequest_def)
  from parse_ignores_rest [OF this, of "[71, 69, 84]"] show ?thesis by simp
qed

text \<open>
  C4. Framing: a Transfer-Encoding header other than \<open>identity\<close>, in any spelling of its name and at any place, makes the
  body chunked; no Content-Length header before or behind it has an effect, so the two cannot be played against each other.
\<close>

theorem chunked_overrides_length:
  assumes "m \<noteq> []" "32 \<notin> set m" "10 \<notin> set m" "u \<noteq> []" "10 \<notin> set u" "m \<noteq> StrGet" "m \<noteq> StrHead"
    and lines: "list_all (\<lambda>(k, v). line_ok k v) ls"
    and te: "(k, v) \<in> set ls" "map ToLowerTable k = map ToLowerTable StrTransferEncoding" "v \<noteq> StrIdentity"
  shows "\<exists>h'. Req_Parse (request_line m u @ print_lines ls @ StrCRLF @ r) (Req_Reset g) =
       (Inr (length (request_line m u @ print_lines ls @ StrCRLF)), h') \<and>
     rq_contentLength h' = - 1 \<and> rq_contentLengthBytes h' = []"
proof -
  let ?g = "(Req_Reset g)\<lparr>rq_method := m, rq_requestURI := u, rq_contentLength := - 2\<rparr>"
  have g: "\<not> rq_isGet (Req_Reset g)" "\<not> rq_disableNormalizing (Req_Reset g)"
    by (simp_all add: Req_Reset_def Req_ResetSkipNormalize_def)
  have k: "normalizeHeaderKey k False = StrTransferEncoding" using normalizeHeaderKey_case [OF te(2)] by simp
  let ?h = "run_lines False ls ?g"
  have c: "rq_contentLength ?h = - 1" by (rule run_lines_chunked [OF te(1) k te(3)])
  have f: "rq_method ?h = m \<and> rq_isGet ?h = False \<and> rq_noHTTP11 ?h = False"
    using run_lines_frame [of False ls ?g] by (simp add: Req_Reset_def Req_ResetSkipNormalize_def)
  have "req_finish ?h = ?h\<lparr>rq_contentLengthBytes := []\<rparr>"
    using f c assms by (subst req_finish_body) (simp_all add: has_body_def Req_Method_def)
  then show ?thesis
    using Parse_lines [OF assms(1-7) g(1) lines, of r] g(2) c by simp
qed

theorem chunked_overrides_length_witness:
  "\<exists>h'. Req_Parse (request_line StrPost [47] @ print_lines [(StrTransferEncoding, StrChunked), (StrContentLength, [53])] @ StrCRLF @ [])
       (Req_Reset zeroRequest) =
     (Inr (length (request_line StrPost [47] @ print_lines [(StrTransferEncoding, StrChunked), (StrContentLength, [53])] @ StrCRLF)), h') \<and>
     rq_contentLength h' = - 1 \<and> rq_contentLengthBytes h' = []"
  by (rule chunked_overrides_length [of _ _ _ StrTransferEncoding StrChunked]) (simp_all add: header_strings line_ok_def)

text \<open>
  C38. A header that was set is found under any spelling of its name: after \<open>Set\<close> with a name and a value, \<open>Peek\<close> returns the
  value for every name that differs in the case of its letters only. Not so for Cookie and Transfer-Encoding, which are
  managed apart, and for a Content-Length that is not a number.
\<close>

theorem set_then_peek:
  assumes "\<not> rq_disableNormalizing h" "map ToLowerTable k' = map ToLowerTable k"
    and "normalizeHeaderKey k False \<notin> {StrCookie, StrTransferEncoding}"
    and "normalizeHeaderKey k False = StrContentLength \<Longrightarrow> snd (parseContentLength v) = None"
  shows "\<exists>h1 h2. Req_Set k v h = Inr h1 \<and> Req_Peek k' h1 = Inr (Some v, h2)"
proof -
  let ?k = "normalizeHeaderKey k False"
  let ?h = "h\<lparr>rq_bufKV := \<lparr>Key = ?k, Value = v\<rparr>\<rparr>"
  obtain h1 where h1: "Req_SetCanonical ?k v (Req_parseRawHeaders ?h) = Inr h1" "rq_rawHeadersParsed h1"
    "rq_disableNormalizing h1 = rq_disableNormalizing (Req_parseRawHeaders ?h)" "Req_peek ?k h1 = Inr (Some v, h1)"
    using SetCanonical_peek [OF parseRawHeaders_parsed assms(3,4), of ?h] by blast
  have "Req_Set k v h = Req_SetCanonical ?k v ?h"
    using assms(1) by (cases "rq_bufKV h") (simp add: Req_Set_def initHeaderKV_def getHeaderKeyBytes_def Let_def)
  also have "\<dots> = Req_SetCanonical ?k v (Req_parseRawHeaders ?h)" by (simp add: Req_SetCanonical_def)
  finally have s: "Req_Set k v h = Inr h1" using h1(1) by simp
  have d: "\<not> rq_disableNormalizing h1" using h1(3) assms(1) by simp
  have kk: "normalizeHeaderKey k' False = ?k" by (rule normalizeHeaderKey_case [OF assms(2)])
  have "\<exists>h2. Req_peek ?k (h1\<lparr>rq_bufKV := x\<rparr>) = Inr (Some v, h2)" for x
    using peek_bufKV [OF h1(2,4)] by blast
  then show ?thesis using s d kk by (auto simp: Req_Peek_def getHeaderKeyBytes_def Let_def)
qed

theorem set_then_peek_witness:
  "\<exists>h1 h2. Req_Set [120, 45, 97] [49] zeroRequest = Inr h1 \<and> Req_Peek [88, 45, 65] h1 = Inr (Some [49], h2)"
proof (rule set_then_peek)
  show "\<not> rq_disableNormalizing zeroRequest" by (simp add: zeroRequest_def)
  show "map ToLowerTable [88, 45, 65] = map ToLowerTable [120, 45, 97]" by (simp add: ToLowerTable_def)
  have n: "normalizeHeaderKey [120, 45, 97] False = [88, 45, 65]" by (simp add: normalizeHeaderKey_def ToUpperTable_def)
  show "normalizeHeaderKey [120, 45, 97] False \<notin> {StrCookie, StrTransferEncoding}" unfolding n by (simp add: header_strings)
  assume "normalizeHeaderKey [120, 45, 97] False = StrContentLength"
  then show "snd (parseContentLength [49]) = None" unfolding n by (simp add: header_strings)
qed

text \<open>
  C39. Type of the header list: every name in the list of headers is in canonical form, through every method that changes a
  request header, in any order and number, as long as the canonical form is not switched off (\<open>DisableNormalizing\<close>) and
  \<open>SetCanonical\<close>, which does not normalise, is given a key in canonical form.
\<close>

theorem names_canonical:
  assumes "req_reach h" "kv \<in> set (live (rq_h h))"
  shows "normalizeHeaderKey (Key kv) False = Key kv"
  using reach_canon [OF assms(1)] assms(2) by (simp add: canon_def keys_ok_def)

theorem names_canonical_witness:
  "req_reach (Req_Add [120, 45, 97] [49] zeroRequest) \<and> live (rq_h (Req_Add [120, 45, 97] [49] zeroRequest)) = [\<lparr>Key = [88, 45, 65], Value = [49]\<rparr>] \<and>
   normalizeHeaderKey [88, 45, 65] False = [88, 45, 65]"
proof -
  have r: "req_reach (Req_Add [120, 45, 97] [49] zeroRequest)" by (rule req_Add [OF req_zero])
  have l: "live (rq_h (Req_Add [120, 45, 97] [49] zeroRequest)) = [\<lparr>Key = [88, 45, 65], Value = [49]\<rparr>]"
    by (simp add: Req_Add_def getHeaderKeyBytes_def Let_def zeroRequest_def AppendArg_live normalizeHeaderKey_def ToUpperTable_def
        ToLowerTable_def)
  show ?thesis using names_canonical [OF r, of "\<lparr>Key = [88, 45, 65], Value = [49]\<rparr>"] r l by simp
qed

text \<open>
  A stale method: \<open>IsGet\<close> keeps a positive answer and \<open>SetMethod\<close> does not clear it. Once \<open>IsGet\<close> has answered yes, a
  request turned into any other method still counts as a GET without a body, and its content length reads as zero.
\<close>

theorem set_method_keeps_get:
  assumes "fst (Req_IsGet h)"
  shows "fst (Req_IsGet (Req_SetMethod m (snd (Req_IsGet h)))) \<and> fst (Req_NoBody (Req_SetMethod m (snd (Req_IsGet h)))) \<and>
     fst (Req_ContentLength (Req_SetMethod m (snd (Req_IsGet h)))) = 0"
  using assms by (auto simp: Req_IsGet_def Req_SetMethod_def Req_NoBody_def Req_ContentLength_def Let_def)

theorem set_method_keeps_get_witness:
  "Req_Method (Req_SetMethod StrPost (snd (Req_IsGet zeroRequest))) = StrPost \<and>
   fst (Req_IsGet (Req_SetMethod StrPost (snd (Req_IsGet zeroRequest))))"
proof -
  have "fst (Req_IsGet zeroRequest)" by (simp add: Req_IsGet_def zeroRequest_def Req_Method_def Let_def)
  from set_method_keeps_get [OF this, of StrPost] show ?thesis
    by (simp add: Req_Method_def Req_SetMethod_def StrPost_def)
qed

text \<open>
  C40. Two Host headers: the fast path of \<open>Host\<close> answers with the first one, and the same method after any call that parsed the
  headers answers with the second. The host of such a request depends on what was asked before.
\<close>

theorem host_depends_on_order:
  assumes "\<not> rq_rawHeadersParsed h" "rq_host h = []" "\<not> rq_disableNormalizing h"
    and "rq_rawHeaders h = print_lines [(StrHost, a), (StrHost, b)] @ StrCRLF"
    and "a \<noteq> []" "line_ok StrHost a" "line_ok StrHost b"
  shows "(\<exists>h'. Req_Host h = Inr (a, h')) \<and> (\<exists>h'. Req_Host (Req_parseRawHeaders h) = Inr (b, h'))"
proof
  let ?raw = "StrHost @ 58 # 32 # a @ 13 # 10 # appendHeaderLine [] StrHost b @ StrCRLF"
  have raw: "rq_rawHeaders h = ?raw" using assms(4) by (simp add: appendHeaderLine_def StrColonSpace_def StrCRLF_def)
  have i: "bytes_Index ?raw StrHost = Some 0" by (simp add: StrHost_def)
  have j: "bytes_IndexByte (a @ 13 # 10 # appendHeaderLine [] StrHost b @ StrCRLF) 10 = Some (length a + 1)"
    using IndexByte_append [of 10 "a @ [13]"] assms(6) by (auto simp: line_ok_def)
  have "peekRawHeader ?raw StrHost = Inr (Some a)"
    unfolding peekRawHeader_def i option.case using j by (simp add: Let_def StrHost_def drop_cr_def)
  then show "\<exists>h'. Req_Host h = Inr (a, h')" using assms raw by (simp add: Req_Host_def Let_def)
  have "rq_host (snd (Req_parseHeaders (rq_rawHeaders h) (h\<lparr>rq_rawHeadersParsed := True\<rparr>))) = b"
    using parseHeaders_lines [of "[(StrHost, a), (StrHost, b)]" "[]" "h\<lparr>rq_rawHeadersParsed := True\<rparr>"] assms
    by (simp add: req_line_simps req_finish_host)
  moreover have "rq_rawHeaders h \<noteq> []" unfolding raw by (simp add: StrHost_def)
  ultimately have "rq_host (Req_parseRawHeaders h) = b" using assms(1) by (simp add: Req_parseRawHeaders_def Let_def)
  then show "\<exists>h'. Req_Host (Req_parseRawHeaders h) = Inr (b, h')" by simp
qed

theorem host_depends_on_order_witness:
  "(\<exists>h'. Req_Host (zeroRequest\<lparr>rq_rawHeaders := print_lines [(StrHost, [97]), (StrHost, [98])] @ StrCRLF\<rparr>) = Inr ([97], h')) \<and>
   (\<exists>h'. Req_Host (Req_parseRawHeaders (zeroRequest\<lparr>rq_rawHeaders := print_lines [(StrHost, [97]), (StrHost, [98])] @ StrCRLF\<rparr>)) = Inr ([98], h'))"
  by (rule host_depends_on_order) (simp_all add: zeroRequest_def line_ok_def StrHost_def)

end
