(* ===== verification/Http_Status.thy ===== *)
theory Http_Status
  imports Http_Scan
begin

text \<open>
  Status codes and status lines, \<open>pkg/protocol/http/v1/status.go\<close>. The message of a code is an Isabelle string, turned into
  bytes where a line is built. The lines built so far are kept in a map that every new line replaces by a larger one;
  the map is passed explicitly.
\<close>

section \<open>Codes\<close>

definition StatusContinue :: int where "StatusContinue = 100"
definition StatusSwitchingProtocols :: int where "StatusSwitchingProtocols = 101"
definition StatusProcessing :: int where "StatusProcessing = 102"
definition StatusOK :: int where "StatusOK = 200"
definition StatusCreated :: int where "StatusCreated = 201"
definition StatusAccepted :: int where "StatusAccepted = 202"
definition StatusNonAuthoritativeInfo :: int where "StatusNonAuthoritativeInfo = 203"
definition StatusNoContent :: int where "StatusNoContent = 204"
definition StatusResetContent :: int where "StatusResetContent = 205"
definition StatusPartialContent :: int where "StatusPartialContent = 206"
definition StatusMultiStatus :: int where "StatusMultiStatus = 207"
definition StatusAlreadyReported :: int where "StatusAlreadyReported = 208"
definition StatusIMUsed :: int where "StatusIMUsed = 226"
definition StatusMultipleChoices :: int where "StatusMultipleChoices = 300"
definition StatusMovedPermanently :: int where "StatusMovedPermanently = 301"
definition StatusFound :: int where "StatusFound = 302"
definition StatusSeeOther :: int where "StatusSeeOther = 303"
definition StatusNotModified :: int where "StatusNotModified = 304"
definition StatusUseProxy :: int where "StatusUseProxy = 305"
definition StatusTemporaryRedirect :: int where "StatusTemporaryRedirect = 307"
definition StatusPermanentRedirect :: int where "StatusPermanentRedirect = 308"
definition StatusBadRequest :: int where "StatusBadRequest = 400"
definition StatusUnauthorized :: int where "StatusUnauthorized = 401"
definition StatusPaymentRequired :: int where "StatusPaymentRequired = 402"
definition StatusForbidden :: int where "StatusForbidden = 403"
definition StatusNotFound :: int where "StatusNotFound = 404"
definition StatusMethodNotAllowed :: int where "StatusMethodNotAllowed = 405"
definition StatusNotAcceptable :: int where "StatusNotAcceptable = 406"
definition StatusProxyAuthRequired :: int where "StatusProxyAuthRequired = 407"
definition StatusRequestTimeout :: int where "StatusRequestTimeout = 408"
definition StatusConflict :: int where "StatusConflict = 409"
definition StatusGone :: int where "StatusGone = 410"
definition StatusLengthRequired :: int where "StatusLengthRequired = 411"
definition StatusPreconditionFailed :: int where "StatusPreconditionFailed = 412"
definition StatusRequestEntityTooLarge :: int where "StatusRequestEntityTooLarge = 413"
definition StatusRequestURITooLong :: int where "StatusRequestURITooLong = 414"
definition StatusUnsupportedMediaType :: int where "StatusUnsupportedMediaType = 415"
definition StatusRequestedRangeNotSatisfiable :: int where "StatusRequestedRangeNotSatisfiable = 416"
definition StatusExpectationFailed :: int where "StatusExpectationFailed = 417"
definition StatusTeapot :: int where "StatusTeapot = 418"
definition StatusUnprocessableEntity :: int where "StatusUnprocessableEntity = 422"
definition StatusLocked :: int where "StatusLocked = 423"
definition StatusFailedDependency :: int where "StatusFailedDependency = 424"
definition StatusUpgradeRequired :: int where "StatusUpgradeRequired = 426"
definition StatusPreconditionRequired :: int where "StatusPreconditionRequired = 428"
definition StatusTooManyRequests :: int where "StatusTooManyRequests = 429"
definition StatusRequestHeaderFieldsTooLarge :: int where "StatusRequestHeaderFieldsTooLarge = 431"
definition StatusUnavailableForLegalReasons :: int where "StatusUnavailableForLegalReasons = 451"
definition StatusInternalServerError :: int where "StatusInternalServerError = 500"
definition StatusNotImplemented :: int where "StatusNotImplemented = 501"
definition StatusBadGateway :: int where "StatusBadGateway = 502"
definition StatusServiceUnavailable :: int where "StatusServiceUnavailable = 503"
definition StatusGatewayTimeout :: int where "StatusGatewayTimeout = 504"
definition StatusHTTPVersionNotSupported :: int where "StatusHTTPVersionNotSupported = 505"
definition StatusVariantAlsoNegotiates :: int where "StatusVariantAlsoNegotiates = 506"
definition StatusInsufficientStorage :: int where "StatusInsufficientStorage = 507"
definition StatusLoopDetected :: int where "StatusLoopDetected = 508"
definition StatusNotExtended :: int where "StatusNotExtended = 510"
definition StatusNetworkAuthenticationRequired :: int where "StatusNetworkAuthenticationRequired = 511"

lemmas status_codes =
  StatusContinue_def StatusSwitchingProtocols_def StatusProcessing_def StatusOK_def StatusCreated_def
  StatusAccepted_def StatusNonAuthoritativeInfo_def StatusNoContent_def StatusResetContent_def
  StatusPartialContent_def StatusMultiStatus_def StatusAlreadyReported_def StatusIMUsed_def StatusMultipleChoices_def
  StatusMovedPermanently_def StatusFound_def StatusSeeOther_def StatusNotModified_def StatusUseProxy_def
  StatusTemporaryRedirect_def StatusPermanentRedirect_def StatusBadRequest_def StatusUnauthorized_def
  StatusPaymentRequired_def StatusForbidden_def StatusNotFound_def StatusMethodNotAllowed_def StatusNotAcceptable_def
  StatusProxyAuthRequired_def StatusRequestTimeout_def StatusConflict_def StatusGone_def StatusLengthRequired_def
  StatusPreconditionFailed_def StatusRequestEntityTooLarge_def StatusRequestURITooLong_def
  StatusUnsupportedMediaType_def StatusRequestedRangeNotSatisfiable_def StatusExpectationFailed_def StatusTeapot_def
  StatusUnprocessableEntity_def StatusLocked_def StatusFailedDependency_def StatusUpgradeRequired_def
  StatusPreconditionRequired_def StatusTooManyRequests_def StatusRequestHeaderFieldsTooLarge_def
  StatusUnavailableForLegalReasons_def StatusInternalServerError_def StatusNotImplemented_def StatusBadGateway_def
  StatusServiceUnavailable_def StatusGatewayTimeout_def StatusHTTPVersionNotSupported_def
  StatusVariantAlsoNegotiates_def StatusInsufficientStorage_def StatusLoopDetected_def StatusNotExtended_def
  StatusNetworkAuthenticationRequired_def

section \<open>Messages\<close>

definition statusMessages :: "int \<rightharpoonup> string" where
  "statusMessages = map_of
    [(StatusContinue, ''Continue''),
     (StatusSwitchingProtocols, ''Switching Protocols''),
     (StatusProcessing, ''Processing''),
     (StatusOK, ''OK''),
     (StatusCreated, ''Created''),
     (StatusAccepted, ''Accepted''),
     (StatusNonAuthoritativeInfo, ''Non-Authoritative Information''),
     (StatusNoContent, ''No Content''),
     (StatusResetContent, ''Reset Content''),
     (StatusPartialContent, ''Partial Content''),
     (StatusMultiStatus, ''Multi-Status''),
     (StatusAlreadyReported, ''Already Reported''),
     (StatusIMUsed, ''IM Used''),
     (StatusMultipleChoices, ''Multiple Choices''),
     (StatusMovedPermanently, ''Moved Permanently''),
     (StatusFound, ''Found''),
     (StatusSeeOther, ''See Other''),
     (StatusNotModified, ''Not Modified''),
     (StatusUseProxy, ''Use Proxy''),
     (StatusTemporaryRedirect, ''Temporary Redirect''),
     (StatusPermanentRedirect, ''Permanent Redirect''),
     (StatusBadRequest, ''Bad Request''),
     (StatusUnauthorized, ''Unauthorized''),
     (StatusPaymentRequired, ''Payment Required''),
     (StatusForbidden, ''Forbidden''),
     (StatusNotFound, ''Not Found''),
     (StatusMethodNotAllowed, ''Method Not Allowed''),
     (StatusNotAcceptable, ''Not Acceptable''),
     (StatusProxyAuthRequired, ''Proxy Authentication Required''),
     (StatusRequestTimeout, ''Request Timeout''),
     (StatusConflict, ''Conflict''),
     (StatusGone, ''Gone''),
     (StatusLengthRequired, ''Length Required''),
     (StatusPreconditionFailed, ''Precondition Failed''),
     (StatusRequestEntityTooLarge, ''Request Entity Too Large''),
     (StatusRequestURITooLong, ''Request URI Too Long''),
     (StatusUnsupportedMediaType, ''Unsupported Media Type''),
     (StatusRequestedRangeNotSatisfiable, ''Requested Range Not Satisfiable''),
     (StatusExpectationFailed, ''Expectation Failed''),
     (StatusTeapot, ''I'' @ [CHR 0x27] @ ''m a teapot''),
     (StatusUnprocessableEntity, ''Unprocessable Entity''),
     (StatusLocked, ''Locked''),
     (StatusFailedDependency, ''Failed Dependency''),
     (StatusUpgradeRequired, ''Upgrade Required''),
     (StatusPreconditionRequired, ''Precondition Required''),
     (StatusTooManyRequests, ''Too Many Requests''),
     (StatusRequestHeaderFieldsTooLarge, ''Request Header Fields Too Large''),
     (StatusUnavailableForLegalReasons, ''Unavailable For Legal Reasons''),
     (StatusInternalServerError, ''Internal Server Error''),
     (StatusNotImplemented, ''Not Implemented''),
     (StatusBadGateway, ''Bad Gateway''),
     (StatusServiceUnavailable, ''Service Unavailable''),
     (StatusGatewayTimeout, ''Gateway Timeout''),
     (StatusHTTPVersionNotSupported, ''HTTP Version Not Supported''),
     (StatusVariantAlsoNegotiates, ''Variant Also Negotiates''),
     (StatusInsufficientStorage, ''Insufficient Storage''),
     (StatusLoopDetected, ''Loop Detected''),
     (StatusNotExtended, ''Not Extended''),
     (StatusNetworkAuthenticationRequired, ''Network Authentication Required'')]"

definition StatusMessage :: "int \<Rightarrow> string" where
  "StatusMessage statusCode =
     (let s = (case statusMessages statusCode of None \<Rightarrow> [] | Some s \<Rightarrow> s) in
      if s = [] then ''Unknown Status Code'' else s)"

section \<open>Lines\<close>

definition go_bytes :: "string \<Rightarrow> bytes" where "go_bytes s = map of_char s"

text \<open>The verb \<open>%d\<close> for an integer.\<close>

definition format_d :: "int \<Rightarrow> bytes" where
  "format_d n = (if n < 0 then 45 # decimal (nat (- n)) else decimal (nat n))"

text \<open>The line that \<open>Sprintf\<close> builds.\<close>

definition render_status :: "int \<Rightarrow> bytes" where
  "render_status statusCode = StrHTTP11 @ [32] @ format_d statusCode @ [32] @ go_bytes (StatusMessage statusCode) @ StrCRLF"

definition statusLine :: "int \<Rightarrow> (int \<rightharpoonup> bytes) \<Rightarrow> bytes \<times> (int \<rightharpoonup> bytes)" where
  "statusLine statusCode m =
     (case m statusCode of
        Some h \<Rightarrow> (h, m)
      | None \<Rightarrow> let h = render_status statusCode in (h, m(statusCode \<mapsto> h)))"

section \<open>The map of lines is transparent\<close>

definition lines_ok :: "(int \<rightharpoonup> bytes) \<Rightarrow> bool" where
  "lines_ok m \<longleftrightarrow> (\<forall>c l. m c = Some l \<longrightarrow> l = render_status c)"

lemma lines_ok_empty: "lines_ok Map.empty"
  by (simp add: lines_ok_def)

lemma statusLine_render: "lines_ok m \<Longrightarrow> fst (statusLine c m) = render_status c \<and> lines_ok (snd (statusLine c m))"
  by (auto simp: statusLine_def lines_ok_def Let_def split: option.splits)

end
