(* ===== verification/Http_Response.thy ===== *)
theory Http_Response
  imports Http_Request Http_Status
begin

text \<open>
  The header of an HTTP response, the \<open>ResponseHeader\<close> half of \<open>pkg/protocol/http/v1/header.go\<close>.

  The record has the fields of the struct with the prefix \<open>rs_\<close>. The value that \<open>serverDate\<close> holds, the map of rendered
  status lines and the pool of cookies are arguments. A content length of -1 stands for a chunked body and -2 for one that
  ends with the connection.
\<close>

record ResponseHeader =
  rs_disableNormalizing :: bool
  rs_noHTTP11 :: bool
  rs_connectionClose :: bool
  rs_statusCode :: int
  rs_contentLength :: int
  rs_contentLengthBytes :: bytes
  rs_contentType :: bytes
  rs_server :: bytes
  rs_h :: kvs
  rs_bufKV :: ArgsKV
  rs_cookies :: kvs

definition zeroResponse :: ResponseHeader where
  "zeroResponse = \<lparr>rs_disableNormalizing = False, rs_noHTTP11 = False, rs_connectionClose = False, rs_statusCode = 0,
     rs_contentLength = 0, rs_contentLengthBytes = [], rs_contentType = [], rs_server = [],
     rs_h = \<lparr>live = [], spare = []\<rparr>, rs_bufKV = zeroKV, rs_cookies = \<lparr>live = [], spare = []\<rparr>\<rparr>"

section \<open>Fields\<close>

definition Resp_StatusCode :: "ResponseHeader \<Rightarrow> int" where
  "Resp_StatusCode h = (if rs_statusCode h = 0 then StatusOK else rs_statusCode h)"
definition Resp_SetStatusCode :: "int \<Rightarrow> ResponseHeader \<Rightarrow> ResponseHeader" where
  "Resp_SetStatusCode c h = h\<lparr>rs_statusCode := c\<rparr>"

definition Resp_ConnectionClose :: "ResponseHeader \<Rightarrow> bool" where "Resp_ConnectionClose h = rs_connectionClose h"
definition Resp_SetConnectionClose :: "ResponseHeader \<Rightarrow> ResponseHeader" where
  "Resp_SetConnectionClose h = h\<lparr>rs_connectionClose := True\<rparr>"
definition Resp_ResetConnectionClose :: "ResponseHeader \<Rightarrow> ResponseHeader" where
  "Resp_ResetConnectionClose h =
     (if rs_connectionClose h
      then h\<lparr>rs_connectionClose := False, rs_h := DelAllArgsBytes (rs_h h) StrConnection\<rparr> else h)"

definition Resp_mustSkipContentLength :: "ResponseHeader \<Rightarrow> bool" where
  "Resp_mustSkipContentLength h =
     (let statusCode = Resp_StatusCode h in
      if statusCode < 100 \<or> statusCode = StatusOK then False
      else statusCode = StatusNotModified \<or> statusCode = StatusNoContent \<or> statusCode < 200)"

definition Resp_ContentLength :: "ResponseHeader \<Rightarrow> int" where "Resp_ContentLength h = rs_contentLength h"
definition Resp_SetContentLength :: "int \<Rightarrow> ResponseHeader \<Rightarrow> ResponseHeader go" where
  "Resp_SetContentLength contentLength h =
     (if Resp_mustSkipContentLength h then Inr h
      else let h = h\<lparr>rs_contentLength := contentLength\<rparr> in
        if contentLength \<ge> 0
        then go_then (AppendUint [] contentLength) (\<lambda>b.
               Inr (h\<lparr>rs_contentLengthBytes := b, rs_h := DelAllArgsBytes (rs_h h) StrTransferEncoding\<rparr>))
        else
          let h = h\<lparr>rs_contentLengthBytes := []\<rparr>;
              val = (if contentLength = - 2 then StrIdentity else StrChunked);
              h = (if contentLength = - 2 then Resp_SetConnectionClose h else h)
          in Inr (h\<lparr>rs_h := SetArgBytes (rs_h h) StrTransferEncoding val\<rparr>))"

definition Resp_ContentType :: "ResponseHeader \<Rightarrow> bytes" where
  "Resp_ContentType h = (if rs_contentType h = [] then defaultContentType else rs_contentType h)"
definition Resp_isCompressibleContentType :: "ResponseHeader \<Rightarrow> bool" where
  "Resp_isCompressibleContentType h =
     (let contentType = Resp_ContentType h in prefix StrTextSlash contentType \<or> prefix StrApplicationSlash contentType)"
definition Resp_SetContentType :: "bytes \<Rightarrow> ResponseHeader \<Rightarrow> ResponseHeader" where
  "Resp_SetContentType v h = h\<lparr>rs_contentType := v\<rparr>"
definition Resp_SetContentTypeBytes :: "bytes \<Rightarrow> ResponseHeader \<Rightarrow> ResponseHeader" where
  "Resp_SetContentTypeBytes v h = h\<lparr>rs_contentType := v\<rparr>"
definition Resp_Server :: "ResponseHeader \<Rightarrow> bytes" where "Resp_Server h = rs_server h"
definition Resp_SetServer :: "bytes \<Rightarrow> ResponseHeader \<Rightarrow> ResponseHeader" where "Resp_SetServer v h = h\<lparr>rs_server := v\<rparr>"
definition Resp_SetServerBytes :: "bytes \<Rightarrow> ResponseHeader \<Rightarrow> ResponseHeader" where
  "Resp_SetServerBytes v h = h\<lparr>rs_server := v\<rparr>"
definition Resp_IsHTTP11 :: "ResponseHeader \<Rightarrow> bool" where "Resp_IsHTTP11 h \<longleftrightarrow> \<not> rs_noHTTP11 h"
definition Resp_DisableNormalizing :: "ResponseHeader \<Rightarrow> ResponseHeader" where
  "Resp_DisableNormalizing h = h\<lparr>rs_disableNormalizing := True\<rparr>"

definition Resp_ResetSkipNormalize :: "ResponseHeader \<Rightarrow> ResponseHeader" where
  "Resp_ResetSkipNormalize h = h\<lparr>rs_noHTTP11 := False, rs_connectionClose := False, rs_statusCode := 0,
     rs_contentLength := 0, rs_contentLengthBytes := [], rs_contentType := [], rs_server := [],
     rs_h := resetArgs (rs_h h), rs_cookies := resetArgs (rs_cookies h)\<rparr>"
definition Resp_Reset :: "ResponseHeader \<Rightarrow> ResponseHeader" where
  "Resp_Reset h = Resp_ResetSkipNormalize (h\<lparr>rs_disableNormalizing := False\<rparr>)"

definition Resp_CopyTo :: "ResponseHeader \<Rightarrow> ResponseHeader \<Rightarrow> ResponseHeader" where
  "Resp_CopyTo h dst =
     (let dst = Resp_Reset dst in
      dst\<lparr>rs_disableNormalizing := rs_disableNormalizing h, rs_noHTTP11 := rs_noHTTP11 h,
        rs_connectionClose := rs_connectionClose h, rs_statusCode := rs_statusCode h,
        rs_contentLength := rs_contentLength h, rs_contentLengthBytes := rs_contentLengthBytes h,
        rs_contentType := rs_contentType h, rs_server := rs_server h,
        rs_h := CopyArgs (rs_h dst) (live (rs_h h)), rs_cookies := CopyArgs (rs_cookies dst) (live (rs_cookies h))\<rparr>)"

section \<open>Looking up\<close>

definition Resp_peek :: "bytes \<Rightarrow> ResponseHeader \<Rightarrow> bytes option" where
  "Resp_peek k h =
     (if k = StrContentType then Some (Resp_ContentType h)
      else if k = StrServer then Some (Resp_Server h)
      else if k = StrConnection then (if Resp_ConnectionClose h then Some StrClose else PeekArgBytes (live (rs_h h)) k)
      else if k = StrContentLength then Some (rs_contentLengthBytes h)
      else PeekArgBytes (live (rs_h h)) k)"
definition Resp_Peek :: "bytes \<Rightarrow> ResponseHeader \<Rightarrow> bytes option \<times> ResponseHeader" where
  "Resp_Peek k h =
     (case getHeaderKeyBytes (rs_bufKV h) k (rs_disableNormalizing h) of
        (k, kv) \<Rightarrow> let h = h\<lparr>rs_bufKV := kv\<rparr> in (Resp_peek k h, h))"
definition Resp_PeekBytes :: "bytes \<Rightarrow> ResponseHeader \<Rightarrow> bytes option \<times> ResponseHeader" where
  "Resp_PeekBytes k h =
     (let h = h\<lparr>rs_bufKV := (rs_bufKV h)\<lparr>Key := normalizeHeaderKey k (rs_disableNormalizing h)\<rparr>\<rparr> in
      (Resp_peek (Key (rs_bufKV h)) h, h))"

definition Resp_ConnectionUpgrade :: "ResponseHeader \<Rightarrow> bool \<times> ResponseHeader" where
  "Resp_ConnectionUpgrade h =
     (case Resp_Peek StrConnection h of (v, h) \<Rightarrow> (hasHeaderValue (case v of None \<Rightarrow> [] | Some v \<Rightarrow> v) StrUpgrade, h))"

definition Resp_VisitAll :: "(bytes \<Rightarrow> bytes \<Rightarrow> 's \<Rightarrow> 's) \<Rightarrow> 's \<Rightarrow> ResponseHeader \<Rightarrow> 's" where
  "Resp_VisitAll f s h =
     (let s = (if rs_contentLengthBytes h \<noteq> [] then f StrContentLength (rs_contentLengthBytes h) s else s);
          contentType = Resp_ContentType h;
          s = (if contentType \<noteq> [] then f StrContentType contentType s else s);
          server = Resp_Server h;
          s = (if server \<noteq> [] then f StrServer server s else s);
          s = (if live (rs_cookies h) \<noteq> [] then VisitArgs (live (rs_cookies h)) (\<lambda>k v. f StrSetCookie v) s else s);
          s = VisitArgs (live (rs_h h)) f s
      in if Resp_ConnectionClose h then f StrConnection StrClose s else s)"
definition Resp_Len :: "ResponseHeader \<Rightarrow> nat" where "Resp_Len h = Resp_VisitAll (\<lambda>k v n. n + 1) 0 h"
definition Resp_VisitAllCookie :: "(bytes \<Rightarrow> bytes \<Rightarrow> 's \<Rightarrow> 's) \<Rightarrow> 's \<Rightarrow> ResponseHeader \<Rightarrow> 's" where
  "Resp_VisitAllCookie f s h = VisitArgs (live (rs_cookies h)) f s"

section \<open>Setting a header\<close>

text \<open>A Set-Cookie value gets a new pair, with the name of the cookie as its key.\<close>

definition add_cookie :: "bytes \<Rightarrow> ResponseHeader \<Rightarrow> ResponseHeader" where
  "add_cookie v h =
     (case AllocArg (rs_cookies h) of (cs, i) \<Rightarrow>
        h\<lparr>rs_cookies := cs\<lparr>live := (live cs)[i := \<lparr>Key = getCookieKey (Key (live cs ! i)) v, Value = v\<rparr>]\<rparr>\<rparr>)"

definition Resp_SetCanonical :: "bytes \<Rightarrow> bytes \<Rightarrow> ResponseHeader \<Rightarrow> ResponseHeader" where
  "Resp_SetCanonical k v h =
     (if k = StrContentType then Resp_SetContentTypeBytes v h
      else if k = StrServer then Resp_SetServerBytes v h
      else if k = StrSetCookie then add_cookie v h
      else if k = StrContentLength then
        (case parseContentLength v of
           (n, None) \<Rightarrow> h\<lparr>rs_contentLength := n, rs_contentLengthBytes := v\<rparr>
         | (n, Some err) \<Rightarrow> h)
      else if k = StrConnection then
        (if v = StrClose then Resp_SetConnectionClose h
         else let h = Resp_ResetConnectionClose h in h\<lparr>rs_h := SetArgBytes (rs_h h) k v\<rparr>)
      else if k = StrTransferEncoding then h
      else if k = StrDate then h
      else h\<lparr>rs_h := SetArgBytes (rs_h h) k v\<rparr>)"

definition Resp_SetContentRange :: "int \<Rightarrow> int \<Rightarrow> int \<Rightarrow> ResponseHeader \<Rightarrow> ResponseHeader go" where
  "Resp_SetContentRange startPos endPos contentLength h =
     go_then (AppendUint (StrBytes @ [32]) startPos) (\<lambda>b.
     go_then (AppendUint (b @ [45]) endPos) (\<lambda>b.
     go_then (AppendUint (b @ [47]) contentLength) (\<lambda>b.
     let h = h\<lparr>rs_bufKV := (rs_bufKV h)\<lparr>Value := b\<rparr>\<rparr> in Inr (Resp_SetCanonical StrContentRange (Value (rs_bufKV h)) h))))"

text \<open>\<open>fmt\<close> is the layout of an HTTP date.\<close>

definition Resp_SetLastModified :: "(seconds \<Rightarrow> bytes) \<Rightarrow> seconds \<Rightarrow> ResponseHeader \<Rightarrow> ResponseHeader" where
  "Resp_SetLastModified fmt t h =
     (let h = h\<lparr>rs_bufKV := (rs_bufKV h)\<lparr>Value := fmt t\<rparr>\<rparr> in Resp_SetCanonical StrLastModified (Value (rs_bufKV h)) h)"

definition Resp_Set :: "bytes \<Rightarrow> bytes \<Rightarrow> ResponseHeader \<Rightarrow> ResponseHeader" where
  "Resp_Set k v h =
     (let h = h\<lparr>rs_bufKV := initHeaderKV (rs_bufKV h) k v (rs_disableNormalizing h)\<rparr> in
      Resp_SetCanonical (Key (rs_bufKV h)) (Value (rs_bufKV h)) h)"
definition Resp_SetBytesKV :: "bytes \<Rightarrow> bytes \<Rightarrow> ResponseHeader \<Rightarrow> ResponseHeader" where
  "Resp_SetBytesKV k v h =
     (let h = h\<lparr>rs_bufKV := (rs_bufKV h)\<lparr>Key := normalizeHeaderKey k (rs_disableNormalizing h)\<rparr>\<rparr> in
      Resp_SetCanonical (Key (rs_bufKV h)) v h)"
definition Resp_SetBytesK :: "bytes \<Rightarrow> bytes \<Rightarrow> ResponseHeader \<Rightarrow> ResponseHeader" where
  "Resp_SetBytesK k v h =
     (let h = h\<lparr>rs_bufKV := (rs_bufKV h)\<lparr>Value := v\<rparr>\<rparr> in Resp_SetBytesKV k (Value (rs_bufKV h)) h)"
definition Resp_SetBytesV :: "bytes \<Rightarrow> bytes \<Rightarrow> ResponseHeader \<Rightarrow> ResponseHeader" where
  "Resp_SetBytesV k v h =
     (case getHeaderKeyBytes (rs_bufKV h) k (rs_disableNormalizing h) of
        (k, kv) \<Rightarrow> Resp_SetCanonical k v (h\<lparr>rs_bufKV := kv\<rparr>))"

definition Resp_Add :: "bytes \<Rightarrow> bytes \<Rightarrow> ResponseHeader \<Rightarrow> ResponseHeader" where
  "Resp_Add k v h =
     (case getHeaderKeyBytes (rs_bufKV h) k (rs_disableNormalizing h) of
        (k, kv) \<Rightarrow> h\<lparr>rs_bufKV := kv, rs_h := AppendArg (rs_h h) k v\<rparr>)"
definition Resp_AddBytesK :: "bytes \<Rightarrow> bytes \<Rightarrow> ResponseHeader \<Rightarrow> ResponseHeader" where "Resp_AddBytesK k v h = Resp_Add k v h"
definition Resp_AddBytesV :: "bytes \<Rightarrow> bytes \<Rightarrow> ResponseHeader \<Rightarrow> ResponseHeader" where "Resp_AddBytesV k v h = Resp_Add k v h"
definition Resp_AddBytesKV :: "bytes \<Rightarrow> bytes \<Rightarrow> ResponseHeader \<Rightarrow> ResponseHeader" where "Resp_AddBytesKV k v h = Resp_Add k v h"

definition Resp_del :: "bytes \<Rightarrow> ResponseHeader \<Rightarrow> ResponseHeader" where
  "Resp_del k h =
     (let h = (if k = StrContentType then h\<lparr>rs_contentType := []\<rparr>
               else if k = StrServer then h\<lparr>rs_server := []\<rparr>
               else if k = StrSetCookie then h\<lparr>rs_cookies := resetArgs (rs_cookies h)\<rparr>
               else if k = StrContentLength then h\<lparr>rs_contentLength := 0, rs_contentLengthBytes := []\<rparr>
               else if k = StrConnection then h\<lparr>rs_connectionClose := False\<rparr>
               else h)
      in h\<lparr>rs_h := DelAllArgsBytes (rs_h h) k\<rparr>)"
definition Resp_Del :: "bytes \<Rightarrow> ResponseHeader \<Rightarrow> ResponseHeader" where
  "Resp_Del k h =
     (case getHeaderKeyBytes (rs_bufKV h) k (rs_disableNormalizing h) of (k, kv) \<Rightarrow> Resp_del k (h\<lparr>rs_bufKV := kv\<rparr>))"
definition Resp_DelBytes :: "bytes \<Rightarrow> ResponseHeader \<Rightarrow> ResponseHeader" where
  "Resp_DelBytes k h =
     (let h = h\<lparr>rs_bufKV := (rs_bufKV h)\<lparr>Key := normalizeHeaderKey k (rs_disableNormalizing h)\<rparr>\<rparr> in
      Resp_del (Key (rs_bufKV h)) h)"

section \<open>Cookies\<close>

definition Resp_SetCookie :: "(seconds \<Rightarrow> bytes) \<Rightarrow> Cookie \<Rightarrow> ResponseHeader \<Rightarrow> ResponseHeader \<times> Cookie" where
  "Resp_SetCookie fmt c h =
     (case Cookie_Cookie fmt c of (b, c') \<Rightarrow> (h\<lparr>rs_cookies := SetArgBytes (rs_cookies h) (ckey c) b\<rparr>, c'))"
definition Resp_DelCookie :: "bytes \<Rightarrow> ResponseHeader \<Rightarrow> ResponseHeader" where
  "Resp_DelCookie k h = h\<lparr>rs_cookies := DelAllArgs (rs_cookies h) k\<rparr>"
definition Resp_DelCookieBytes :: "bytes \<Rightarrow> ResponseHeader \<Rightarrow> ResponseHeader" where
  "Resp_DelCookieBytes k h = Resp_DelCookie k h"

text \<open>10 November 2009, 23:00, in seconds from the zero time.\<close>

definition CookieExpireDelete :: seconds where "CookieExpireDelete = 63393490800"

definition Resp_DelClientCookie ::
  "(seconds \<Rightarrow> bytes) \<Rightarrow> bytes \<Rightarrow> Cookie list \<Rightarrow> ResponseHeader \<Rightarrow> ResponseHeader \<times> Cookie list" where
  "Resp_DelClientCookie fmt k pool h =
     (let h = Resp_DelCookie k h in
      case AcquireCookie pool of (c, pool) \<Rightarrow>
      let c = SetExpire CookieExpireDelete (SetKey k c) in
      case Resp_SetCookie fmt c h of (h, c) \<Rightarrow> (h, ReleaseCookie c pool))"
definition Resp_DelClientCookieBytes ::
  "(seconds \<Rightarrow> bytes) \<Rightarrow> bytes \<Rightarrow> Cookie list \<Rightarrow> ResponseHeader \<Rightarrow> ResponseHeader \<times> Cookie list" where
  "Resp_DelClientCookieBytes fmt k pool h = Resp_DelClientCookie fmt k pool h"
definition Resp_DelAllCookies :: "ResponseHeader \<Rightarrow> ResponseHeader" where
  "Resp_DelAllCookies h = h\<lparr>rs_cookies := resetArgs (rs_cookies h)\<rparr>"
text \<open>
  An empty value is the nil slice or not according to the memory of its slot, which the contents do not tell: \<open>isNil\<close> says
  which one it is.
\<close>

definition Resp_Cookie :: "bool \<Rightarrow> (bytes \<Rightarrow> seconds option) \<Rightarrow> Cookie \<Rightarrow> ResponseHeader \<Rightarrow> bool \<times> Cookie" where
  "Resp_Cookie isNil prs c h =
     (case PeekArgBytes (live (rs_cookies h)) (ckey c) of
        None \<Rightarrow> (False, c)
      | Some v \<Rightarrow> if v = [] \<and> isNil then (False, c) else (True, snd (Cookie_ParseBytes prs v c)))"

section \<open>Parsing\<close>

text \<open>The body of the loop of \<open>parseHeaders\<close>.\<close>

definition resp_line :: "bytes \<Rightarrow> bytes \<Rightarrow> ResponseHeader \<Rightarrow> ResponseHeader" where
  "resp_line k v h =
     (if k = StrContentType then h\<lparr>rs_contentType := v\<rparr>
      else if k = StrServer then h\<lparr>rs_server := v\<rparr>
      else if k = StrContentLength then
        (if rs_contentLength h \<noteq> - 1 then
           (case parseContentLength v of
              (n, Some err) \<Rightarrow> h\<lparr>rs_contentLength := - 2\<rparr>
            | (n, None) \<Rightarrow> h\<lparr>rs_contentLength := n, rs_contentLengthBytes := v\<rparr>)
         else h)
      else if k = StrTransferEncoding then
        (if v \<noteq> StrIdentity
         then h\<lparr>rs_contentLength := - 1, rs_h := SetArgBytes (rs_h h) StrTransferEncoding StrChunked\<rparr> else h)
      else if k = StrSetCookie then add_cookie v h
      else if k = StrConnection then
        (if v = StrClose then h\<lparr>rs_connectionClose := True\<rparr>
         else h\<lparr>rs_connectionClose := False, rs_h := AppendArgBytes (rs_h h) k v\<rparr>)
      else h\<lparr>rs_h := AppendArgBytes (rs_h h) k v\<rparr>)"

function resp_parse_loop :: "headerScanner \<Rightarrow> ResponseHeader \<Rightarrow> headerScanner \<times> ResponseHeader" where
  "resp_parse_loop s h =
     (case header_next s of
        (ok, s') \<Rightarrow> if ok then resp_parse_loop s' (resp_line (skey s') (svalue s') h) else (s', h))"
  by pat_completeness auto
termination
  by (relation "measure (\<lambda>(s, h). length (sb s))") (auto dest: header_next_shrinks [OF sym])

declare resp_parse_loop.simps [simp del]

definition Resp_parseHeaders :: "bytes \<Rightarrow> ResponseHeader \<Rightarrow> (header_error + nat) \<times> ResponseHeader" where
  "Resp_parseHeaders buf h =
     (let h = h\<lparr>rs_contentLength := - 2\<rparr>;
          s = \<lparr>sb = buf, skey = [], svalue = [], serr = None, sdis = rs_disableNormalizing h\<rparr>
      in case resp_parse_loop s h of (s, h) \<Rightarrow>
           (case serr s of
              Some e \<Rightarrow> (Inl e, h\<lparr>rs_connectionClose := True\<rparr>)
            | None \<Rightarrow>
                let h = (if rs_contentLength h < 0 then h\<lparr>rs_contentLengthBytes := []\<rparr> else h);
                    h = (if rs_contentLength h = - 2
                         then case Resp_ConnectionUpgrade h of (up, h) \<Rightarrow>
                                if \<not> up \<and> \<not> Resp_mustSkipContentLength h
                                then h\<lparr>rs_h := SetArgBytes (rs_h h) StrTransferEncoding StrIdentity, rs_connectionClose := True\<rparr>
                                else h
                         else h);
                    h = (if rs_noHTTP11 h \<and> \<not> rs_connectionClose h
                         then let v = (case PeekArgBytes (live (rs_h h)) StrConnection of None \<Rightarrow> [] | Some v \<Rightarrow> v)
                              in h\<lparr>rs_connectionClose := \<not> hasHeaderValue v StrKeepAlive \<and> \<not> hasHeaderValue v StrKeepAliveCamelCase\<rparr>
                         else h)
                in (Inr (length buf - length (sb s)), h)))"

definition Resp_parseFirstLine :: "bytes \<Rightarrow> ResponseHeader \<Rightarrow> (header_error + nat) \<times> ResponseHeader" where
  "Resp_parseFirstLine buf h =
     (case first_line buf of
        Inl e \<Rightarrow> (Inl e, h)
      | Inr (b, bNext) \<Rightarrow>
          (case bytes_IndexByte b 32 of
             None \<Rightarrow> (Inl ErrNoWhitespace, h)
           | Some n \<Rightarrow>
               let h = h\<lparr>rs_noHTTP11 := (take n b \<noteq> StrHTTP11)\<rparr>; b = drop (n + 1) b in
               case ParseUintBuf b of (v, n, err) \<Rightarrow>
               let h = h\<lparr>rs_statusCode := sint v\<rparr> in
               case err of
                 Some e \<Rightarrow> (Inl (ErrStatusCode e), h)
               | None \<Rightarrow>
                   if length b > n \<and> b ! n \<noteq> 32 then (Inl ErrStatusEnd, h)
                   else (Inr (length buf - length bNext), h)))"

definition Resp_parse :: "bytes \<Rightarrow> ResponseHeader \<Rightarrow> (header_error + nat) \<times> ResponseHeader" where
  "Resp_parse buf h =
     (case Resp_parseFirstLine buf h of
        (Inl e, h) \<Rightarrow> (Inl e, h)
      | (Inr m, h) \<Rightarrow>
          (case Resp_parseHeaders (drop m buf) h of
             (Inl e, h) \<Rightarrow> (Inl e, h)
           | (Inr n, h) \<Rightarrow> (Inr (m + n), h)))"

section \<open>Printing\<close>

definition Resp_AppendBytes ::
  "bytes \<Rightarrow> bytes \<Rightarrow> (int \<rightharpoonup> bytes) \<Rightarrow> ResponseHeader \<Rightarrow> bytes \<times> (int \<rightharpoonup> bytes)" where
  "Resp_AppendBytes serverDate dst m h =
     (let statusCode = (if Resp_StatusCode h < 0 then StatusOK else Resp_StatusCode h) in
      case statusLine statusCode m of (l, m) \<Rightarrow>
      let dst = dst @ l;
          server = (if Resp_Server h = [] then defaultServerName else Resp_Server h);
          dst = appendHeaderLine dst StrServer server;
          dst = appendHeaderLine dst StrDate serverDate;
          dst = (if Resp_ContentLength h \<noteq> 0 \<or> rs_contentType h \<noteq> []
                 then appendHeaderLine dst StrContentType (Resp_ContentType h) else dst);
          dst = (if rs_contentLengthBytes h \<noteq> [] then appendHeaderLine dst StrContentLength (rs_contentLengthBytes h) else dst);
          dst = foldl (\<lambda>dst kv. if Key kv \<noteq> StrDate then appendHeaderLine dst (Key kv) (Value kv) else dst) dst (live (rs_h h));
          dst = foldl (\<lambda>dst kv. appendHeaderLine dst StrSetCookie (Value kv)) dst (live (rs_cookies h));
          dst = (if Resp_ConnectionClose h then appendHeaderLine dst StrConnection StrClose else dst)
      in (dst @ StrCRLF, m))"

definition Resp_Header ::
  "bytes \<Rightarrow> (int \<rightharpoonup> bytes) \<Rightarrow> ResponseHeader \<Rightarrow> bytes \<times> (int \<rightharpoonup> bytes) \<times> ResponseHeader" where
  "Resp_Header serverDate m h =
     (case Resp_AppendBytes serverDate [] m h of (b, m) \<Rightarrow> (b, m, h\<lparr>rs_bufKV := (rs_bufKV h)\<lparr>Value := b\<rparr>\<rparr>))"
definition Resp_String ::
  "bytes \<Rightarrow> (int \<rightharpoonup> bytes) \<Rightarrow> ResponseHeader \<Rightarrow> bytes \<times> (int \<rightharpoonup> bytes) \<times> ResponseHeader" where
  "Resp_String serverDate m h = Resp_Header serverDate m h"
definition Resp_WriteTo ::
  "(bytes \<Rightarrow> nat \<times> go_error option) \<Rightarrow> bytes \<Rightarrow> (int \<rightharpoonup> bytes) \<Rightarrow> ResponseHeader \<Rightarrow>
   (nat \<times> go_error option) \<times> (int \<rightharpoonup> bytes) \<times> ResponseHeader" where
  "Resp_WriteTo w serverDate m h = (case Resp_Header serverDate m h of (b, r) \<Rightarrow> (w b, r))"
definition Resp_Write ::
  "(bytes \<Rightarrow> nat \<times> go_error option) \<Rightarrow> bytes \<Rightarrow> (int \<rightharpoonup> bytes) \<Rightarrow> ResponseHeader \<Rightarrow>
   go_error option \<times> (int \<rightharpoonup> bytes) \<times> ResponseHeader" where
  "Resp_Write w serverDate m h = (case Resp_Header serverDate m h of (b, r) \<Rightarrow> (snd (w b), r))"

end
