(* ===== verification/Response_Laws.thy ===== *)
theory Response_Laws
  imports Request_Laws Http_Response
begin

text \<open>
  Laws of the response header of \<open>Http_Response\<close>: printed headers are parsed back, and a header that was accepted says
  where the body ends.
\<close>

interpretation resp_loop: header_loop resp_line resp_parse_loop
  by unfold_locales (rule resp_parse_loop.simps)

section \<open>Lines\<close>

lemma response_names [simp]:
  "normalizeHeaderKey StrServer d = StrServer" "normalizeHeaderKey StrDate d = StrDate" "normalizeHeaderKey StrSetCookie d = StrSetCookie"
  "StrServer \<noteq> StrContentType" "StrSetCookie \<noteq> StrContentType" "StrSetCookie \<noteq> StrServer" "StrSetCookie \<noteq> StrContentLength"
  "StrSetCookie \<noteq> StrTransferEncoding" "StrContentLength \<noteq> StrServer" "StrTransferEncoding \<noteq> StrServer"
  "StrTransferEncoding \<noteq> StrSetCookie" "StrConnection \<noteq> StrServer" "StrConnection \<noteq> StrSetCookie"
  "StrDate \<noteq> StrContentType" "StrDate \<noteq> StrServer" "StrDate \<noteq> StrContentLength" "StrDate \<noteq> StrTransferEncoding"
  "StrDate \<noteq> StrSetCookie" "StrDate \<noteq> StrConnection" "StrTransferEncoding \<noteq> StrDate" "StrChunked \<noteq> StrIdentity"
  by (cases d; simp add: normalizeHeaderKey_def header_strings ToUpperTable_def ToLowerTable_def)+

definition resp_run :: "bool \<Rightarrow> (bytes \<times> bytes) list \<Rightarrow> ResponseHeader \<Rightarrow> ResponseHeader" where
  "resp_run d ls h = fold (\<lambda>(k, v). resp_line (normalizeHeaderKey k d) v) ls h"

lemma resp_run_simps [simp]:
  "resp_run d [] h = h" "resp_run d ((k, v) # ls) h = resp_run d ls (resp_line (normalizeHeaderKey k d) v h)"
  "resp_run d (ls @ ls') h = resp_run d ls' (resp_run d ls h)"
  by (simp_all add: resp_run_def)

lemma add_cookie_eq:
  "\<exists>x. add_cookie v h = h\<lparr>rs_cookies := x\<rparr> \<and> live x = live (rs_cookies h) @ [\<lparr>Key = getCookieKey [] v, Value = v\<rparr>]"
  by (cases "spare (rs_cookies h)") (auto simp: add_cookie_def AllocArg_def getCookieKey_def decodeCookieArg_def)

lemma resp_line_simps:
  "resp_line StrContentType v h = h\<lparr>rs_contentType := v\<rparr>"
  "resp_line StrServer v h = h\<lparr>rs_server := v\<rparr>"
  "resp_line StrDate v h = h\<lparr>rs_h := AppendArgBytes (rs_h h) StrDate v\<rparr>"
  "resp_line StrConnection StrClose h = h\<lparr>rs_connectionClose := True\<rparr>"
  "resp_line StrSetCookie v h = add_cookie v h"
  "resp_line StrTransferEncoding StrChunked h =
     h\<lparr>rs_contentLength := - 1, rs_h := SetArgBytes (rs_h h) StrTransferEncoding StrChunked\<rparr>"
  by (simp_all add: resp_line_def)

lemma resp_line_contentLength:
  "rs_contentLength h \<noteq> - 1 \<Longrightarrow> parseContentLength v = (n, None) \<Longrightarrow>
   resp_line StrContentLength v h = h\<lparr>rs_contentLength := n, rs_contentLengthBytes := v\<rparr>"
  by (simp add: resp_line_def)

text \<open>A list of headers has names without a field of their own, but for one Transfer-Encoding, which is chunked.\<close>

definition resp_plain :: "ArgsKV \<Rightarrow> bool" where
  "resp_plain kv \<longleftrightarrow> normalizeHeaderKey (Key kv) False = Key kv \<and>
     Key kv \<notin> {StrContentType, StrServer, StrContentLength, StrSetCookie, StrConnection, StrDate} \<and>
     (Key kv = StrTransferEncoding \<longrightarrow> Value kv = StrChunked)"

definition chunked_in :: "ArgsKV list \<Rightarrow> bool" where
  "chunked_in l \<longleftrightarrow> StrTransferEncoding \<in> Key ` set l"

fun resp_list :: "ArgsKV list \<Rightarrow> bool" where
  "resp_list [] = True"
| "resp_list (kv # l) \<longleftrightarrow> resp_plain kv \<and> (Key kv = StrTransferEncoding \<longrightarrow> \<not> chunked_in l) \<and> resp_list l"

lemma Peek_None: "PeekArgStr l k = None \<longleftrightarrow> k \<notin> Key ` set l"
  by (induction l) auto

lemma SetArg_new: "k \<notin> Key ` set (live h) \<Longrightarrow> live (SetArg h k v) = live h @ [\<lparr>Key = k, Value = v\<rparr>]"
  using setArg_loop_None [of "live h" k v] by (simp add: SetArg_def AppendArg_live Peek_None)

lemma resp_run_list:
  "resp_list l \<Longrightarrow> \<not> (chunked_in (live (rs_h h)) \<and> chunked_in l) \<Longrightarrow>
   \<exists>x. resp_run False (map (\<lambda>kv. (Key kv, Value kv)) l) h =
       h\<lparr>rs_contentLength := (if chunked_in l then - 1 else rs_contentLength h), rs_h := x\<rparr> \<and> live x = live (rs_h h) @ l"
proof (induction l arbitrary: h)
  case Nil
  then show ?case by (intro exI [of _ "rs_h h"]) (simp add: chunked_in_def)
next
  case (Cons kv l)
  let ?h = "resp_line (Key kv) (Value kv) h"
  have p: "resp_plain kv" "resp_list l" using Cons.prems by auto
  have h: "\<exists>y. ?h = h\<lparr>rs_contentLength := (if Key kv = StrTransferEncoding then - 1 else rs_contentLength h), rs_h := y\<rparr> \<and>
      live y = live (rs_h h) @ [kv]"
  proof (cases "Key kv = StrTransferEncoding")
    case True
    then have v: "Value kv = StrChunked" and n: "StrTransferEncoding \<notin> Key ` set (live (rs_h h))"
      using p Cons.prems(2) by (auto simp: resp_plain_def chunked_in_def)
    show ?thesis
      using True v SetArg_new [OF n, of StrChunked]
      by (intro exI [of _ "SetArg (rs_h h) StrTransferEncoding StrChunked"]) (cases kv, simp add: resp_line_simps SetArgBytes_def)
  next
    case False
    then show ?thesis using p by (cases kv) (auto simp: resp_plain_def resp_line_def AppendArgBytes_def AppendArg_live)
  qed
  then obtain y where y: "?h = h\<lparr>rs_contentLength := (if Key kv = StrTransferEncoding then - 1 else rs_contentLength h), rs_h := y\<rparr>"
    "live y = live (rs_h h) @ [kv]" by blast
  have "\<not> (chunked_in (live (rs_h ?h)) \<and> chunked_in l)" using Cons.prems y by (auto simp: chunked_in_def)
  from Cons.IH [OF p(2) this] obtain x where x: "resp_run False (map (\<lambda>kv. (Key kv, Value kv)) l) ?h =
      ?h\<lparr>rs_contentLength := (if chunked_in l then - 1 else rs_contentLength ?h), rs_h := x\<rparr>" "live x = live (rs_h ?h) @ l"
    by blast
  then show ?case using p(1) y by (intro exI [of _ x]) (auto simp: chunked_in_def resp_plain_def)
qed

lemma resp_run_cookies:
  "\<exists>x. resp_run False (map (\<lambda>kv. (StrSetCookie, Value kv)) l) h = h\<lparr>rs_cookies := x\<rparr> \<and>
     live x = live (rs_cookies h) @ map (\<lambda>kv. \<lparr>Key = getCookieKey [] (Value kv), Value = Value kv\<rparr>) l"
proof (induction l arbitrary: h)
  case Nil
  then show ?case by (intro exI [of _ "rs_cookies h"]) simp
next
  case (Cons kv l)
  obtain x where x: "add_cookie (Value kv) h = h\<lparr>rs_cookies := x\<rparr>"
    "live x = live (rs_cookies h) @ [\<lparr>Key = getCookieKey [] (Value kv), Value = Value kv\<rparr>]"
    using add_cookie_eq [of "Value kv" h] by blast
  from Cons [of "h\<lparr>rs_cookies := x\<rparr>"] show ?case by (auto simp: resp_line_simps x)
qed

section \<open>Printing\<close>

definition resp_lines :: "bytes \<Rightarrow> ResponseHeader \<Rightarrow> (bytes \<times> bytes) list" where
  "resp_lines date h =
     [(StrServer, if rs_server h = [] then defaultServerName else rs_server h), (StrDate, date)] @
     (if rs_contentLength h \<noteq> 0 \<or> rs_contentType h \<noteq> [] then [(StrContentType, Resp_ContentType h)] else []) @
     (if rs_contentLengthBytes h = [] then [] else [(StrContentLength, rs_contentLengthBytes h)]) @
     map (\<lambda>kv. (Key kv, Value kv)) (live (rs_h h)) @
     map (\<lambda>kv. (StrSetCookie, Value kv)) (live (rs_cookies h)) @
     (if rs_connectionClose h then [(StrConnection, StrClose)] else [])"

lemma foldl_not_date:
  "resp_list l \<Longrightarrow>
   foldl (\<lambda>dst kv. if Key kv \<noteq> StrDate then appendHeaderLine dst (Key kv) (Value kv) else dst) dst l =
   dst @ print_lines (map (\<lambda>kv. (Key kv, Value kv)) l)"
proof (induction l arbitrary: dst)
  case (Cons kv l)
  then show ?case by (simp add: appendHeaderLine_dst [of dst] resp_plain_def)
qed simp

lemma foldl_cookies:
  "foldl (\<lambda>dst kv. appendHeaderLine dst StrSetCookie (Value kv)) dst l = dst @ print_lines (map (\<lambda>kv. (StrSetCookie, Value kv)) l)"
proof (induction l arbitrary: dst)
  case (Cons kv l)
  then show ?case by (simp add: appendHeaderLine_dst [of dst])
qed simp

lemma Resp_AppendBytes_eq:
  assumes "lines_ok m" "0 \<le> rs_statusCode h" "resp_list (live (rs_h h))"
  shows "\<exists>m'. Resp_AppendBytes date [] m h =
     (render_status (Resp_StatusCode h) @ print_lines (resp_lines date h) @ StrCRLF, m') \<and> lines_ok m'"
proof -
  have c: "\<not> Resp_StatusCode h < 0" using assms(2) by (simp add: Resp_StatusCode_def StatusOK_def)
  obtain l m' where l: "statusLine (Resp_StatusCode h) m = (l, m')" by (cases "statusLine (Resp_StatusCode h) m")
  have r: "l = render_status (Resp_StatusCode h)" "lines_ok m'"
    using statusLine_render [OF assms(1), of "Resp_StatusCode h"] l by simp_all
  show ?thesis
    unfolding Resp_AppendBytes_def foldl_not_date [OF assms(3)] foldl_cookies
    using c l r by (simp add: Let_def resp_lines_def appendHeaderLine_def Resp_Server_def Resp_ContentLength_def Resp_ConnectionClose_def)
qed

section \<open>The status line\<close>

lemma map_of_all: "list_all P (map snd l) \<Longrightarrow> map_of l k = Some v \<Longrightarrow> P v"
  by (force simp: list_all_iff dest: map_of_SomeD)

lemma statusMessages_line: "statusMessages c = Some s \<Longrightarrow> 10 \<notin> set (go_bytes s)"
  unfolding statusMessages_def by (erule map_of_all [rotated]) (simp add: go_bytes_def)

lemma StatusMessage_line: "10 \<notin> set (go_bytes (StatusMessage c))"
  using statusMessages_line [of c] by (auto simp: StatusMessage_def go_bytes_def split: option.splits)

lemma decimal_no: "10 \<notin> set (decimal n)" "32 \<notin> set (decimal n)"
  using decimal_digits [of n] by (auto simp: list_all_iff is_digit_def)

lemma parse_render_status:
  assumes "0 \<le> c" "c < 10 ^ 18"
  shows "Resp_parseFirstLine (render_status c @ r) h = (Inr (length (render_status c)), h\<lparr>rs_noHTTP11 := False, rs_statusCode := c\<rparr>)"
proof -
  let ?d = "decimal (nat c)" and ?t = "32 # go_bytes (StatusMessage c)"
  let ?l = "StrHTTP11 @ 32 # ?d @ ?t"
  have e: "render_status c = ?l @ StrCRLF" using assms by (simp add: render_status_def format_d_def)
  have "10 \<notin> set ?l" using StatusMessage_line [of c] decimal_no by (simp add: StrHTTP11_def)
  then have "nextLine (render_status c @ r) = Inr (?l, r)" using nextLine_line [of ?l r] by (simp add: e StrCRLF_def)
  then have f: "first_line (render_status c @ r) = Inr (?l, r)" by (simp add: first_line.simps)
  have i: "bytes_IndexByte ?l 32 = Some (length StrHTTP11)" by (rule IndexByte_append) (simp add: StrHTTP11_def)
  have n: "nat c < 10 ^ Suc 17" using assms by simp
  have "ParseUintBuf (?d @ ?t) = (of_nat (decimal_value ?d), length ?d, None)"
    by (rule ParseUintBuf_digits [OF decimal_digits]) (use length_decimal [OF n] in \<open>simp_all add: maxIntChars_def is_digit_def\<close>)
  then have u: "ParseUintBuf (?d @ ?t) = (of_nat (nat c), length ?d, None)" by (simp add: decimal_value_decimal)
  have s: "sint (of_nat (nat c) :: 64 word) = c" using sint_of_nat64 [of "nat c"] assms by simp
  have len: "length (render_status c @ r) - length r = length (render_status c)" by simp
  show ?thesis
    unfolding Resp_parseFirstLine_def f sum.case prod.case i option.case len
    by (simp add: Let_def u s nth_append)
qed


section \<open>After the lines\<close>

text \<open>What \<open>parseHeaders\<close> does after the loop.\<close>

definition resp_finish :: "ResponseHeader \<Rightarrow> ResponseHeader" where
  "resp_finish h =
     (let h = (if rs_contentLength h < 0 then h\<lparr>rs_contentLengthBytes := []\<rparr> else h);
          h = (if rs_contentLength h = - 2
               then case Resp_ConnectionUpgrade h of (up, h) \<Rightarrow>
                      if \<not> up \<and> \<not> Resp_mustSkipContentLength h
                      then h\<lparr>rs_h := SetArgBytes (rs_h h) StrTransferEncoding StrIdentity, rs_connectionClose := True\<rparr>
                      else h
               else h)
      in (if rs_noHTTP11 h \<and> \<not> rs_connectionClose h
          then let v = (case PeekArgBytes (live (rs_h h)) StrConnection of None \<Rightarrow> [] | Some v \<Rightarrow> v)
               in h\<lparr>rs_connectionClose := \<not> hasHeaderValue v StrKeepAlive \<and> \<not> hasHeaderValue v StrKeepAliveCamelCase\<rparr>
          else h))"

lemma resp_parseHeaders_eq:
  "Resp_parseHeaders buf h =
     (case resp_parse_loop \<lparr>sb = buf, skey = [], svalue = [], serr = None, sdis = rs_disableNormalizing h\<rparr>
             (h\<lparr>rs_contentLength := - 2\<rparr>) of
        (s, h) \<Rightarrow> case serr s of Some e \<Rightarrow> (Inl e, h\<lparr>rs_connectionClose := True\<rparr>)
                 | None \<Rightarrow> (Inr (length buf - length (sb s)), resp_finish h))"
  unfolding Resp_parseHeaders_def resp_finish_def Let_def by simp

lemma resp_parseHeaders_lines:
  assumes "list_all (\<lambda>(k, v). line_ok k v) ls"
  shows "Resp_parseHeaders (print_lines ls @ StrCRLF @ r) h =
     (Inr (length (print_lines ls @ StrCRLF)),
      resp_finish (resp_run (rs_disableNormalizing h) ls (h\<lparr>rs_contentLength := - 2\<rparr>)))"
proof -
  let ?h = "h\<lparr>rs_contentLength := - 2\<rparr>"
  let ?s = "\<lparr>sb = print_lines ls @ StrCRLF @ r, skey = [], svalue = [], serr = None, sdis = rs_disableNormalizing h\<rparr>"
  obtain s' where s': "resp_parse_loop ?s ?h = (s', resp_run (sdis ?s) ls ?h)" "sb s' = r" "serr s' = None"
    using resp_loop.loop_lines [OF assms, of ?s r ?h] by (auto simp: resp_run_def)
  show ?thesis unfolding resp_parseHeaders_eq s'(1) prod.case s'(2,3) option.case by simp
qed

lemma resp_finish_framed:
  "rs_contentLength h \<noteq> - 2 \<Longrightarrow> \<not> rs_noHTTP11 h \<Longrightarrow>
   resp_finish h = (if rs_contentLength h < 0 then h\<lparr>rs_contentLengthBytes := []\<rparr> else h)"
  by (simp add: resp_finish_def Let_def)

text \<open>The lines of a header, one after the other, into a header that was reset.\<close>

lemma resp_run_lines:
  assumes l: "resp_list (live (rs_h h))" and g: "rs_contentLength g = - 2" "live (rs_h g) = []"
    and cl: "rs_contentLengthBytes h \<noteq> [] \<Longrightarrow> parseContentLength (rs_contentLengthBytes h) = (rs_contentLength h, None)"
  shows "\<exists>x y. resp_run False (resp_lines date h) g = g\<lparr>
      rs_server := (if rs_server h = [] then defaultServerName else rs_server h),
      rs_contentType := (if rs_contentLength h \<noteq> 0 \<or> rs_contentType h \<noteq> [] then Resp_ContentType h else rs_contentType g),
      rs_contentLength := (if chunked_in (live (rs_h h)) then - 1 else if rs_contentLengthBytes h = [] then - 2 else rs_contentLength h),
      rs_contentLengthBytes := (if rs_contentLengthBytes h = [] then rs_contentLengthBytes g else rs_contentLengthBytes h),
      rs_connectionClose := rs_connectionClose h \<or> rs_connectionClose g, rs_h := x, rs_cookies := y\<rparr> \<and>
    live x = \<lparr>Key = StrDate, Value = date\<rparr> # live (rs_h h) \<and>
    live y = live (rs_cookies g) @ map (\<lambda>kv. \<lparr>Key = getCookieKey [] (Value kv), Value = Value kv\<rparr>) (live (rs_cookies h))"
proof -
  let ?g = "g\<lparr>rs_server := (if rs_server h = [] then defaultServerName else rs_server h),
      rs_h := AppendArgBytes (rs_h g) StrDate date,
      rs_contentType := (if rs_contentLength h \<noteq> 0 \<or> rs_contentType h \<noteq> [] then Resp_ContentType h else rs_contentType g),
      rs_contentLength := (if rs_contentLengthBytes h = [] then - 2 else rs_contentLength h),
      rs_contentLengthBytes := (if rs_contentLengthBytes h = [] then rs_contentLengthBytes g else rs_contentLengthBytes h)\<rparr>"
  have lg: "live (rs_h ?g) = [\<lparr>Key = StrDate, Value = date\<rparr>]" using g(2) by (simp add: AppendArgBytes_def AppendArg_live)
  then have "\<not> (chunked_in (live (rs_h ?g)) \<and> chunked_in (live (rs_h h)))" by (simp add: chunked_in_def)
  from resp_run_list [OF l this] obtain x
    where x: "resp_run False (map (\<lambda>kv. (Key kv, Value kv)) (live (rs_h h))) ?g =
      ?g\<lparr>rs_contentLength := (if chunked_in (live (rs_h h)) then - 1 else rs_contentLength ?g), rs_h := x\<rparr>" (is "_ = ?g2")
    "live x = live (rs_h ?g) @ live (rs_h h)" by blast
  obtain y where y: "resp_run False (map (\<lambda>kv. (StrSetCookie, Value kv)) (live (rs_cookies h))) ?g2 = ?g2\<lparr>rs_cookies := y\<rparr>"
    "live y = live (rs_cookies ?g2) @ map (\<lambda>kv. \<lparr>Key = getCookieKey [] (Value kv), Value = Value kv\<rparr>) (live (rs_cookies h))"
    using resp_run_cookies [of "live (rs_cookies h)" ?g2] by blast
  have a: "resp_run False
     ([(StrServer, if rs_server h = [] then defaultServerName else rs_server h), (StrDate, date)] @
      (if rs_contentLength h \<noteq> 0 \<or> rs_contentType h \<noteq> [] then [(StrContentType, Resp_ContentType h)] else []) @
      (if rs_contentLengthBytes h = [] then [] else [(StrContentLength, rs_contentLengthBytes h)])) g = ?g"
    using cl g by (cases g) (simp add: resp_line_simps resp_line_contentLength)
  have "resp_run False (resp_lines date h) g = resp_run False (if rs_connectionClose h then [(StrConnection, StrClose)] else [])
     (resp_run False (map (\<lambda>kv. (StrSetCookie, Value kv)) (live (rs_cookies h)))
       (resp_run False (map (\<lambda>kv. (Key kv, Value kv)) (live (rs_h h))) ?g))"
    unfolding resp_lines_def append_assoc [symmetric] unfolding resp_run_simps(3) a [unfolded append_assoc [symmetric] resp_run_simps(3)] ..
  also have "\<dots> = ?g2\<lparr>rs_cookies := y, rs_connectionClose := rs_connectionClose h \<or> rs_connectionClose g\<rparr>"
    unfolding x(1) y(1) by (simp add: resp_line_simps)
  finally show ?thesis using x(2) y(2) lg by (intro exI [of _ x] exI [of _ y]) simp
qed

section \<open>Framing\<close>

text \<open>What the lines read so far say of the body.\<close>

definition framing :: "ResponseHeader \<Rightarrow> bool" where
  "framing h \<longleftrightarrow>
     (rs_contentLength h = - 1 \<and> PeekArgStr (live (rs_h h)) StrTransferEncoding = Some StrChunked) \<or>
     rs_contentLength h = - 2 \<or>
     (0 \<le> rs_contentLength h \<and> parseContentLength (rs_contentLengthBytes h) = (rs_contentLength h, None))"

lemma parseContentLength_nonneg: "parseContentLength v = (n, None) \<Longrightarrow> 0 \<le> n"
proof -
  assume a: "parseContentLength v = (n, None)"
  then obtain w where "ParseUintBuf v = (w, length v, None)" "n = sint w"
    by (auto simp: parseContentLength_def split: prod.splits option.splits if_splits)
  then show ?thesis using ParseUintBuf_exact [of v w "length v"] by simp
qed

lemma Peek_AppendArg: "k \<noteq> k' \<Longrightarrow> PeekArgStr (live (AppendArg h k v)) k' = PeekArgStr (live h) k'"
  by (simp add: AppendArg_live Peek_append split: option.split)

lemma framing_keeps [simp]:
  "framing (h\<lparr>rs_contentType := v\<rparr>) = framing h" "framing (h\<lparr>rs_server := v\<rparr>) = framing h"
  "framing (h\<lparr>rs_cookies := x\<rparr>) = framing h" "framing (h\<lparr>rs_connectionClose := c\<rparr>) = framing h"
  by (simp_all add: framing_def)

lemma framing_append: "framing h \<Longrightarrow> k \<noteq> StrTransferEncoding \<Longrightarrow> framing (h\<lparr>rs_h := AppendArgBytes (rs_h h) k v\<rparr>)"
  by (simp add: framing_def AppendArgBytes_def Peek_AppendArg)

lemma framing_length: "framing h \<Longrightarrow> framing (resp_line StrContentLength v h)"
proof (cases "parseContentLength v")
  case (Pair n e)
  assume "framing h"
  then show ?thesis
    using Pair parseContentLength_nonneg [of v n] by (cases e) (auto simp: resp_line_def framing_def)
qed

lemma framing_encoding: "framing h \<Longrightarrow> framing (resp_line StrTransferEncoding v h)"
  by (simp add: resp_line_def framing_def SetArgBytes_def Peek_SetArg)

lemma framing_line: "framing h \<Longrightarrow> framing (resp_line k v h)"
proof -
  assume f: "framing h"
  obtain x where x: "add_cookie v h = h\<lparr>rs_cookies := x\<rparr>" using add_cookie_eq [of v h] by blast
  consider "k = StrContentLength" | "k = StrTransferEncoding" | "k \<noteq> StrContentLength" "k \<noteq> StrTransferEncoding" by blast
  then show ?thesis
  proof cases
    case 3
    then show ?thesis
      using f framing_append [OF f 3(2), of v] framing_append [of "h\<lparr>rs_connectionClose := False\<rparr>" k v]
      by (cases "k = StrConnection") (simp_all add: resp_line_def x)
  qed (simp_all add: framing_length [OF f] framing_encoding [OF f])
qed

text \<open>
  How the body of a response ends: a chunked one with its last chunk, one with a length after that many bytes, any other with
  the connection, unless there is none by the status or the connection was upgraded.
\<close>

definition body_end :: "ResponseHeader \<Rightarrow> bool" where
  "body_end h \<longleftrightarrow>
     (rs_contentLength h = - 1 \<and> rs_contentLengthBytes h = [] \<and> fst (Resp_Peek StrTransferEncoding h) = Some StrChunked) \<or>
     (0 \<le> rs_contentLength h \<and> parseContentLength (rs_contentLengthBytes h) = (rs_contentLength h, None)) \<or>
     (rs_contentLength h = - 2 \<and> rs_contentLengthBytes h = [] \<and>
       (Resp_ConnectionClose h \<or> Resp_mustSkipContentLength h \<or> fst (Resp_ConnectionUpgrade h)))"

lemma Resp_Peek_encoding: "fst (Resp_Peek StrTransferEncoding h) = PeekArgStr (live (rs_h h)) StrTransferEncoding"
  by (simp add: Resp_Peek_def getHeaderKeyBytes_def Let_def Resp_peek_def PeekArgBytes_eq)

lemma Resp_ConnectionUpgrade_eq:
  "Resp_ConnectionUpgrade h =
     (hasHeaderValue (case (if rs_connectionClose h then Some StrClose else PeekArgStr (live (rs_h h)) StrConnection)
                      of None \<Rightarrow> [] | Some v \<Rightarrow> v) StrUpgrade, h\<lparr>rs_bufKV := (rs_bufKV h)\<lparr>Key := StrConnection\<rparr>\<rparr>)"
  by (simp add: Resp_ConnectionUpgrade_def Resp_Peek_def getHeaderKeyBytes_def Let_def Resp_peek_def PeekArgBytes_eq
      Resp_ConnectionClose_def)

lemma mustSkip_keeps [simp]:
  "Resp_mustSkipContentLength (h\<lparr>rs_bufKV := kv\<rparr>) = Resp_mustSkipContentLength h"
  "Resp_mustSkipContentLength (h\<lparr>rs_contentLengthBytes := b\<rparr>) = Resp_mustSkipContentLength h"
  by (simp_all add: Resp_mustSkipContentLength_def Resp_StatusCode_def)

lemma body_end_finish:
  assumes "framing h"
  shows "body_end (resp_finish h)"
proof (cases "rs_contentLength h = - 2")
  case True
  let ?h = "h\<lparr>rs_contentLengthBytes := [], rs_bufKV := (rs_bufKV h)\<lparr>Key := StrConnection\<rparr>\<rparr>"
  let ?up = "fst (Resp_ConnectionUpgrade ?h)"
  have u: "Resp_ConnectionUpgrade (h\<lparr>rs_contentLengthBytes := []\<rparr>) = (?up, ?h)" by (simp add: Resp_ConnectionUpgrade_eq)
  consider (no) "\<not> ?up \<and> \<not> Resp_mustSkipContentLength h" | (up) "?up \<or> Resp_mustSkipContentLength h" by blast
  then show ?thesis
  proof cases
    case no
    then show ?thesis using True u by (simp add: resp_finish_def Let_def body_end_def Resp_ConnectionClose_def)
  next
    case up
    have "resp_finish h = ?h \<or> (\<exists>c. resp_finish h = ?h\<lparr>rs_connectionClose := c\<rparr> \<and> \<not> rs_connectionClose h)"
      using True u up by (auto simp: resp_finish_def Let_def)
    moreover have "body_end ?h" using True up by (auto simp: body_end_def)
    moreover have "body_end (?h\<lparr>rs_connectionClose := c\<rparr>)" if "\<not> rs_connectionClose h" for c
    proof (cases c)
      case False
      then have "?h\<lparr>rs_connectionClose := c\<rparr> = ?h" using that by (cases h) simp
      then show ?thesis using \<open>body_end ?h\<close> by simp
    qed (simp add: body_end_def True Resp_ConnectionClose_def)
    ultimately show ?thesis by auto
  qed
next
  case False
  have "\<exists>c. resp_finish h = (if rs_contentLength h < 0 then h\<lparr>rs_contentLengthBytes := []\<rparr> else h)\<lparr>rs_connectionClose := c\<rparr>"
    using False by (intro exI [of _ "rs_connectionClose (resp_finish h)"]) (auto simp: resp_finish_def Let_def)
  then show ?thesis using assms False by (auto simp: framing_def body_end_def Resp_Peek_encoding)
qed

section \<open>Properties\<close>

text \<open>
  C5. Response headers round trip: parsing what \<open>AppendBytes\<close> prints, into any header that was reset and with any bytes
  behind it, consumes exactly the printed bytes and gives the status, the server, the content type, the framing of the body,
  the list of headers behind the date, the cookies under the names in their values, and the close flag; the map of rendered
  status lines stays right. The body is chunked or has a length, the names in the list are canonical and have no field of their
  own, and no line has a line break or outer spaces.
\<close>

theorem response_header_roundtrip:
  assumes m: "lines_ok m" and status: "0 \<le> rs_statusCode h" "rs_statusCode h < 10 ^ 18"
    and list: "resp_list (live (rs_h h))" and lines: "list_all (\<lambda>(k, v). line_ok k v) (resp_lines date h)"
    and body: "if chunked_in (live (rs_h h)) then rs_contentLength h = - 1 \<and> rs_contentLengthBytes h = []
      else parseContentLength (rs_contentLengthBytes h) = (rs_contentLength h, None)"
  shows "\<exists>b m' h'. Resp_AppendBytes date [] m h = (b, m') \<and> lines_ok m' \<and>
     Resp_parse (b @ r) (Resp_Reset g) = (Inr (length b), h') \<and>
     Resp_StatusCode h' = Resp_StatusCode h \<and> Resp_IsHTTP11 h' \<and>
     rs_server h' = (if rs_server h = [] then defaultServerName else rs_server h) \<and>
     Resp_ContentType h' = Resp_ContentType h \<and>
     rs_contentLength h' = rs_contentLength h \<and> rs_contentLengthBytes h' = rs_contentLengthBytes h \<and>
     live (rs_h h') = \<lparr>Key = StrDate, Value = date\<rparr> # live (rs_h h) \<and>
     live (rs_cookies h') = map (\<lambda>kv. \<lparr>Key = getCookieKey [] (Value kv), Value = Value kv\<rparr>) (live (rs_cookies h)) \<and>
     rs_connectionClose h' = rs_connectionClose h"
proof -
  let ?s = "Resp_StatusCode h"
  have s: "0 \<le> ?s" "?s < 10 ^ 18" "?s \<noteq> 0" using status by (simp_all add: Resp_StatusCode_def StatusOK_def)
  obtain m' where p: "Resp_AppendBytes date [] m h = (render_status ?s @ print_lines (resp_lines date h) @ StrCRLF, m')" "lines_ok m'"
    using Resp_AppendBytes_eq [OF m status(1) list] by blast
  define g1 where "g1 = (Resp_Reset g)\<lparr>rs_noHTTP11 := False, rs_statusCode := ?s, rs_contentLength := - 2\<rparr>"
  have g: "rs_contentLength g1 = - 2" "live (rs_h g1) = []" by (simp_all add: g1_def Resp_Reset_def Resp_ResetSkipNormalize_def resetArgs_def)
  have cb: "\<not> chunked_in (live (rs_h h)) \<Longrightarrow> rs_contentLengthBytes h \<noteq> [] \<and> 0 \<le> rs_contentLength h"
    using body parseContentLength_nonneg [of "rs_contentLengthBytes h" "rs_contentLength h"]
    by (auto simp: parseContentLength_def ParseUintBuf_def)
  have cl: "rs_contentLengthBytes h \<noteq> [] \<Longrightarrow> parseContentLength (rs_contentLengthBytes h) = (rs_contentLength h, None)"
    using body by (auto split: if_splits)
  obtain x y where r: "resp_run False (resp_lines date h) g1 = g1\<lparr>
      rs_server := (if rs_server h = [] then defaultServerName else rs_server h),
      rs_contentType := (if rs_contentLength h \<noteq> 0 \<or> rs_contentType h \<noteq> [] then Resp_ContentType h else rs_contentType g1),
      rs_contentLength := (if chunked_in (live (rs_h h)) then - 1 else if rs_contentLengthBytes h = [] then - 2 else rs_contentLength h),
      rs_contentLengthBytes := (if rs_contentLengthBytes h = [] then rs_contentLengthBytes g1 else rs_contentLengthBytes h),
      rs_connectionClose := rs_connectionClose h \<or> rs_connectionClose g1, rs_h := x, rs_cookies := y\<rparr>" (is "_ = ?h")
    and xy: "live x = \<lparr>Key = StrDate, Value = date\<rparr> # live (rs_h h)"
      "live y = live (rs_cookies g1) @ map (\<lambda>kv. \<lparr>Key = getCookieKey [] (Value kv), Value = Value kv\<rparr>) (live (rs_cookies h))"
    using resp_run_lines [OF list g cl] by blast
  have len: "rs_contentLength ?h = rs_contentLength h" using body cb by auto
  have "rs_contentLength ?h \<noteq> - 2" unfolding len using body cb by (auto split: if_splits)
  then have f: "resp_finish ?h = (if rs_contentLength ?h < 0 then ?h\<lparr>rs_contentLengthBytes := []\<rparr> else ?h)"
    by (rule resp_finish_framed) (simp add: g1_def)
  have fb: "rs_contentLengthBytes (resp_finish ?h) = rs_contentLengthBytes h"
    unfolding f len using body cb by (auto simp: g1_def Resp_Reset_def Resp_ResetSkipNormalize_def split: if_splits)
  have fc: "\<exists>b. resp_finish ?h = ?h\<lparr>rs_contentLengthBytes := b\<rparr>"
    unfolding f by (cases ?h) (auto intro: exI [of _ "rs_contentLengthBytes ?h"])
  have parse: "Resp_parse ((render_status ?s @ print_lines (resp_lines date h) @ StrCRLF) @ r) (Resp_Reset g) =
      (Inr (length (render_status ?s @ print_lines (resp_lines date h) @ StrCRLF)), resp_finish ?h)"
    using parse_render_status [OF s(1,2), of "print_lines (resp_lines date h) @ StrCRLF @ r" "Resp_Reset g"]
      resp_parseHeaders_lines [OF lines, of r "(Resp_Reset g)\<lparr>rs_noHTTP11 := False, rs_statusCode := ?s\<rparr>"] r
    by (simp add: Resp_parse_def g1_def Resp_Reset_def Resp_ResetSkipNormalize_def)
  obtain b where b: "resp_finish ?h = ?h\<lparr>rs_contentLengthBytes := b\<rparr>" using fc by blast
  have res: "Resp_StatusCode (resp_finish ?h) = ?s" "Resp_IsHTTP11 (resp_finish ?h)" "rs_server (resp_finish ?h) = rs_server ?h"
    "Resp_ContentType (resp_finish ?h) = Resp_ContentType h" "rs_contentLength (resp_finish ?h) = rs_contentLength h"
    "live (rs_h (resp_finish ?h)) = live x" "live (rs_cookies (resp_finish ?h)) = live y"
    "rs_connectionClose (resp_finish ?h) = rs_connectionClose h"
    unfolding b using s(3) len
    by (auto simp: Resp_StatusCode_def Resp_IsHTTP11_def Resp_ContentType_def g1_def Resp_Reset_def Resp_ResetSkipNormalize_def
        defaultContentType_def)
  have "live y = map (\<lambda>kv. \<lparr>Key = getCookieKey [] (Value kv), Value = Value kv\<rparr>) (live (rs_cookies h))"
    using xy(2) by (simp add: g1_def Resp_Reset_def Resp_ResetSkipNormalize_def resetArgs_def)
  then show ?thesis
    using p parse fb res xy(1)
    by (intro exI [of _ "render_status ?s @ print_lines (resp_lines date h) @ StrCRLF"] exI [of _ m'] exI [of _ "resp_finish ?h"])
      (simp del: append_assoc)
qed

theorem response_header_roundtrip_witness:
  "\<exists>b m' h'. Resp_AppendBytes [120] [] Map.empty (zeroResponse\<lparr>rs_statusCode := 404, rs_contentLength := 5, rs_contentLengthBytes := [53]\<rparr>) =
       (b, m') \<and> Resp_parse (b @ [104]) (Resp_Reset zeroResponse) = (Inr (length b), h') \<and>
     Resp_StatusCode h' = 404 \<and> rs_contentLength h' = 5 \<and> live (rs_h h') = [\<lparr>Key = StrDate, Value = [120]\<rparr>]"
proof -
  let ?h = "zeroResponse\<lparr>rs_statusCode := 404, rs_contentLength := 5, rs_contentLengthBytes := [53]\<rparr>"
  have 1: "live (rs_h ?h) = []" by (simp add: zeroResponse_def)
  have 2: "resp_list (live (rs_h ?h))" "\<not> chunked_in (live (rs_h ?h))" unfolding 1 by (simp_all add: chunked_in_def)
  have 3: "list_all (\<lambda>(k, v). line_ok k v) (resp_lines [120] ?h)"
    by (simp add: resp_lines_def zeroResponse_def line_ok_def Resp_ContentType_def header_strings)
  have 4: "parseContentLength [53] = (5, None)" by code_simp
  have 5: "Resp_StatusCode ?h = 404" by (simp add: Resp_StatusCode_def)
  obtain b m' h' where "Resp_AppendBytes [120] [] Map.empty ?h = (b, m')"
    "Resp_parse (b @ [104]) (Resp_Reset zeroResponse) = (Inr (length b), h')" "Resp_StatusCode h' = Resp_StatusCode ?h"
    "rs_contentLength h' = rs_contentLength ?h" "live (rs_h h') = \<lparr>Key = StrDate, Value = [120]\<rparr> # live (rs_h ?h)"
    using response_header_roundtrip [OF lines_ok_empty _ _ 2(1) 3, of "[104]" zeroResponse] 2(2) 4 by auto
  then show ?thesis using 1 5 by auto
qed

text \<open>
  C6. The end of the body is known: whenever \<open>parse\<close> accepts a response header, into any header and from any bytes, the body is
  chunked and says so, or it has the length that its Content-Length states, or it has none or ends with the connection.
\<close>

theorem response_body_end:
  assumes "Resp_parse buf g = (Inr n, h)"
  shows "body_end h"
proof -
  obtain k g1 i where "Resp_parseHeaders (drop k buf) g1 = (Inr i, h)"
    using assms by (auto simp: Resp_parse_def split: prod.splits sum.splits)
  then obtain s h0 where l: "resp_parse_loop \<lparr>sb = drop k buf, skey = [], svalue = [], serr = None, sdis = rs_disableNormalizing g1\<rparr>
      (g1\<lparr>rs_contentLength := - 2\<rparr>) = (s, h0)" "h = resp_finish h0"
    by (auto simp: resp_parseHeaders_eq split: prod.splits option.splits)
  have "framing (snd (resp_parse_loop \<lparr>sb = drop k buf, skey = [], svalue = [], serr = None, sdis = rs_disableNormalizing g1\<rparr>
      (g1\<lparr>rs_contentLength := - 2\<rparr>)))"
    by (rule resp_loop.loop_inv) (simp_all add: framing_line, simp add: framing_def)
  then show ?thesis unfolding l(2) using l(1) by (simp add: body_end_finish)
qed

theorem response_body_end_witness:
  "\<exists>h. Resp_parse (render_status 200 @ print_lines [(StrContentLength, [53])] @ StrCRLF @ []) zeroResponse =
     (Inr (length (render_status 200) + length (print_lines [(StrContentLength, [53])] @ StrCRLF)), h) \<and> body_end h"
proof -
  let ?ls = "[(StrContentLength, [53 :: byte])]"
  have l: "list_all (\<lambda>(k, v). line_ok k v) ?ls" by (simp add: line_ok_def StrContentLength_def)
  obtain h where h: "Resp_parse (render_status 200 @ print_lines ?ls @ StrCRLF @ []) zeroResponse =
      (Inr (length (render_status 200) + length (print_lines ?ls @ StrCRLF)), h)"
    using parse_render_status [of 200 "print_lines ?ls @ StrCRLF @ []" zeroResponse] resp_parseHeaders_lines [OF l, of "[]"]
    by (simp add: Resp_parse_def)
  then show ?thesis using response_body_end [OF h] by blast
qed

end
