(* ===== verification/Sync_List.thy ===== *)
theory Sync_List
  imports Strike_Prelude
begin

text \<open>
  The list with a lock of \<open>utils/container/slist/slist.go\<close>, on the doubly linked list of Go's \<open>container/list\<close>.

  An element is its address with its value: an operation on an element that is not in the list does nothing, as the check of
  the element's owner in \<open>container/list\<close> has it. Addresses are given out by the counter \<open>fresh\<close>, which several lists
  share by passing it along. Every method holds the lock from its first to its last access, so a method is one step. The
  empty list of \<open>PopBack\<close>, \<open>Front\<close> and the like, for which the code returns nil, is \<open>None\<close>.
\<close>

type_synonym 'v element = "nat \<times> 'v"

record 'v slist =
  elems :: "'v element list"
  fresh :: nat

definition slist_New :: "nat \<Rightarrow> 'v slist" where "slist_New a = \<lparr>elems = [], fresh = a\<rparr>"

section \<open>Adding and taking\<close>

definition PushFront :: "'v \<Rightarrow> 'v slist \<Rightarrow> 'v element \<times> 'v slist" where
  "PushFront v l = (let e = (fresh l, v) in (e, l\<lparr>elems := e # elems l, fresh := fresh l + 1\<rparr>))"
definition PushBack :: "'v \<Rightarrow> 'v slist \<Rightarrow> 'v element \<times> 'v slist" where
  "PushBack v l = (let e = (fresh l, v) in (e, l\<lparr>elems := elems l @ [e], fresh := fresh l + 1\<rparr>))"

fun PushFronts :: "'v list \<Rightarrow> 'v slist \<Rightarrow> 'v slist" where
  "PushFronts [] l = l"
| "PushFronts (v # vs) l = PushFronts vs (snd (PushFront v l))"
fun PushBacks :: "'v list \<Rightarrow> 'v slist \<Rightarrow> 'v slist" where
  "PushBacks [] l = l"
| "PushBacks (v # vs) l = PushBacks vs (snd (PushBack v l))"

definition in_list :: "'v element \<Rightarrow> 'v slist \<Rightarrow> bool" where
  "in_list e l \<longleftrightarrow> fst e \<in> fst ` set (elems l)"

definition slist_Remove :: "'v element \<Rightarrow> 'v slist \<Rightarrow> 'v \<times> 'v slist" where
  "slist_Remove e l = (snd e, if in_list e l then l\<lparr>elems := filter (\<lambda>x. fst x \<noteq> fst e) (elems l)\<rparr> else l)"

fun Removes :: "'v element list \<Rightarrow> 'v slist \<Rightarrow> 'v slist" where
  "Removes [] l = l"
| "Removes (e # es) l = Removes es (snd (slist_Remove e l))"

definition Front :: "'v slist \<Rightarrow> 'v element option" where
  "Front l = (case elems l of [] \<Rightarrow> None | e # es \<Rightarrow> Some e)"
definition Back :: "'v slist \<Rightarrow> 'v element option" where
  "Back l = (case elems l of [] \<Rightarrow> None | e # es \<Rightarrow> Some (last (elems l)))"
definition FrontValue :: "'v slist \<Rightarrow> 'v option" where "FrontValue l = map_option snd (Front l)"
definition BackValue :: "'v slist \<Rightarrow> 'v option" where "BackValue l = map_option snd (Back l)"
definition slist_Len :: "'v slist \<Rightarrow> nat" where "slist_Len l = length (elems l)"
definition slist_Size :: "'v slist \<Rightarrow> nat" where "slist_Size l = slist_Len l"

definition PopBack :: "'v slist \<Rightarrow> 'v option \<times> 'v slist" where
  "PopBack l = (case Back l of Some e \<Rightarrow> (case slist_Remove e l of (v, l) \<Rightarrow> (Some v, l)) | None \<Rightarrow> (None, l))"
definition PopFront :: "'v slist \<Rightarrow> 'v option \<times> 'v slist" where
  "PopFront l = (case Front l of Some e \<Rightarrow> (case slist_Remove e l of (v, l) \<Rightarrow> (Some v, l)) | None \<Rightarrow> (None, l))"

text \<open>
  The loops of \<open>PopFronts\<close> and \<open>PopBacks\<close>. The list has at least as many elements as the loop takes, so that \<open>Front\<close> and
  \<open>Back\<close> are never nil; the loop ends where it would be.
\<close>

fun popFronts_loop :: "nat \<Rightarrow> 'v slist \<Rightarrow> 'v list \<times> 'v slist" where
  "popFronts_loop 0 l = ([], l)"
| "popFronts_loop (Suc n) l =
     (case Front l of
        None \<Rightarrow> ([], l)
      | Some e \<Rightarrow> (case slist_Remove e l of (v, l) \<Rightarrow> case popFronts_loop n l of (vs, l) \<Rightarrow> (v # vs, l)))"
fun popBacks_loop :: "nat \<Rightarrow> 'v slist \<Rightarrow> 'v list \<times> 'v slist" where
  "popBacks_loop 0 l = ([], l)"
| "popBacks_loop (Suc n) l =
     (case Back l of
        None \<Rightarrow> ([], l)
      | Some e \<Rightarrow> (case slist_Remove e l of (v, l) \<Rightarrow> case popBacks_loop n l of (vs, l) \<Rightarrow> (v # vs, l)))"

definition pop_count :: "int \<Rightarrow> 'v slist \<Rightarrow> nat" where
  "pop_count mx l = (let len = slist_Len l in if mx > 0 \<and> mx < int len then nat mx else len)"
definition PopFronts :: "int \<Rightarrow> 'v slist \<Rightarrow> 'v list \<times> 'v slist" where
  "PopFronts mx l = (if slist_Len l > 0 then popFronts_loop (pop_count mx l) l else ([], l))"
definition PopBacks :: "int \<Rightarrow> 'v slist \<Rightarrow> 'v list \<times> 'v slist" where
  "PopBacks mx l = (if slist_Len l > 0 then popBacks_loop (pop_count mx l) l else ([], l))"
definition PopFrontAll :: "'v slist \<Rightarrow> 'v list \<times> 'v slist" where "PopFrontAll l = PopFronts (- 1) l"
definition PopBackAll :: "'v slist \<Rightarrow> 'v list \<times> 'v slist" where "PopBackAll l = PopBacks (- 1) l"

definition FrontAll :: "'v slist \<Rightarrow> 'v list" where "FrontAll l = map snd (elems l)"
definition BackAll :: "'v slist \<Rightarrow> 'v list" where "BackAll l = map snd (rev (elems l))"

section \<open>Moving and inserting\<close>

definition before :: "'v element \<Rightarrow> 'v element \<Rightarrow> 'v element list \<Rightarrow> 'v element list" where
  "before e p es = takeWhile (\<lambda>x. fst x \<noteq> fst p) es @ e # dropWhile (\<lambda>x. fst x \<noteq> fst p) es"
definition behind :: "'v element \<Rightarrow> 'v element \<Rightarrow> 'v element list \<Rightarrow> 'v element list" where
  "behind e p es =
     takeWhile (\<lambda>x. fst x \<noteq> fst p) es @
     (case dropWhile (\<lambda>x. fst x \<noteq> fst p) es of [] \<Rightarrow> [e] | x # xs \<Rightarrow> x # e # xs)"
definition others :: "'v element \<Rightarrow> 'v slist \<Rightarrow> 'v element list" where
  "others e l = filter (\<lambda>x. fst x \<noteq> fst e) (elems l)"

definition MoveBefore :: "'v element \<Rightarrow> 'v element \<Rightarrow> 'v slist \<Rightarrow> 'v slist" where
  "MoveBefore e p l =
     (if \<not> in_list e l \<or> fst e = fst p \<or> \<not> in_list p l then l else l\<lparr>elems := before e p (others e l)\<rparr>)"
definition MoveAfter :: "'v element \<Rightarrow> 'v element \<Rightarrow> 'v slist \<Rightarrow> 'v slist" where
  "MoveAfter e p l =
     (if \<not> in_list e l \<or> fst e = fst p \<or> \<not> in_list p l then l else l\<lparr>elems := behind e p (others e l)\<rparr>)"
definition MoveToFront :: "'v element \<Rightarrow> 'v slist \<Rightarrow> 'v slist" where
  "MoveToFront e l = (if \<not> in_list e l then l else l\<lparr>elems := e # others e l\<rparr>)"
definition MoveToBack :: "'v element \<Rightarrow> 'v slist \<Rightarrow> 'v slist" where
  "MoveToBack e l = (if \<not> in_list e l then l else l\<lparr>elems := others e l @ [e]\<rparr>)"

definition InsertBefore :: "'v \<Rightarrow> 'v element \<Rightarrow> 'v slist \<Rightarrow> 'v element option \<times> 'v slist" where
  "InsertBefore v p l =
     (if \<not> in_list p l then (None, l)
      else let e = (fresh l, v) in (Some e, l\<lparr>elems := before e p (elems l), fresh := fresh l + 1\<rparr>))"
definition InsertAfter :: "'v \<Rightarrow> 'v element \<Rightarrow> 'v slist \<Rightarrow> 'v element option \<times> 'v slist" where
  "InsertAfter v p l =
     (if \<not> in_list p l then (None, l)
      else let e = (fresh l, v) in (Some e, l\<lparr>elems := behind e p (elems l), fresh := fresh l + 1\<rparr>))"

text \<open>A copy of the values of another list, or of the list itself, read from its front and from its back.\<close>

definition PushBackList :: "'v slist \<Rightarrow> 'v slist \<Rightarrow> 'v slist" where
  "PushBackList other l = PushBacks (FrontAll other) l"
definition PushFrontList :: "'v slist \<Rightarrow> 'v slist \<Rightarrow> 'v slist" where
  "PushFrontList other l = PushFronts (BackAll other) l"

definition RemoveAll :: "'v slist \<Rightarrow> 'v slist" where "RemoveAll l = slist_New (fresh l)"
definition slist_Clear :: "'v slist \<Rightarrow> 'v slist" where "slist_Clear l = RemoveAll l"

section \<open>Iterating\<close>

text \<open>The callback returns whether to go on; \<open>'s\<close> is what it may change.\<close>

fun iterate :: "('v element \<Rightarrow> 's \<Rightarrow> bool \<times> 's) \<Rightarrow> 'v element list \<Rightarrow> 's \<Rightarrow> 's" where
  "iterate f [] s = s"
| "iterate f (e # es) s = (case f e s of (go_on, s) \<Rightarrow> if go_on then iterate f es s else s)"

definition IteratorAsc :: "('v element \<Rightarrow> 's \<Rightarrow> bool \<times> 's) \<Rightarrow> 'v slist \<Rightarrow> 's \<Rightarrow> 's" where
  "IteratorAsc f l s = iterate f (elems l) s"
definition IteratorDesc :: "('v element \<Rightarrow> 's \<Rightarrow> bool \<times> 's) \<Rightarrow> 'v slist \<Rightarrow> 's \<Rightarrow> 's" where
  "IteratorDesc f l s = iterate f (rev (elems l)) s"
definition slist_Iterator :: "('v element \<Rightarrow> 's \<Rightarrow> bool \<times> 's) \<Rightarrow> 'v slist \<Rightarrow> 's \<Rightarrow> 's" where
  "slist_Iterator f l s = IteratorAsc f l s"

definition slist_RLockFunc :: "('v slist \<Rightarrow> 'r) \<Rightarrow> 'v slist \<Rightarrow> 'r" where "slist_RLockFunc f l = f l"
definition slist_LockFunc :: "('v slist \<Rightarrow> 'v slist) \<Rightarrow> 'v slist \<Rightarrow> 'v slist" where "slist_LockFunc f l = f l"

section \<open>Well-formed lists\<close>

text \<open>The addresses in a list are distinct and have been given out.\<close>

definition slist_ok :: "'v slist \<Rightarrow> bool" where
  "slist_ok l \<longleftrightarrow> distinct (map fst (elems l)) \<and> (\<forall>e \<in> set (elems l). fst e < fresh l)"

lemma slist_ok_push [simp]:
  "slist_ok l \<Longrightarrow> slist_ok (snd (PushFront v l))" "slist_ok l \<Longrightarrow> slist_ok (snd (PushBack v l))" "slist_ok (slist_New a)"
  by (force simp: slist_ok_def PushFront_def PushBack_def slist_New_def Let_def)+

lemma filter_fresh: "a \<notin> fst ` set es \<Longrightarrow> filter (\<lambda>x. fst x \<noteq> a) es = es"
  by (induction es) auto

lemma Remove_front:
  assumes "slist_ok l" "elems l = e # es"
  shows "slist_Remove e l = (snd e, l\<lparr>elems := es\<rparr>)" "slist_ok (l\<lparr>elems := es\<rparr>)"
proof -
  have "filter (\<lambda>x. fst x \<noteq> fst e) es = es" using assms by (intro filter_fresh) (auto simp: slist_ok_def)
  then show "slist_Remove e l = (snd e, l\<lparr>elems := es\<rparr>)" using assms(2) by (simp add: slist_Remove_def in_list_def)
  show "slist_ok (l\<lparr>elems := es\<rparr>)" using assms by (simp add: slist_ok_def)
qed

lemma Remove_back:
  assumes "slist_ok l" "elems l = es @ [e]"
  shows "slist_Remove e l = (snd e, l\<lparr>elems := es\<rparr>)" "slist_ok (l\<lparr>elems := es\<rparr>)"
proof -
  have "filter (\<lambda>x. fst x \<noteq> fst e) es = es" using assms by (intro filter_fresh) (auto simp: slist_ok_def)
  then show "slist_Remove e l = (snd e, l\<lparr>elems := es\<rparr>)" using assms(2) by (simp add: slist_Remove_def in_list_def)
  show "slist_ok (l\<lparr>elems := es\<rparr>)" using assms by (simp add: slist_ok_def)
qed

lemma popFronts_loop_eq:
  "slist_ok l \<Longrightarrow> popFronts_loop n l = (map snd (take n (elems l)), l\<lparr>elems := drop n (elems l)\<rparr>) \<and>
   slist_ok (l\<lparr>elems := drop n (elems l)\<rparr>)"
proof (induction n arbitrary: l)
  case (Suc n)
  show ?case
  proof (cases "elems l")
    case (Cons e es)
    note r = Remove_front [OF Suc.prems Cons]
    show ?thesis using Suc.IH [OF r(2)] Cons by (simp add: Front_def r(1))
  next
    case Nil
    then show ?thesis using Suc.prems by (cases l) (simp add: Front_def slist_ok_def)
  qed
qed simp

lemma popBacks_loop_eq:
  "slist_ok l \<Longrightarrow> popBacks_loop n l = (map snd (take n (rev (elems l))), l\<lparr>elems := rev (drop n (rev (elems l)))\<rparr>) \<and>
   slist_ok (l\<lparr>elems := rev (drop n (rev (elems l)))\<rparr>)"
proof (induction n arbitrary: l)
  case (Suc n)
  show ?case
  proof (cases "elems l" rule: rev_cases)
    case (snoc es e)
    note r = Remove_back [OF Suc.prems snoc]
    have "Back l = Some e" by (cases es) (simp_all add: Back_def snoc)
    then show ?thesis using Suc.IH [OF r(2)] snoc by (simp add: r(1))
  next
    case Nil
    then show ?thesis using Suc.prems by (cases l) (simp add: Back_def slist_ok_def)
  qed
qed simp

lemma PopFronts_eq:
  assumes "slist_ok l"
  shows "PopFronts mx l =
     (map snd (take (pop_count mx l) (elems l)), l\<lparr>elems := drop (pop_count mx l) (elems l)\<rparr>)"
    and "slist_ok (snd (PopFronts mx l))"
  using popFronts_loop_eq [OF assms, of "pop_count mx l"] assms
  by (cases "elems l"; cases l; simp add: PopFronts_def slist_Len_def)+

section \<open>What a queue needs of a list\<close>

text \<open>
  The contract of a double-ended list of values, and what a queue on it relies on: what is taken from the front and what is
  left are the old contents, and a list filled at its back is taken in the order of filling.
\<close>

locale deque =
  fixes ok :: "'l \<Rightarrow> bool" and contents :: "'l \<Rightarrow> 'v list" and len :: "'l \<Rightarrow> nat"
    and push_front :: "'v \<Rightarrow> 'l \<Rightarrow> 'l" and push_back :: "'v \<Rightarrow> 'l \<Rightarrow> 'l" and pop_fronts :: "int \<Rightarrow> 'l \<Rightarrow> 'v list \<times> 'l"
  assumes len_contents: "len l = length (contents l)"
    and push_front: "ok l \<Longrightarrow> ok (push_front v l) \<and> contents (push_front v l) = v # contents l"
    and push_back: "ok l \<Longrightarrow> ok (push_back v l) \<and> contents (push_back v l) = contents l @ [v]"
    and pop_fronts: "ok l \<Longrightarrow> pop_fronts mx l = (vs, l') \<Longrightarrow> ok l' \<and> contents l = vs @ contents l'"
    and pop_some: "ok l \<Longrightarrow> pop_fronts mx l = (vs, l') \<Longrightarrow> contents l \<noteq> [] \<Longrightarrow> vs \<noteq> []"
begin

lemma len_zero: "len l = 0 \<longleftrightarrow> contents l = []"
  by (simp add: len_contents)

lemma push_backs: "ok l \<Longrightarrow> ok (fold push_back vs l) \<and> contents (fold push_back vs l) = contents l @ vs"
  by (induction vs arbitrary: l) (auto simp: push_back)

lemma fill_and_take:
  "ok l \<Longrightarrow> contents l = [] \<Longrightarrow> pop_fronts mx (fold push_back vs l) = (ws, l') \<Longrightarrow> vs = ws @ contents l'"
  using push_backs [of l vs] pop_fronts [of "fold push_back vs l" mx ws l'] by simp

end

interpretation ldeque: deque slist_ok FrontAll slist_Len "\<lambda>v l. snd (PushFront v l)" "\<lambda>v l. snd (PushBack v l)" PopFronts
proof
  fix l l' :: "'v slist" and v :: 'v and mx vs
  show "slist_Len l = length (FrontAll l)" by (simp add: slist_Len_def FrontAll_def)
  assume ok: "slist_ok l"
  show "slist_ok (snd (PushFront v l)) \<and> FrontAll (snd (PushFront v l)) = v # FrontAll l"
    using ok by (simp add: FrontAll_def) (simp add: PushFront_def Let_def)
  show "slist_ok (snd (PushBack v l)) \<and> FrontAll (snd (PushBack v l)) = FrontAll l @ [v]"
    using ok by (simp add: FrontAll_def) (simp add: PushBack_def Let_def)
  assume p: "PopFronts mx l = (vs, l')"
  show "slist_ok l' \<and> FrontAll l = vs @ FrontAll l'"
    using PopFronts_eq [OF ok, of mx] p by (auto simp: FrontAll_def map_append [symmetric] simp del: map_append)
  assume "FrontAll l \<noteq> []"
  then show "vs \<noteq> []" using PopFronts_eq(1) [OF ok, of mx] p by (auto simp: FrontAll_def pop_count_def slist_Len_def Let_def split: if_splits)
qed

end
