(* ===== verification/Sync_Queue.thy ===== *)
theory Sync_Queue
  imports Sync_List
begin

text \<open>
  The queue of \<open>utils/container/squeue/squeue.go\<close>: producers fill a list and post an event, one goroutine moves the values in
  batches from the list to a channel, consumers read the channel.

  The goroutines interleave, so an operation is split where another goroutine can come between: the record has the list, the
  two channels (of the events only the number counts), the place at which \<open>startAsyncLoop\<close> is, and the calls of \<open>push\<close>
  that have filled the list but not yet looked at the events, or have looked and not yet posted. A step that would block is
  \<open>None\<close>. A send to a closed channel and a second close of a channel panic.
\<close>

definition DEFAULT_QUEUE_SIZE :: nat where "DEFAULT_QUEUE_SIZE = 512"
definition DEFAULT_MAX_BATCH_SIZE :: nat where "DEFAULT_MAX_BATCH_SIZE = 10"

text \<open>The places in \<open>startAsyncLoop\<close>.\<close>

datatype 'v place =
    LoopTest                  \<comment> \<open>the test of the outer loop\<close>
  | AwaitEvent                \<comment> \<open>the receive from \<open>q.events\<close>\<close>
  | DrainTest                 \<comment> \<open>the test of the inner loop\<close>
  | ReadLen                   \<comment> \<open>\<open>q.list.Len()\<close>\<close>
  | PopBatch nat              \<comment> \<open>\<open>q.list.PopFronts(length)\<close>\<close>
  | Sending "'v list"         \<comment> \<open>the values of the batch not yet sent to \<open>q.C\<close>\<close>
  | ClearTest nat             \<comment> \<open>the test of the loop that clears events, with \<open>i\<close>\<close>
  | ClearEvent nat            \<comment> \<open>its receive\<close>
  | LoopDone                  \<comment> \<open>after \<open>close(q.C)\<close>\<close>

record 'v queue =
  limit :: nat
  static :: bool
  qlist :: "'v slist"
  closed :: bool
  events :: nat
  events_closed :: bool
  chan :: "'v list"
  chan_closed :: bool
  place :: "'v place"
  filled :: nat
  posting :: nat

text \<open>\<open>New\<close> without a limit; the loop starts at its test.\<close>

definition New_queue :: "nat \<Rightarrow> 'v queue" where
  "New_queue a = \<lparr>limit = 0, static = False, qlist = slist_New a, closed = False, events = 0, events_closed = False, chan = [],
     chan_closed = False, place = LoopTest, filled = 0, posting = 0\<rparr>"

text \<open>\<open>New\<close> with a limit makes neither list nor events (they are nil: \<open>static\<close>), and starts no loop.\<close>

definition New_limited :: "nat \<Rightarrow> nat \<Rightarrow> 'v queue" where
  "New_limited n a = (New_queue a)\<lparr>limit := n, static := True, place := LoopDone\<rparr>"

definition chan_size :: "'v queue \<Rightarrow> nat" where
  "chan_size q = (if static q then limit q else DEFAULT_QUEUE_SIZE)"

section \<open>The loop\<close>

fun loop_at :: "'v place \<Rightarrow> 'v queue \<Rightarrow> 'v queue go option" where
  "loop_at LoopTest q =
     Some (Inr (if \<not> closed q then q\<lparr>place := AwaitEvent\<rparr> else q\<lparr>place := LoopDone, chan_closed := True\<rparr>))"
| "loop_at AwaitEvent q =
     (if events q > 0 then Some (Inr (q\<lparr>events := events q - 1, place := DrainTest\<rparr>))
      else if events_closed q then Some (Inr (q\<lparr>place := DrainTest\<rparr>)) else None)"
| "loop_at DrainTest q = Some (Inr (q\<lparr>place := (if \<not> closed q then ReadLen else ClearTest 0)\<rparr>))"
| "loop_at ReadLen q =
     Some (Inr (let len = slist_Len (qlist q) in
       if len > 0 then q\<lparr>place := PopBatch (if len > DEFAULT_MAX_BATCH_SIZE then DEFAULT_MAX_BATCH_SIZE else len)\<rparr>
       else q\<lparr>place := ClearTest 0\<rparr>))"
| "loop_at (PopBatch n) q =
     Some (Inr (case PopFronts (int n) (qlist q) of (vs, l) \<Rightarrow> q\<lparr>qlist := l, place := Sending vs\<rparr>))"
| "loop_at (Sending []) q = Some (Inr (q\<lparr>place := DrainTest\<rparr>))"
| "loop_at (Sending (v # vs)) q =
     (if chan_closed q then Some (Inl (PanicValue ''send on closed channel''))
      else if length (chan q) < chan_size q then Some (Inr (q\<lparr>chan := chan q @ [v], place := Sending vs\<rparr>)) else None)"
| "loop_at (ClearTest i) q =
     Some (Inr (q\<lparr>place := (if int i < int (events q) - 1 then ClearEvent i else LoopTest)\<rparr>))"
| "loop_at (ClearEvent i) q =
     (if events q > 0 then Some (Inr (q\<lparr>events := events q - 1, place := ClearTest (i + 1)\<rparr>))
      else if events_closed q then Some (Inr (q\<lparr>place := ClearTest (i + 1)\<rparr>)) else None)"
| "loop_at LoopDone q = None"

definition startAsyncLoop :: "'v queue \<Rightarrow> 'v queue go option" where
  "startAsyncLoop q = loop_at (place q) q"

section \<open>Producers and consumers\<close>

text \<open>\<open>push\<close>: the list is filled; then the events are counted; then, unless there are enough, one is posted.\<close>

definition push_fill :: "'v \<Rightarrow> bool \<Rightarrow> 'v queue \<Rightarrow> 'v queue" where
  "push_fill v front q =
     q\<lparr>qlist := (if front then snd (PushFront v (qlist q)) else snd (PushBack v (qlist q))), filled := filled q + 1\<rparr>"
definition push_count :: "'v queue \<Rightarrow> 'v queue option" where
  "push_count q =
     (if filled q = 0 then None
      else let q = q\<lparr>filled := filled q - 1\<rparr> in
        Some (if events q < DEFAULT_QUEUE_SIZE then q\<lparr>posting := posting q + 1\<rparr> else q))"
definition push_post :: "'v queue \<Rightarrow> 'v queue go option" where
  "push_post q =
     (if posting q = 0 then None
      else if events_closed q then Some (Inl (PanicValue ''send on closed channel''))
      else if events q < DEFAULT_QUEUE_SIZE + DEFAULT_MAX_BATCH_SIZE then Some (Inr (q\<lparr>events := events q + 1, posting := posting q - 1\<rparr>))
      else None)"

text \<open>The first step of \<open>Push\<close> and \<open>PushFront\<close>, the only one for a queue with a limit.\<close>

definition push_start :: "'v \<Rightarrow> bool \<Rightarrow> 'v queue \<Rightarrow> 'v queue go option" where
  "push_start v front q =
     (if limit q > 0
      then (if chan_closed q then Some (Inl (PanicValue ''send on closed channel''))
            else if length (chan q) < chan_size q then Some (Inr (q\<lparr>chan := chan q @ [v]\<rparr>)) else None)
      else if static q then Some (Inl (PanicRuntime NilDereference))
      else Some (Inr (push_fill v front q)))"
definition queue_Push :: "'v \<Rightarrow> 'v queue \<Rightarrow> 'v queue go option" where "queue_Push v q = push_start v False q"
definition queue_PushFront :: "'v \<Rightarrow> 'v queue \<Rightarrow> 'v queue go option" where "queue_PushFront v q = push_start v True q"

text \<open>A receive: blocks on an open empty channel, and gives nil on a closed one.\<close>

definition queue_Pop :: "'v queue \<Rightarrow> ('v option \<times> 'v queue) option" where
  "queue_Pop q =
     (case chan q of
        v # vs \<Rightarrow> Some (Some v, q\<lparr>chan := vs\<rparr>)
      | [] \<Rightarrow> if chan_closed q then Some (None, q) else None)"

text \<open>\<open>Close\<close>: the flag, the events (nil for a queue with a limit), then ten receives.\<close>

definition close_events :: "'v queue \<Rightarrow> 'v queue go" where
  "close_events q =
     (if static q then Inr q
      else if events_closed q then Inl (PanicValue ''close of closed channel'') else Inr (q\<lparr>events_closed := True\<rparr>))"
fun close_pops :: "nat \<Rightarrow> 'v queue \<Rightarrow> 'v queue option" where
  "close_pops 0 q = Some q"
| "close_pops (Suc n) q = (case queue_Pop q of None \<Rightarrow> None | Some (v, q) \<Rightarrow> close_pops n q)"

text \<open>\<open>Close\<close> when no other goroutine takes a step; \<open>None\<close> if one of its receives blocks.\<close>

definition queue_Close :: "'v queue \<Rightarrow> 'v queue go option" where
  "queue_Close q =
     (case close_events (q\<lparr>closed := True\<rparr>) of
        Inl e \<Rightarrow> Some (Inl e)
      | Inr q \<Rightarrow> map_option Inr (close_pops DEFAULT_MAX_BATCH_SIZE q))"

definition queue_Len :: "'v queue \<Rightarrow> nat" where
  "queue_Len q = (if static q then 0 else slist_Len (qlist q)) + length (chan q)"
definition queue_Size :: "'v queue \<Rightarrow> nat" where "queue_Size q = queue_Len q"

section \<open>Interleavings\<close>

text \<open>
  The states that any number of producers, consumers and a closing goroutine reach with the loop, with the values pushed
  (by \<open>Push\<close>, at the back) and popped so far, in the order of these calls. The receives of \<open>Close\<close> are pops like others.
  \<open>PushFront\<close> is left out: it is there to overtake.
\<close>

inductive q_reach :: "nat \<Rightarrow> 'v queue \<Rightarrow> 'v list \<Rightarrow> 'v list \<Rightarrow> bool" for a where
  q_new: "q_reach a (New_queue a) [] []"
| q_loop: "q_reach a q ps os \<Longrightarrow> startAsyncLoop q = Some (Inr q') \<Longrightarrow> q_reach a q' ps os"
| q_push: "q_reach a q ps os \<Longrightarrow> queue_Push v q = Some (Inr q') \<Longrightarrow> q_reach a q' (ps @ [v]) os"
| q_count: "q_reach a q ps os \<Longrightarrow> push_count q = Some q' \<Longrightarrow> q_reach a q' ps os"
| q_post: "q_reach a q ps os \<Longrightarrow> push_post q = Some (Inr q') \<Longrightarrow> q_reach a q' ps os"
| q_pop: "q_reach a q ps os \<Longrightarrow> queue_Pop q = Some (Some v, q') \<Longrightarrow> q_reach a q' ps (os @ [v])"
| q_flag: "q_reach a q ps os \<Longrightarrow> q_reach a (q\<lparr>closed := True\<rparr>) ps os"
| q_close: "q_reach a q ps os \<Longrightarrow> closed q \<Longrightarrow> close_events q = Inr q' \<Longrightarrow> q_reach a q' ps os"

text \<open>The values the loop has taken from the list and not yet sent.\<close>

fun in_batch :: "'v place \<Rightarrow> 'v list" where
  "in_batch (Sending vs) = vs"
| "in_batch p = []"

definition q_values :: "'v queue \<Rightarrow> 'v list" where
  "q_values q = chan q @ in_batch (place q) @ FrontAll (qlist q)"

text \<open>The loop will look at the list again without an event.\<close>

fun draining :: "'v place \<Rightarrow> bool" where
  "draining DrainTest = True"
| "draining ReadLen = True"
| "draining (PopBatch n) = True"
| "draining (Sending vs) = True"
| "draining p = False"

text \<open>
  No value in the list is forgotten: the loop is about to look at the list, or an event waits, or a producer is about to count
  or to post. The loop that clears events leaves one.
\<close>

definition q_inv :: "'v queue \<Rightarrow> bool" where
  "q_inv q \<longleftrightarrow> limit q = 0 \<and> \<not> static q \<and> slist_ok (qlist q) \<and> (events_closed q \<longrightarrow> closed q) \<and>
     (chan_closed q \<longleftrightarrow> place q = LoopDone) \<and> (place q = LoopDone \<longrightarrow> closed q) \<and>
     (\<forall>i. place q = ClearEvent i \<longrightarrow> 2 \<le> events q) \<and>
     (FrontAll (qlist q) \<noteq> [] \<and> \<not> closed q \<longrightarrow>
        draining (place q) \<or> 0 < events q \<or> 0 < filled q \<or> 0 < posting q)"

lemma q_inv_new: "q_inv (New_queue a)"
  by (simp add: q_inv_def New_queue_def FrontAll_def slist_New_def slist_ok_def)

lemma q_step_loop:
  assumes inv: "q_inv q" and step: "startAsyncLoop q = Some (Inr q')"
  shows "q_inv q' \<and> q_values q' = q_values q"
proof (cases "place q")
  case (PopBatch n)
  obtain vs l where p: "PopFronts (int n) (qlist q) = (vs, l)" by (cases "PopFronts (int n) (qlist q)")
  have "slist_ok l" "FrontAll (qlist q) = vs @ FrontAll l" using inv ldeque.pop_fronts [OF _ p] by (simp_all add: q_inv_def)
  then show ?thesis using PopBatch p inv step by (auto simp: startAsyncLoop_def q_inv_def q_values_def)
next
  case (Sending vs)
  then show ?thesis using inv step
    by (cases vs) (auto simp: startAsyncLoop_def q_inv_def q_values_def split: if_splits)
next
  case ReadLen
  then show ?thesis using inv step ldeque.len_zero [of "qlist q"]
    by (auto simp: startAsyncLoop_def q_inv_def q_values_def Let_def split: if_splits)
qed (use inv step in \<open>auto simp: startAsyncLoop_def q_inv_def q_values_def split: if_splits\<close>)

lemma q_step_push:
  assumes "q_inv q" "queue_Push v q = Some (Inr q')"
  shows "q_inv q' \<and> q_values q' = q_values q @ [v]"
proof -
  have "slist_ok (snd (PushBack v (qlist q)))" "FrontAll (snd (PushBack v (qlist q))) = FrontAll (qlist q) @ [v]"
    using assms(1) ldeque.push_back [of "qlist q" v] by (simp_all add: q_inv_def)
  moreover have "q' = push_fill v False q" using assms by (simp add: queue_Push_def push_start_def q_inv_def)
  ultimately show ?thesis using assms(1) by (simp add: push_fill_def q_inv_def q_values_def)
qed

lemma q_step_count:
  assumes "q_inv q" "push_count q = Some q'"
  shows "q_inv q' \<and> q_values q' = q_values q"
  using assms by (cases "events q < DEFAULT_QUEUE_SIZE")
    (auto simp: push_count_def q_inv_def q_values_def DEFAULT_QUEUE_SIZE_def split: if_splits)

lemma q_step_post: "q_inv q \<Longrightarrow> push_post q = Some (Inr q') \<Longrightarrow> q_inv q' \<and> q_values q' = q_values q"
  by (auto simp: push_post_def q_inv_def q_values_def split: if_splits)

lemma q_step_pop: "q_inv q \<Longrightarrow> queue_Pop q = Some (Some v, q') \<Longrightarrow> q_inv q' \<and> v # q_values q' = q_values q"
  by (auto simp: queue_Pop_def q_inv_def q_values_def split: if_splits list.splits)

lemma q_step_close:
  "q_inv q \<Longrightarrow> q_inv (q\<lparr>closed := True\<rparr>) \<and> q_values (q\<lparr>closed := True\<rparr>) = q_values q"
  "q_inv q \<Longrightarrow> closed q \<Longrightarrow> close_events q = Inr q' \<Longrightarrow> q_inv q' \<and> q_values q' = q_values q"
  by (auto simp: close_events_def q_inv_def q_values_def split: if_splits)

lemma q_reach_inv: "q_reach a q ps os \<Longrightarrow> q_inv q \<and> ps = os @ q_values q"
proof (induction rule: q_reach.induct)
  case q_new
  show ?case using q_inv_new by (simp add: q_values_def New_queue_def FrontAll_def slist_New_def)
next
  case (q_loop q ps os q')
  then show ?case using q_step_loop [of q q'] by simp
next
  case (q_push q ps os v q')
  then show ?case using q_step_push [of q v q'] by simp
next
  case (q_count q ps os q')
  then show ?case using q_step_count [of q q'] by simp
next
  case (q_post q ps os q')
  then show ?case using q_step_post [of q q'] by simp
next
  case (q_pop q ps os v q')
  then show ?case using q_step_pop [of q v q'] by simp
next
  case (q_flag q ps os)
  then show ?case using q_step_close(1) [of q] by simp
next
  case (q_close q ps os q')
  then show ?case using q_step_close(2) [of q q'] by simp
qed

text \<open>Steps of the loop alone.\<close>

fun loop_steps :: "nat \<Rightarrow> 'v queue \<Rightarrow> 'v queue option" where
  "loop_steps 0 q = Some q"
| "loop_steps (Suc n) q = (case startAsyncLoop q of Some (Inr q') \<Rightarrow> loop_steps n q' | _ \<Rightarrow> None)"

lemma loop_steps_reach: "q_reach a q ps os \<Longrightarrow> loop_steps n q = Some q' \<Longrightarrow> q_reach a q' ps os"
  by (induction n arbitrary: q) (auto intro: q_loop split: option.splits sum.splits)

text \<open>A value that was pushed and announced.\<close>

definition sample_queue :: "nat queue" where
  "sample_queue = (New_queue 0)\<lparr>qlist := \<lparr>elems = [(0, 7)], fresh = 1\<rparr>, events := 1\<rparr>"

lemma sample_queue_reach: "q_reach 0 sample_queue [7] []"
proof -
  let ?q = "(New_queue 0 :: nat queue)\<lparr>qlist := \<lparr>elems = [(0, 7)], fresh = 1\<rparr>\<rparr>"
  have "q_reach 0 (?q\<lparr>filled := 1\<rparr>) ([] @ [7]) []"
    by (rule q_push [OF q_new])
      (simp add: queue_Push_def push_start_def push_fill_def New_queue_def PushBack_def slist_New_def Let_def)
  then have "q_reach 0 (?q\<lparr>posting := 1\<rparr>) [7] []"
    by - (rule q_count [of 0 "?q\<lparr>filled := 1\<rparr>"], simp_all add: push_count_def New_queue_def DEFAULT_QUEUE_SIZE_def)
  then show ?thesis
    by - (rule q_post [of 0 "?q\<lparr>posting := 1\<rparr>"],
      simp_all add: push_post_def New_queue_def sample_queue_def DEFAULT_QUEUE_SIZE_def)
qed

lemma sample_queue_moved:
  "loop_steps 11 sample_queue = Some (sample_queue\<lparr>qlist := \<lparr>elems = [], fresh = 1\<rparr>, events := 0, chan := [7], place := AwaitEvent\<rparr>)"
  by (simp add: eval_nat_numeral startAsyncLoop_def sample_queue_def New_queue_def slist_Len_def PopFronts_def pop_count_def
      Front_def slist_Remove_def in_list_def chan_size_def DEFAULT_QUEUE_SIZE_def DEFAULT_MAX_BATCH_SIZE_def Let_def)

text \<open>Receives of a closing goroutine from a channel that nobody fills or closes.\<close>

lemma close_pops_blocks: "\<not> chan_closed q \<Longrightarrow> length (chan q) < n \<Longrightarrow> close_pops n q = None"
proof (induction n arbitrary: q)
  case (Suc n)
  then show ?case by (cases "chan q") (auto simp: queue_Pop_def)
qed simp

section \<open>Properties\<close>

text \<open>
  C7. First in, first out under every interleaving: whatever producers that call \<open>Push\<close>, consumers, the moving goroutine and a
  closing one do on a queue without a limit, the values popped so far, those in the channel, those in the batch being moved and those in the list are together, in this
  order, the values pushed so far. None is lost, doubled or overtaken.
\<close>

theorem queue_fifo:
  assumes "q_reach a q ps os"
  shows "ps = os @ chan q @ in_batch (place q) @ FrontAll (qlist q)"
  using q_reach_inv [OF assms] by (simp add: q_values_def)

theorem queue_fifo_witness: "q_reach 0 sample_queue [7] [] \<and> [7] = [] @ chan sample_queue @ in_batch (place sample_queue) @ FrontAll (qlist sample_queue)"
  using queue_fifo [OF sample_queue_reach] sample_queue_reach by simp

text \<open>
  C8. No lost wake-up, in the same interleavings: if the queue is open, no call of \<open>Push\<close> is under way, and the moving goroutine cannot take a step, then
  all values have been moved to the channel, or the channel is full and waits for a consumer. The loop never sleeps on values
  in the list.
\<close>

theorem queue_no_lost_wakeup:
  assumes "q_reach a q ps os" "\<not> closed q" "filled q = 0" "posting q = 0" "startAsyncLoop q = None"
  shows "ps = os @ chan q \<or> length (chan q) \<ge> DEFAULT_QUEUE_SIZE"
proof -
  have i: "q_inv q" "ps = os @ q_values q" using q_reach_inv [OF assms(1)] by auto
  show ?thesis
  proof (cases "place q")
    case AwaitEvent
    then have "FrontAll (qlist q) = []" using i(1) assms by (auto simp: startAsyncLoop_def q_inv_def split: if_splits)
    then show ?thesis using i(2) AwaitEvent by (simp add: q_values_def)
  next
    case (Sending vs)
    then show ?thesis using i(1) assms(5)
      by (cases vs) (auto simp: startAsyncLoop_def q_inv_def chan_size_def split: if_splits)
  next
    case (ClearEvent n)
    then show ?thesis using i(1) assms(5) by (auto simp: startAsyncLoop_def q_inv_def split: if_splits)
  next
    case LoopDone
    then show ?thesis using i(1) assms(2) by (auto simp: q_inv_def)
  qed (use assms(5) in \<open>simp_all add: startAsyncLoop_def\<close>)
qed

theorem queue_no_lost_wakeup_witness:
  "\<exists>q. q_reach 0 q [7 :: nat] [] \<and> startAsyncLoop q = None \<and> ([7] = [] @ chan q \<or> length (chan q) \<ge> DEFAULT_QUEUE_SIZE)"
proof -
  let ?q = "sample_queue\<lparr>qlist := \<lparr>elems = [], fresh = 1\<rparr>, events := 0, chan := [7], place := AwaitEvent\<rparr>"
  have r: "q_reach 0 ?q [7] []" by (rule loop_steps_reach [OF sample_queue_reach sample_queue_moved])
  have s: "startAsyncLoop ?q = None" "\<not> closed ?q" "filled ?q = 0" "posting ?q = 0"
    by (simp_all add: startAsyncLoop_def sample_queue_def New_queue_def)
  show ?thesis using queue_no_lost_wakeup [OF r s(2,3,4,1)] r s(1) by blast
qed

text \<open>
  \<open>Close\<close> of a queue with a limit does not return: nobody closes its channel, and with fewer than ten values in it and no
  producer one of the ten receives of \<open>Close\<close> waits forever.
\<close>

theorem limited_close_blocks:
  assumes "static q" "\<not> chan_closed q" "length (chan q) < 10"
  shows "queue_Close q = None"
  using close_pops_blocks [of "q\<lparr>closed := True\<rparr>" 10] assms
  by (simp add: queue_Close_def close_events_def DEFAULT_MAX_BATCH_SIZE_def)

theorem limited_close_blocks_witness: "queue_Close ((New_limited 4 0 :: nat queue)\<lparr>chan := [1, 2]\<rparr>) = None"
  by (rule limited_close_blocks) (simp_all add: New_limited_def New_queue_def)

end
