(* ===== verification/Spec2Isabelle.thy ===== *)
theory Spec2Isabelle
  imports Byte_Pool Io_Buffer Mqtt_Codec Response_Laws Sync_Queue
begin

text \<open>
  Strike is a protocol proxy written in Go. It reads bytes from connections into pooled buffers, decodes them to MQTT or
  HTTP messages, passes these through filters, and sends what it encodes to the other side. This development models the
  parts that decide what bytes mean and in what order they are handed on: the buffers, the MQTT codec, the text conversions
  and the headers of HTTP, and the queue between goroutines.

  \<^bold>\<open>Parts and theories.\<close>

  \<^item> \<open>Strike_Prelude\<close>: bytes (\<open>8 word\<close>), Go errors and panics, computations with a state and panics, facts on lists.

  \<^item> \<open>Byte_Pool\<close>, \<open>pkg/buffer/bytebufferpool.go\<close>: slabs of byte arrays. \<open>Io_Buffer\<close>, \<open>pkg/buffer/iobuffer.go\<close> and
  \<open>iobufferpool.go\<close>: the record \<open>ioBuffer\<close> has the array, the length, the read offset, the mark and the reference count of
  the struct, and every method is a definition of its name. The sizes a method takes from the pool are those of the slabs. The
  pool of buffers holds pointers, so the record \<open>pools\<close> has the buffers in a store by address.

  \<^item> \<open>Mqtt_Wire\<close>, \<open>Mqtt_Message\<close>, \<open>Mqtt_Codec\<close>, \<open>pkg/protocol/mqtt/message\<close>: integers, strings and the remaining length; the
  fields, the decoding methods and the encoders of the fourteen message types; the decoder of \<open>codec.go\<close> with the state it
  keeps between calls and its recovery from panics. They read and write through the \<open>ioBuffer\<close>. \<open>wire\<close> is the MQTT format of a
  message, by arithmetic and without the helpers of the code; the theorems compare both directions with it.

  \<^item> \<open>Bytes_Conv\<close>, \<open>utils/bytesconv.go\<close>, and \<open>Args\<close>, \<open>utils/args.go\<close>: numbers at 64 bits, hexadecimal chunk sizes, escapes,
  addresses; lists of key-value pairs with the spare slots behind a slice. \<open>Go_Bytes\<close>: what the code calls of Go's \<open>bytes\<close>.

  \<^item> \<open>Http_Uri\<close>, \<open>Http_Cookie\<close>, \<open>Http_Status\<close>, \<open>pkg/protocol/http/v1\<close>: \<open>uri.go\<close> with \<open>uri_unix.go\<close>, \<open>cookie.go\<close>, \<open>status.go\<close>.

  \<^item> \<open>Http_Scan\<close>, \<open>Header_Loop\<close>, \<open>Http_Request\<close>, \<open>Http_Response\<close>, \<open>Request_Laws\<close>, \<open>Response_Laws\<close>, \<open>header.go\<close> and
  \<open>strings.go\<close>: header names and lines, the loop both parsers run, and the methods of \<open>RequestHeader\<close> (\<open>Req_\<close> before the
  name) and \<open>ResponseHeader\<close> (\<open>Resp_\<close>), then what holds of them.

  \<^item> \<open>Sync_List\<close>, \<open>Sync_Queue\<close>, \<open>utils/container\<close>: the list with a lock, and the queue whose goroutine moves values from such a
  list to a channel. A method under a lock is one step; \<open>q_reach\<close> is what all interleavings of these steps reach.

  \<^bold>\<open>How the code is translated.\<close> A struct is a record, a method a definition that returns the changed record. A panic is the
  left value of a sum, an error a value of its own type. A slice that keeps its capacity has its spare part in the record where
  the code reads it again. A nil result that the code tests is \<open>None\<close>. Clocks, date layouts, readers and writers, the filter
  that gets a message, the choices of \<open>sync.Pool\<close>, the stream ids that others draw, and the date of the server are arguments.

  \<^bold>\<open>Interfaces.\<close> \<open>byte_sink\<close> (\<open>Io_Buffer\<close>): what the encoders need of a buffer; they are proved over it and it is
  interpreted on the buffer. \<open>kv_store\<close> (\<open>Args\<close>): set and look up, interpreted on \<open>SetArg\<close> and \<open>PeekArgStr\<close>. \<open>header_loop\<close>
  (\<open>Header_Loop\<close>): interpreted on the loops of the request and of the response parser. \<open>deque\<close> (\<open>Sync_List\<close>): what the
  queue needs of the list, interpreted on the list.

  \<^bold>\<open>What is shown.\<close>

  \<^item> Buffers: a write appends exactly its bytes on every way of growing; reads, marks, draining to a writer and filling from a
  reader, also an endless one, neither lose nor invent bytes; releases are counted on shared buffers. A mark set before the buffer
  slides is stale, and a duplicate release spoils a buffer that is in the pool.

  \<^item> MQTT: messages are encoded to the MQTT format and decoded back, alone and in a stream, and handed on in order; a body in two
  parts is completed; the decoder returns. Two states are shown in which it loses a header byte or does not return. The decoder
  reads one topic filter, return code or topic name of a message, and the encoder of UNSUBSCRIBE writes no topic names: the
  statements exclude messages with more.

  \<^item> Text: numbers do not overflow; numbers, escapes, addresses, query strings, URIs and cookies are printed and read back; a
  normalised path cannot climb; setting a pair is the update of a finite map.

  \<^item> HTTP headers: requests and responses are printed and read back; parsing does not depend on what follows; a chunked body
  cannot be overridden by a length; an accepted response says where its body ends; names are canonical and found in any case.

  \<^item> Queue: values come out in the order they went in under every interleaving, and the moving goroutine never sleeps on them.

  \<^bold>\<open>Bounds and termination.\<close> Loops are structural recursion or have a measure, mostly the bytes left. The two that may run
  forever are \<open>partial_function (option)\<close>, where \<open>None\<close> is a loop that does not end: \<open>readOnce_loop\<close> and \<open>decode_loop\<close>. That
  they return is proved, for \<open>ReadOnce\<close> on every well-formed buffer and every reader, since it stops behind \<open>MaxRead\<close> bytes, and
  for \<open>doDecode\<close> when no payload is pending. There is
  no fuel. Numbers the code keeps in a machine word are words: the value of \<open>ParseUintBuf\<close> at 64 bits, the remaining length
  at 32, stream identifiers at 64. Lengths of slices are \<open>nat\<close>.

  \<^bold>\<open>Not modelled.\<close>

  \<^item> The proxy, controller and TCP filters, the stream layer, sessions, listeners, the event loop, worker pools, the emitter and
  the server: sockets, timers and goroutines that call each other back, over interfaces of packages not modelled here.

  \<^item> \<open>codec.go\<close>, \<open>request.go\<close> and \<open>response.go\<close> of HTTP, and the methods \<open>Read\<close>, \<open>tryRead\<close> and \<open>doParse\<close> of the headers: they
  drive readers and writers of the standard library. The pool in \<open>bytebufferpool.go\<close> of HTTP works by statistics.

  \<^item> Rate limiters, rule filters and \<open>ParseUfloat\<close>: float64 arithmetic, the clock and a cache package outside the repository.

  \<^item> Clusters, configuration, TLS, administration, logging and the examples: JSON, certificates, constants and wiring.

  \<^item> \<open>PushFront\<close> of the queue is modelled, but its interleavings are not among those of \<open>q_reach\<close>.
\<close>

end
